(* ===== verification/Prelude.thy ===== *)
theory Prelude
  imports Main "HOL-Library.Word" "HOL-Library.Sublist"
begin

text \<open>
  What the components of the development share: the result type of a C operation that can
  fault, bounds-checked reads and writes of a C array, the C string functions the sources
  call, fixed-width little-endian integers, and the interfaces (locales) that several
  components implement: a FIFO queue, a byte sink, and a transition system with an invariant.
\<close>

section \<open>Results of C operations\<close>

text \<open>
  An operation of the C program either yields a value or does something the C standard gives
  no meaning to (or aborts, or leaves by a Lua error, or never returns). Each such outcome is a constructor, so
  that every failing branch of the source is a branch of the model.
\<close>

datatype fault =
    Null_Deref
  | Out_Of_Bounds
  | Use_After_Free
  | Assert_Failed
  | Lua_Error string
  | Diverges

type_synonym 'a res = "fault + 'a"

definition bind_res :: "'a res \<Rightarrow> ('a \<Rightarrow> 'b res) \<Rightarrow> 'b res" where
  "bind_res r f = (case r of Inl e \<Rightarrow> Inl e | Inr x \<Rightarrow> f x)"

lemma bind_res_simps [simp]:
  "bind_res (Inl e) f = Inl e"
  "bind_res (Inr x) f = f x"
  by (simp_all add: bind_res_def)

lemma bind_res_Inr_iff:
  "bind_res r f = Inr y \<longleftrightarrow> (\<exists>x. r = Inr x \<and> f x = Inr y)"
  by (cases r) auto

lemma bind_res_cong [fundef_cong]:
  "r = r' \<Longrightarrow> (\<And>x. r' = Inr x \<Longrightarrow> f x = g x) \<Longrightarrow> bind_res r f = bind_res r' g"
  by (cases r') auto

text \<open>A loop is a \<open>partial_function (option)\<close>: \<open>None\<close> is a loop that does not end.\<close>

definition loop_res :: "'a res option \<Rightarrow> 'a res" where
  "loop_res r = (case r of None \<Rightarrow> Inl Diverges | Some x \<Rightarrow> x)"

lemma loop_res_simps [simp]: "loop_res None = Inl Diverges" "loop_res (Some x) = x"
  by (simp_all add: loop_res_def)

text \<open>Fact collections: definitions of C operations, and how they act on lengths.\<close>

named_theorems c_ops
named_theorems c_length

section \<open>C arrays\<close>

definition arr_read :: "'a list \<Rightarrow> nat \<Rightarrow> 'a res" where
  "arr_read a i = (if i < length a then Inr (a ! i) else Inl Out_Of_Bounds)"

definition arr_write :: "'a list \<Rightarrow> nat \<Rightarrow> 'a \<Rightarrow> 'a list res" where
  "arr_write a i x = (if i < length a then Inr (a[i := x]) else Inl Out_Of_Bounds)"

definition overlay :: "'a list \<Rightarrow> nat \<Rightarrow> 'a list \<Rightarrow> 'a list" where
  "overlay a off xs = take off a @ xs @ drop (off + length xs) a"

definition arr_copy :: "'a list \<Rightarrow> nat \<Rightarrow> 'a list \<Rightarrow> 'a list res" where
  "arr_copy a off xs =
     (if off + length xs \<le> length a then Inr (overlay a off xs) else Inl Out_Of_Bounds)"

definition arr_slice :: "'a list \<Rightarrow> nat \<Rightarrow> nat \<Rightarrow> 'a list res" where
  "arr_slice a off n = (if off + n \<le> length a then Inr (take n (drop off a)) else Inl Out_Of_Bounds)"

lemma arr_read_ok [simp]: "i < length a \<Longrightarrow> arr_read a i = Inr (a ! i)"
  by (simp add: arr_read_def)

lemma arr_write_ok [simp]: "i < length a \<Longrightarrow> arr_write a i x = Inr (a[i := x])"
  by (simp add: arr_write_def)

lemma arr_copy_ok [simp]: "off + length xs \<le> length a \<Longrightarrow> arr_copy a off xs = Inr (overlay a off xs)"
  by (simp add: arr_copy_def)

lemma arr_slice_ok [simp]: "off + n \<le> length a \<Longrightarrow> arr_slice a off n = Inr (take n (drop off a))"
  by (simp add: arr_slice_def)

lemma length_overlay [simp, c_length]: "off + length xs \<le> length a \<Longrightarrow> length (overlay a off xs) = length a"
  by (simp add: overlay_def)

lemma take_overlay [simp]: "off + length xs \<le> length a \<Longrightarrow> n \<le> off \<Longrightarrow> take n (overlay a off xs) = take n a"
  by (simp add: overlay_def min_def)

lemma take_overlay_end:
  "off + length xs \<le> length a \<Longrightarrow> take (off + length xs) (overlay a off xs) = take off a @ xs"
  by (simp add: overlay_def)

lemma nth_overlay:
  "off + length xs \<le> length a \<Longrightarrow> i < length a \<Longrightarrow>
   overlay a off xs ! i = (if off \<le> i \<and> i < off + length xs then xs ! (i - off) else a ! i)"
  by (auto simp: overlay_def nth_append min_def)

text \<open>Agreement of two arrays up to a position: what a writer that stays above it keeps.\<close>

lemma take_eq_nth: "take n a = take n b \<Longrightarrow> i < n \<Longrightarrow> a ! i = b ! i"
  by (metis nth_take)

lemma take_eq_mono: "take n a = take n b \<Longrightarrow> m \<le> n \<Longrightarrow> take m a = take m b"
  by (metis min.absorb1 take_take)

lemma slice_eq_of_take_eq:
  "take (off + n) a = take (off + n) b \<Longrightarrow> take n (drop off a) = take n (drop off b)"
  by (metis take_drop add.commute)

section \<open>C strings\<close>

abbreviation NUL :: char where "NUL \<equiv> CHR 0x00"

text \<open>The C string that starts an array: the bytes before the first NUL.\<close>

definition c_string :: "string \<Rightarrow> string" where
  "c_string s = takeWhile (\<lambda>c. c \<noteq> NUL) s"

text \<open>
  The bytes \<open>strncpy (dst, src, n)\<close> writes: the string up to its terminator, cut at \<open>n\<close>
  bytes or padded with NUL to \<open>n\<close> bytes. A source string is the list of its bytes, its
  terminator understood.
\<close>

definition strncpy_bytes :: "string \<Rightarrow> nat \<Rightarrow> string" where
  "strncpy_bytes src n = take n (c_string src @ replicate n NUL)"

lemma length_strncpy_bytes [simp, c_length]: "length (strncpy_bytes src n) = n"
  by (simp add: strncpy_bytes_def)

lemma c_string_id: "NUL \<notin> set s \<Longrightarrow> c_string s = s"
  by (auto simp: c_string_def takeWhile_eq_all_conv)

lemma strncpy_bytes_exact [simp]: "NUL \<notin> set src \<Longrightarrow> strncpy_bytes src (length src) = src"
  by (simp add: strncpy_bytes_def c_string_id)

lemma c_string_append_NUL: "NUL \<notin> set s \<Longrightarrow> c_string (s @ NUL # t) = s"
  by (induction s) (auto simp: c_string_def)

section \<open>Little-endian integers in memory\<close>

type_synonym byte = "8 word"

text \<open>The bytes of a string.\<close>

definition ascii :: "string \<Rightarrow> byte list" where
  "ascii s = map of_char s"

primrec le_enc :: "nat \<Rightarrow> nat \<Rightarrow> byte list" where
  "le_enc 0 x = []"
| "le_enc (Suc n) x = word_of_nat x # le_enc n (x div 256)"

primrec le_dec :: "byte list \<Rightarrow> nat" where
  "le_dec [] = 0"
| "le_dec (b # bs) = unat b + 256 * le_dec bs"

lemma length_le_enc [simp, c_length]: "length (le_enc n x) = n"
  by (induction n arbitrary: x) auto

lemma le_dec_enc: "x < 256 ^ n \<Longrightarrow> le_dec (le_enc n x) = x"
proof (induction n arbitrary: x)
  case 0
  then show ?case by simp
next
  case (Suc n)
  have "x div 256 < 256 ^ n"
    using Suc.prems by (simp add: less_mult_imp_div_less mult.commute)
  then have "le_dec (le_enc n (x div 256)) = x div 256" by (rule Suc.IH)
  then show ?case by (simp add: unat_word_ariths unat_of_nat)
qed

section \<open>Machine integers of the platform\<close>

text \<open>
  The sources are built for a 64-bit Unix ABI: \<open>int\<close> has 32 bits, \<open>size_t\<close> and pointers have
  64. Values are kept as mathematical integers and wrapped where C converts or overflows.
\<close>

definition c_int :: "int \<Rightarrow> int" where
  "c_int x = signed_take_bit 31 x"

definition c_size :: "int \<Rightarrow> int" where
  "c_size x = x mod 2 ^ 64"

lemma c_int_id [simp]: "- (2 ^ 31) \<le> x \<Longrightarrow> x < 2 ^ 31 \<Longrightarrow> c_int x = x"
  by (simp add: c_int_def signed_take_bit_int_eq_self)

lemma c_size_id [simp]: "0 \<le> x \<Longrightarrow> x < 2 ^ 64 \<Longrightarrow> c_size x = x"
  by (simp add: c_size_def)

section \<open>Shared interfaces\<close>

subsection \<open>A transition system and its invariant\<close>

locale step_system =
  fixes init :: "'s \<Rightarrow> bool"
    and step :: "'s \<Rightarrow> 's \<Rightarrow> bool"
    and inv :: "'s \<Rightarrow> bool"
  assumes inv_init: "init s \<Longrightarrow> inv s"
    and inv_step: "inv s \<Longrightarrow> step s t \<Longrightarrow> inv t"
begin

lemma inv_run: "step\<^sup>*\<^sup>* s t \<Longrightarrow> inv s \<Longrightarrow> inv t"
  by (induction rule: rtranclp_induct) (auto intro: inv_step)

lemma inv_reachable: "init s \<Longrightarrow> step\<^sup>*\<^sup>* s t \<Longrightarrow> inv t"
  by (blast intro: inv_run inv_init)

end

subsection \<open>A FIFO queue\<close>

locale fifo =
  fixes wf :: "'q \<Rightarrow> bool"
    and elems :: "'q \<Rightarrow> 'a list"
    and enq :: "'q \<Rightarrow> 'a \<Rightarrow> 'q"
    and deq :: "'q \<Rightarrow> 'a option \<times> 'q"
    and fits :: "'q \<Rightarrow> 'a \<Rightarrow> bool"
  assumes wf_enq: "wf q \<Longrightarrow> fits q x \<Longrightarrow> wf (enq q x)"
    and elems_enq: "wf q \<Longrightarrow> fits q x \<Longrightarrow> elems (enq q x) = elems q @ [x]"
    and wf_deq: "wf q \<Longrightarrow> wf (snd (deq q))"
    and deq_Nil: "wf q \<Longrightarrow> elems q = [] \<Longrightarrow> deq q = (None, q)"
    and deq_Cons: "wf q \<Longrightarrow> elems q = x # xs \<Longrightarrow> fst (deq q) = Some x \<and> elems (snd (deq q)) = xs"
begin

primrec drain :: "nat \<Rightarrow> 'q \<Rightarrow> 'a list \<times> 'q" where
  "drain 0 q = ([], q)"
| "drain (Suc n) q =
     (case deq q of (None, q') \<Rightarrow> ([], q') | (Some x, q') \<Rightarrow>
        (case drain n q' of (xs, q'') \<Rightarrow> (x # xs, q'')))"

lemma drain_all:
  "wf q \<Longrightarrow> length (elems q) \<le> n \<Longrightarrow>
   fst (drain n q) = elems q \<and> wf (snd (drain n q)) \<and> elems (snd (drain n q)) = []"
proof (induction n arbitrary: q)
  case 0
  then show ?case by simp
next
  case (Suc n)
  show ?case
  proof (cases "elems q")
    case Nil
    with Suc.prems(1) show ?thesis by (simp add: deq_Nil)
  next
    case (Cons x xs)
    with Suc.prems(1) obtain q' where q': "deq q = (Some x, q')" "elems q' = xs"
      by (metis deq_Cons prod.collapse)
    with wf_deq [OF Suc.prems(1)] have wf': "wf q'" by simp
    from Suc.prems(2) Cons q'(2) have "length (elems q') \<le> n" by simp
    with wf' have "fst (drain n q') = elems q' \<and> wf (snd (drain n q')) \<and> elems (snd (drain n q')) = []"
      by (rule Suc.IH)
    with q' Cons show ?thesis by (cases "drain n q'") simp
  qed
qed

lemma enq_then_deq:
  "wf q \<Longrightarrow> fits q x \<Longrightarrow> elems q = [] \<Longrightarrow> fst (deq (enq q x)) = Some x"
  using deq_Cons [of "enq q x" x "[]"] by (simp add: wf_enq elems_enq)

lemma enq_keeps_front:
  "wf q \<Longrightarrow> fits q x \<Longrightarrow> elems q = y # ys \<Longrightarrow>
   fst (deq (enq q x)) = Some y \<and> elems (snd (deq (enq q x))) = ys @ [x]"
  using deq_Cons [of "enq q x" y "ys @ [x]"] by (simp add: wf_enq elems_enq)

end

subsection \<open>A byte sink\<close>

text \<open>
  A consumer that is handed data in pieces. The law is that it appends; the lemma is that the
  way the data is cut into pieces does not matter.
\<close>

locale sink =
  fixes feed :: "'s \<Rightarrow> 'd list \<Rightarrow> 's"
    and collected :: "'s \<Rightarrow> 'd list"
    and clean :: "'d list \<Rightarrow> bool"
    and good :: "'s \<Rightarrow> bool"
  assumes collected_feed: "good s \<Longrightarrow> clean d \<Longrightarrow> collected (feed s d) = collected s @ d"
    and good_feed: "good s \<Longrightarrow> clean d \<Longrightarrow> good (feed s d)"
begin

lemma collected_fold:
  "good s \<Longrightarrow> list_all clean ds \<Longrightarrow> collected (fold (\<lambda>d s. feed s d) ds s) = collected s @ concat ds"
  by (induction ds arbitrary: s) (auto simp: collected_feed good_feed)

end

end
