(* ===== verification/Linked_List.thy ===== *)
theory Linked_List
  imports Prelude
begin

text \<open>
  Singly linked lists of C structs: \<open>nxt\<close> maps the address of an allocated node to its
  \<open>next\<close> field (NULL is \<open>None\<close>); a freed address is not in its domain.
\<close>

type_synonym ptr = nat

fun chain :: "(ptr \<Rightarrow> ptr option option) \<Rightarrow> ptr option \<Rightarrow> ptr list \<Rightarrow> bool" where
  "chain nxt p [] \<longleftrightarrow> p = None"
| "chain nxt p (x # xs) \<longleftrightarrow> p = Some x \<and> (\<exists>q. nxt x = Some q \<and> chain nxt q xs)"

text \<open>The addresses met when following \<open>next\<close> at most \<open>n\<close> times.\<close>

fun walk :: "nat \<Rightarrow> (ptr \<Rightarrow> ptr option option) \<Rightarrow> ptr option \<Rightarrow> ptr list" where
  "walk 0 nxt p = []"
| "walk (Suc n) nxt None = []"
| "walk (Suc n) nxt (Some x) =
     (case nxt x of None \<Rightarrow> [] | Some q \<Rightarrow> x # walk n nxt q)"

lemma walk_None [simp]: "walk n nxt None = []"
  by (cases n) auto

lemma walk_chain: "chain nxt p xs \<Longrightarrow> length xs \<le> n \<Longrightarrow> walk n nxt p = xs"
proof (induction xs arbitrary: n p)
  case (Cons x xs)
  then show ?case by (cases n) auto
qed simp

lemma chain_unique: "chain nxt p xs \<Longrightarrow> chain nxt p ys \<Longrightarrow> xs = ys"
proof (induction xs arbitrary: p ys)
  case Nil
  then show ?case by (cases ys) auto
next
  case (Cons x xs)
  then show ?case by (cases ys) auto
qed

lemma chain_upd: "chain nxt p xs \<Longrightarrow> y \<notin> set xs \<Longrightarrow> chain (nxt(y := v)) p xs"
  by (induction xs arbitrary: p) auto

lemma chain_cong: "chain nxt p xs \<Longrightarrow> (\<And>x. x \<in> set xs \<Longrightarrow> nxt' x = nxt x) \<Longrightarrow> chain nxt' p xs"
  by (induction xs arbitrary: p) auto

lemma chain_allocated: "chain nxt p xs \<Longrightarrow> x \<in> set xs \<Longrightarrow> nxt x \<noteq> None"
  by (induction xs arbitrary: p) auto

text \<open>Linking a new last node after the old last one.\<close>

lemma chain_snoc:
  assumes "chain nxt p xs" and "distinct xs" and "xs \<noteq> []" and "y \<notin> set xs" and "nxt y = Some None"
  shows "chain (nxt(last xs := Some (Some y))) p (xs @ [y])"
  using assms
proof (induction xs arbitrary: p)
  case (Cons x xs)
  show ?case
  proof (cases "xs = []")
    case True
    with Cons.prems show ?thesis by auto
  next
    case False
    from Cons.prems obtain q where q: "p = Some x" "nxt x = Some q" "chain nxt q xs" by auto
    from False Cons.prems have "x \<noteq> last xs" using last_in_set by fastforce
    with Cons.IH [OF q(3)] Cons.prems False q show ?thesis by auto
  qed
qed simp

end
