(* ===== verification/Task_Queue.thy ===== *)
theory Task_Queue
  imports Linked_List
begin

text \<open>
  \<^verbatim>\<open>src/blocks/process.c\<close>, first part: tasks, the pool's queue of tasks (\<open>push_task\<close>,
  \<open>pop_task\<close>), the notification of a task (\<open>process_notify_task\<close>) and the pool's list of worker
  threads (\<open>threadpool_init\<close>, \<open>threadpool_extend\<close>). The cells of the task queue are only
  reached from \<open>pool->task_queue\<close>, so the list of cells is a HOL list; the thread list has a
  second pointer to its end and is modelled with addresses. The queue is kept in the world of the
  theory \<open>Mailbox\<close>, beside the tasks, and is not repeated in \<open>thread_pool\<close>. The program has one thread pool,
  so the \<open>pool\<close> pointer of a task is left out. Locking is left to the theory \<open>Scheduler\<close>.
\<close>

section \<open>Data\<close>

datatype task_state = TASK_IDLE | TASK_INIT | TASK_WAITING | TASK_PROCESSING | TASK_DEAD

text \<open>
  A Lua state as the program uses it: the interpreter state and the registry entries under the
  three light-userdata keys of \<^verbatim>\<open>mailbox.c\<close>.
\<close>

record 'L lua_state =
  vm :: 'L
  mailbox_key :: "ptr option"
  parent_mailbox_key :: "ptr option"
  current_message_key :: "ptr option option"

record 'L task =
  task_L :: "'L lua_state"
  is_loaded :: bool
  task_state :: task_state

record thread_list_item =
  thread :: nat
  thread_next :: "ptr option"

record thread_pool =
  head :: "ptr option"
  tail :: "ptr option"
  items :: "ptr \<Rightarrow> thread_list_item option"
  started :: "nat list"

section \<open>The task queue\<close>

fun pop_task :: "ptr list \<Rightarrow> ptr option \<times> ptr list" where
  "pop_task [] = (None, [])"
| "pop_task (t # q) = (Some t, q)"

text \<open>\<open>push_task\<close> walks to the cell whose \<open>next\<close> is NULL and links the new cell there.\<close>

fun push_walk :: "ptr \<Rightarrow> ptr list \<Rightarrow> ptr \<Rightarrow> ptr list" where
  "push_walk h [] new_item = [h, new_item]"
| "push_walk h (n # q) new_item = h # push_walk n q new_item"

fun push_task :: "ptr list \<Rightarrow> ptr \<Rightarrow> ptr list" where
  "push_task [] t = [t]"
| "push_task (h # q) t = push_walk h q t"

lemma push_walk_eq [simp]: "push_walk h q t = h # q @ [t]"
  by (induction h q t rule: push_walk.induct) auto

lemma push_task_eq: "push_task q t = q @ [t]"
  by (cases q) auto

interpretation taskq: fifo "\<lambda>_. True" "\<lambda>q. q" push_task pop_task "\<lambda>_ _. True"
  by unfold_locales (auto simp: push_task_eq)

section \<open>Notification\<close>

text \<open>
  \<open>process_notify_task\<close> on the tasks and the queue: a task that is not allocated is accessed
  after it was freed.
\<close>

definition process_notify_task ::
    "(ptr \<Rightarrow> 'L task option) \<Rightarrow> ptr list \<Rightarrow> ptr \<Rightarrow> ((ptr \<Rightarrow> 'L task option) \<times> ptr list) res" where
  "process_notify_task tasks queue t =
     (case tasks t of
        None \<Rightarrow> Inl Use_After_Free
      | Some task \<Rightarrow>
          if task_state task = TASK_IDLE then
            Inr (tasks(t \<mapsto> task\<lparr>task_state := TASK_WAITING\<rparr>), push_task queue t)
          else Inr (tasks, queue))"

lemma process_notify_task_idle:
  "tasks t = Some task \<Longrightarrow> task_state task = TASK_IDLE \<Longrightarrow>
   process_notify_task tasks queue t = Inr (tasks(t \<mapsto> task\<lparr>task_state := TASK_WAITING\<rparr>), queue @ [t])"
  by (simp add: process_notify_task_def push_task_eq)

lemma process_notify_task_busy:
  "tasks t = Some task \<Longrightarrow> task_state task \<noteq> TASK_IDLE \<Longrightarrow> process_notify_task tasks queue t = Inr (tasks, queue)"
  by (simp add: process_notify_task_def)

section \<open>The list of threads\<close>

text \<open>
  One round of the loop in \<open>threadpool_extend\<close>: \<open>a\<close> is the address malloc gave to the new item,
  \<open>th\<close> the new thread. \<open>prev_thread\<close> is the local variable of the loop.
\<close>

definition extend_step :: "thread_pool \<times> ptr option \<Rightarrow> ptr \<times> nat \<Rightarrow> (thread_pool \<times> ptr option) res" where
  "extend_step = (\<lambda>(pool, prev_thread) (a, th).
     let item = \<lparr>thread = th, thread_next = None\<rparr>;
         pool1 = pool\<lparr>items := (items pool)(a \<mapsto> item)\<rparr>
     in bind_res
          (if head pool1 = None then Inr (pool1\<lparr>head := Some a\<rparr>)
           else
             (case prev_thread of
                None \<Rightarrow> Inl Null_Deref
              | Some p \<Rightarrow>
                  (case items pool1 p of
                     None \<Rightarrow> Inl Use_After_Free
                   | Some prev \<Rightarrow>
                       Inr (pool1\<lparr>items := (items pool1)(p \<mapsto> prev\<lparr>thread_next := Some a\<rparr>)\<rparr>))))
          (\<lambda>pool2. Inr (pool2\<lparr>started := started pool2 @ [th]\<rparr>, Some a)))"

fun extend_loop :: "thread_pool \<times> ptr option \<Rightarrow> (ptr \<times> nat) list \<Rightarrow> (thread_pool \<times> ptr option) res" where
  "extend_loop s [] = Inr s"
| "extend_loop s (n # ns) = bind_res (extend_step s n) (\<lambda>s'. extend_loop s' ns)"

text \<open>
  \<open>news\<close> is what malloc and \<open>pthread_create\<close> return in the \<open>size\<close> rounds; a negative \<open>size\<close> runs
  none.
\<close>

definition threadpool_extend :: "thread_pool \<Rightarrow> int \<Rightarrow> (nat \<Rightarrow> ptr \<times> nat) \<Rightarrow> thread_pool res" where
  "threadpool_extend pool sz news =
     bind_res (extend_loop (pool, tail pool) (map news [0..<nat sz])) (\<lambda>(pool', prev_thread).
       Inr (pool'\<lparr>tail := prev_thread\<rparr>))"

definition threadpool_init :: "int \<Rightarrow> (nat \<Rightarrow> ptr \<times> nat) \<Rightarrow> thread_pool res" where
  "threadpool_init sz news =
     threadpool_extend \<lparr>head = None, tail = None, items = Map.empty, started = []\<rparr> sz news"

definition thread_nxt :: "thread_pool \<Rightarrow> ptr \<Rightarrow> ptr option option" where
  "thread_nxt pool a = map_option thread_next (items pool a)"

text \<open>The invariant of the list: \<open>head\<close> starts a chain of all items, \<open>tail\<close> is its last item, and
  the threads in chain order are those started.\<close>

definition threads_ok :: "thread_pool \<Rightarrow> ptr option \<Rightarrow> ptr list \<Rightarrow> bool" where
  "threads_ok pool last_item xs \<longleftrightarrow>
     chain (thread_nxt pool) (head pool) xs \<and> distinct xs \<and> set xs = dom (items pool) \<and>
     last_item = (if xs = [] then None else Some (last xs)) \<and>
     map (\<lambda>a. map_option thread (items pool a)) xs = map Some (started pool)"

lemma thread_nxt_upd:
  "thread_nxt (pool\<lparr>items := (items pool)(a \<mapsto> i)\<rparr>) = (thread_nxt pool)(a := Some (thread_next i))"
  by (auto simp: thread_nxt_def)


lemma thread_nxt_tail [simp]: "thread_nxt (pool\<lparr>tail := t\<rparr>) = thread_nxt pool"
  by (simp add: thread_nxt_def fun_eq_iff)

lemma extend_step_ok:
  assumes ok: "threads_ok pool prev xs" and fresh: "items pool a = None"
  shows "\<exists>pool'. extend_step (pool, prev) (a, th) = Inr (pool', Some a) \<and> threads_ok pool' (Some a) (xs @ [a])
     \<and> started pool' = started pool @ [th] \<and> dom (items pool') = insert a (dom (items pool))"
proof (cases "xs = []")
  case True
  with ok fresh show ?thesis
    by (auto simp: extend_step_def threads_ok_def Let_def thread_nxt_def)
next
  case False
  let ?l = "last xs"
  let ?p1 = "pool\<lparr>items := (items pool)(a \<mapsto> \<lparr>thread = th, thread_next = None\<rparr>)\<rparr>"
  from ok False have prev: "prev = Some ?l" and dist: "distinct xs" and dom: "set xs = dom (items pool)"
    and ch: "chain (thread_nxt pool) (head pool) xs"
    and thr: "map (\<lambda>a. map_option thread (items pool a)) xs = map Some (started pool)"
    by (auto simp: threads_ok_def)
  have notin: "a \<notin> set xs" using fresh dom by auto
  have hd: "head pool \<noteq> None" using ch False by (cases xs) auto
  have "?l \<in> set xs" using False by simp
  then obtain i where i: "items pool ?l = Some i" using dom by auto
  have la: "?l \<noteq> a" using notin False last_in_set by metis
  define pool' where "pool' = ?p1\<lparr>items := (items ?p1)(?l \<mapsto> i\<lparr>thread_next := Some a\<rparr>), started := started pool @ [th]\<rparr>"
  have run: "extend_step (pool, prev) (a, th) = Inr (pool', Some a)"
    using hd prev i la by (auto simp: extend_step_def Let_def pool'_def)
  have nx: "thread_nxt pool' = ((thread_nxt pool)(a := Some None))(?l := Some (Some a))"
    by (auto simp: pool'_def thread_nxt_def)
  have "chain ((thread_nxt pool)(a := Some None)) (head pool) xs" using chain_upd [OF ch notin] .
  from chain_snoc [OF this dist False notin] have "chain (thread_nxt pool') (head pool') (xs @ [a])"
    by (simp add: nx) (simp add: pool'_def)
  moreover have "map (\<lambda>b. map_option thread (items pool' b)) (xs @ [a]) = map Some (started pool')"
  proof -
    have "map (\<lambda>b. map_option thread (items pool' b)) xs = map (\<lambda>b. map_option thread (items pool b)) xs"
      using notin i by (auto simp: pool'_def)
    with thr la show ?thesis by (simp add: pool'_def)
  qed
  moreover have "set (xs @ [a]) = dom (items pool')"
    using dom i by (auto simp: pool'_def)
  ultimately have "threads_ok pool' (Some a) (xs @ [a])"
    using dist notin by (simp add: threads_ok_def)
  with run dom i show ?thesis by (auto simp: pool'_def)
qed

lemma extend_loop_ok:
  assumes "threads_ok pool prev xs" and "distinct (map fst ns)" and "\<And>n. n \<in> set ns \<Longrightarrow> items pool (fst n) = None"
  shows "\<exists>pool' prev' ys. extend_loop (pool, prev) ns = Inr (pool', prev') \<and> threads_ok pool' prev' ys \<and>
     length ys = length xs + length ns \<and> started pool' = started pool @ map snd ns"
  using assms
proof (induction ns arbitrary: pool prev xs)
  case Nil
  then show ?case by auto
next
  case (Cons n ns)
  obtain a th where n: "n = (a, th)" by (cases n)
  have "items pool a = None" using Cons.prems(3) [of n] n by simp
  from extend_step_ok [OF Cons.prems(1) this, of th] obtain pool1 where p1:
    "extend_step (pool, prev) (a, th) = Inr (pool1, Some a)" "threads_ok pool1 (Some a) (xs @ [a])"
    "started pool1 = started pool @ [th]"
    "dom (items pool1) = insert a (dom (items pool))" by blast
  have "items pool1 (fst m) = None" if "m \<in> set ns" for m
    using Cons.prems(2,3) that n p1(4) by (metis domIff insert_iff list.set_intros(2) distinct.simps(2) list.simps(9) fst_conv image_eqI set_map)
  with Cons.IH [OF p1(2)] Cons.prems(2) n obtain pool' prev' ys where
    "extend_loop (pool1, Some a) ns = Inr (pool', prev')" "threads_ok pool' prev' ys"
    "length ys = length (xs @ [a]) + length ns" "started pool' = started pool1 @ map snd ns" by auto
  with p1 n show ?case by auto
qed

lemma threadpool_extend_spec:
  assumes "threads_ok pool (tail pool) xs" and "inj_on (\<lambda>k. fst (news k)) {0..<nat sz}"
    and "\<And>k. k < nat sz \<Longrightarrow> items pool (fst (news k)) = None"
  shows "\<exists>pool' ys. threadpool_extend pool sz news = Inr pool' \<and> threads_ok pool' (tail pool') ys \<and>
     length ys = length xs + nat sz \<and> started pool' = started pool @ map (\<lambda>k. snd (news k)) [0..<nat sz]"
proof -
  have "distinct (map fst (map news [0..<nat sz]))"
    using assms(2) by (simp add: distinct_map comp_def)
  moreover have "items pool (fst n) = None" if "n \<in> set (map news [0..<nat sz])" for n
    using that assms(3) by auto
  ultimately obtain pool1 prev1 ys where
    "extend_loop (pool, tail pool) (map news [0..<nat sz]) = Inr (pool1, prev1)"
    "threads_ok pool1 prev1 ys" "length ys = length xs + nat sz"
    "started pool1 = started pool @ map snd (map news [0..<nat sz])"
    using extend_loop_ok [OF assms(1), of "map news [0..<nat sz]"] by (metis diff_zero length_map length_upt)
  then show ?thesis
    by (intro exI [of _ "pool1\<lparr>tail := prev1\<rparr>"] exI [of _ ys])
       (auto simp: threadpool_extend_def threads_ok_def comp_def)
qed

lemma threadpool_init_spec:
  assumes "inj_on (\<lambda>k. fst (news k)) {0..<nat sz}"
  shows "\<exists>pool ys. threadpool_init sz news = Inr pool \<and> threads_ok pool (tail pool) ys \<and>
     length (started pool) = nat sz"
proof -
  let ?p = "\<lparr>head = None, tail = None, items = Map.empty, started = []\<rparr>"
  have "threads_ok ?p (tail ?p) []" by (simp add: threads_ok_def)
  from threadpool_extend_spec [OF this assms] show ?thesis by (auto simp: threadpool_init_def)
qed

section \<open>Properties\<close>

text \<open>Extending the thread pool keeps its linked list of threads well formed and adds exactly
  the requested number of workers: one new item and one started thread per round, in order, with
  the end pointer on the last item.\<close>

theorem threadpool_extend_ok:
  assumes "threads_ok pool (tail pool) xs" and "inj_on (\<lambda>k. fst (news k)) {0..<nat sz}"
    and "\<And>k. k < nat sz \<Longrightarrow> items pool (fst (news k)) = None"
  shows "\<exists>pool' ys. threadpool_extend pool sz news = Inr pool' \<and> threads_ok pool' (tail pool') ys \<and>
     length ys = length xs + nat sz \<and> started pool' = started pool @ map (\<lambda>k. snd (news k)) [0..<nat sz]"
  using assms by (rule threadpool_extend_spec)

theorem threadpool_extend_ok_witness:
  "\<exists>pool' ys. threadpool_extend \<lparr>head = None, tail = None, items = Map.empty, started = []\<rparr> 5
       (\<lambda>k. (100 + k, k)) = Inr pool' \<and> threads_ok pool' (tail pool') ys \<and>
     length ys = 5 \<and> started pool' = [0, 1, 2, 3, 4]"
proof -
  let ?pool = "\<lparr>head = None, tail = None, items = Map.empty, started = []\<rparr>"
  have "threads_ok ?pool (tail ?pool) []" by (simp add: threads_ok_def)
  from threadpool_extend_ok [OF this, of "\<lambda>k. (100 + k, k)" 5] show ?thesis
    by (auto simp: inj_on_def upt_rec)
qed

end
