(* ===== verification/Lua_Api.thy ===== *)
theory Lua_Api
  imports Prelude
begin

text \<open>
  The Lua 5.2 C API is not part of the repository (the interpreter is a separate package), so
  it is a parameter: a record of the API functions the sources call, over an unknown type
  \<open>'L\<close> of interpreter states. What the sources rely on is the predicate \<open>lua_laws\<close>: the
  documented effect of each function on the stack of values of a state. \<open>list_api\<close> is a
  concrete instance that satisfies the laws.
\<close>

section \<open>Values and types at the API boundary\<close>

datatype lua_type =
    LUA_TNONE | LUA_TNIL | LUA_TBOOLEAN | LUA_TLIGHTUSERDATA | LUA_TNUMBER
  | LUA_TSTRING | LUA_TTABLE | LUA_TFUNCTION | LUA_TUSERDATA | LUA_TTHREAD

datatype lua_status =
    LUA_OK | LUA_ERRRUN | LUA_ERRSYNTAX | LUA_ERRMEM | LUA_ERRGCMM | LUA_ERRERR | LUA_OTHER

text \<open>
  A number is the bit pattern of its \<open>lua_Number\<close> (a C double), a pointer is a 64-bit word,
  a table carries its border (what \<open>lua_rawlen\<close> reports), a userdata the size of its block.
\<close>

type_synonym addr = "64 word"

datatype lua_value =
    VNil
  | VBool bool
  | VLight addr
  | VNum "64 word"
  | VStr "byte list"
  | VTable nat nat
  | VFun nat
  | VUser addr nat
  | VThread nat

fun type_of_value :: "lua_value \<Rightarrow> lua_type" where
  "type_of_value VNil = LUA_TNIL"
| "type_of_value (VBool b) = LUA_TBOOLEAN"
| "type_of_value (VLight p) = LUA_TLIGHTUSERDATA"
| "type_of_value (VNum n) = LUA_TNUMBER"
| "type_of_value (VStr s) = LUA_TSTRING"
| "type_of_value (VTable t n) = LUA_TTABLE"
| "type_of_value (VFun f) = LUA_TFUNCTION"
| "type_of_value (VUser p n) = LUA_TUSERDATA"
| "type_of_value (VThread t) = LUA_TTHREAD"

fun rawlen_of_value :: "lua_value \<Rightarrow> nat" where
  "rawlen_of_value (VStr s) = length s"
| "rawlen_of_value (VTable t n) = n"
| "rawlen_of_value (VUser p n) = n"
| "rawlen_of_value _ = 0"

text \<open>A stack slot by index: positive from the bottom, negative from the top.\<close>

definition slot :: "lua_value list \<Rightarrow> int \<Rightarrow> lua_value option" where
  "slot st i =
     (if 1 \<le> i \<and> i \<le> int (length st) then Some (st ! nat (i - 1))
      else if - int (length st) \<le> i \<and> i \<le> - 1 then Some (st ! nat (int (length st) + i))
      else None)"

section \<open>The functions of the API\<close>

record 'L lua_api =
  lua_gettop :: "'L \<Rightarrow> int"
  lua_settop :: "'L \<Rightarrow> int \<Rightarrow> 'L"
  lua_type :: "'L \<Rightarrow> int \<Rightarrow> lua_type"
  lua_rawlen :: "'L \<Rightarrow> int \<Rightarrow> int"
  lua_toboolean :: "'L \<Rightarrow> int \<Rightarrow> bool"
  lua_tonumber :: "'L \<Rightarrow> int \<Rightarrow> 64 word"
  lua_touserdata :: "'L \<Rightarrow> int \<Rightarrow> addr"
  lua_tolstring :: "'L \<Rightarrow> int \<Rightarrow> byte list option"
  lua_pushnil :: "'L \<Rightarrow> 'L"
  lua_pushboolean :: "'L \<Rightarrow> bool \<Rightarrow> 'L"
  lua_pushnumber :: "'L \<Rightarrow> 64 word \<Rightarrow> 'L"
  lua_pushlstring :: "'L \<Rightarrow> byte list \<Rightarrow> 'L"
  lua_pushlightuserdata :: "'L \<Rightarrow> addr \<Rightarrow> 'L"
  lua_pushcfunction :: "'L \<Rightarrow> nat \<Rightarrow> 'L"
  lua_pushvalue :: "'L \<Rightarrow> int \<Rightarrow> 'L"
  lua_insert :: "'L \<Rightarrow> int \<Rightarrow> 'L"
  lua_remove :: "'L \<Rightarrow> int \<Rightarrow> 'L"
  lua_replace :: "'L \<Rightarrow> int \<Rightarrow> 'L"
  lua_pcall :: "'L \<Rightarrow> int \<Rightarrow> int \<Rightarrow> int \<Rightarrow> 'L \<times> lua_status"

text \<open>The macros of \<^verbatim>\<open>lua.h\<close> that the sources use.\<close>

definition LUA_MULTRET :: int where
  "LUA_MULTRET = -1"

definition lua_isfunction :: "'L lua_api \<Rightarrow> 'L \<Rightarrow> int \<Rightarrow> bool" where
  "lua_isfunction A L i \<longleftrightarrow> lua_type A L i = LUA_TFUNCTION"

definition lua_pop :: "'L lua_api \<Rightarrow> 'L \<Rightarrow> int \<Rightarrow> 'L" where
  "lua_pop A L n = lua_settop A L (- n - 1)"

section \<open>The documented laws\<close>

definition query_laws :: "'L lua_api \<Rightarrow> ('L \<Rightarrow> lua_value list) \<Rightarrow> bool" where
  "query_laws A stk \<longleftrightarrow>
     (\<forall>L. lua_gettop A L = int (length (stk L))) \<and>
     (\<forall>L i. slot (stk L) i = None \<longrightarrow> lua_type A L i = LUA_TNONE) \<and>
     (\<forall>L i v. slot (stk L) i = Some v \<longrightarrow> lua_type A L i = type_of_value v) \<and>
     (\<forall>L i v. slot (stk L) i = Some v \<longrightarrow> lua_rawlen A L i = int (rawlen_of_value v)) \<and>
     (\<forall>L i b. slot (stk L) i = Some (VBool b) \<longrightarrow> lua_toboolean A L i = b) \<and>
     (\<forall>L i n. slot (stk L) i = Some (VNum n) \<longrightarrow> lua_tonumber A L i = n) \<and>
     (\<forall>L i p. slot (stk L) i = Some (VLight p) \<longrightarrow> lua_touserdata A L i = p) \<and>
     (\<forall>L i p n. slot (stk L) i = Some (VUser p n) \<longrightarrow> lua_touserdata A L i = p) \<and>
     (\<forall>L i s. slot (stk L) i = Some (VStr s) \<longrightarrow> lua_tolstring A L i = Some s) \<and>
     (\<forall>L i v. slot (stk L) i = Some v \<and> type_of_value v \<noteq> LUA_TSTRING \<and> type_of_value v \<noteq> LUA_TNUMBER \<longrightarrow>
        lua_tolstring A L i = None)"

text \<open>
  The laws of the pushes describe a stack with room for what is pushed. The manual guarantees only
  \<open>LUA_MINSTACK\<close> (20) free slots on entry to a C function, and the sources push in loops without
  \<open>lua_checkstack\<close>: what follows from the laws is what the code does as long as the stack has room.
\<close>

definition push_laws :: "'L lua_api \<Rightarrow> ('L \<Rightarrow> lua_value list) \<Rightarrow> bool" where
  "push_laws A stk \<longleftrightarrow>
     (\<forall>L. stk (lua_pushnil A L) = stk L @ [VNil]) \<and>
     (\<forall>L b. stk (lua_pushboolean A L b) = stk L @ [VBool b]) \<and>
     (\<forall>L n. stk (lua_pushnumber A L n) = stk L @ [VNum n]) \<and>
     (\<forall>L s. stk (lua_pushlstring A L s) = stk L @ [VStr s]) \<and>
     (\<forall>L p. stk (lua_pushlightuserdata A L p) = stk L @ [VLight p]) \<and>
     (\<forall>L f. stk (lua_pushcfunction A L f) = stk L @ [VFun f]) \<and>
     (\<forall>L i v. slot (stk L) i = Some v \<longrightarrow> stk (lua_pushvalue A L i) = stk L @ [v])"

text \<open>
  Rearranging the stack, for the positive indices the sources pass: \<open>lua_insert\<close> moves the top
  under a slot, \<open>lua_remove\<close> takes a slot out, \<open>lua_replace\<close> moves the top into a slot.
\<close>

definition move_laws :: "'L lua_api \<Rightarrow> ('L \<Rightarrow> lua_value list) \<Rightarrow> bool" where
  "move_laws A stk \<longleftrightarrow>
     (\<forall>L n. 0 \<le> n \<and> n \<le> int (length (stk L)) \<longrightarrow> stk (lua_settop A L n) = take (nat n) (stk L)) \<and>
     (\<forall>L n. 0 \<le> n \<and> n \<le> int (length (stk L)) \<longrightarrow>
        stk (lua_settop A L (- n - 1)) = take (length (stk L) - nat n) (stk L)) \<and>
     (\<forall>L xs ys t. stk L = xs @ ys @ [t] \<longrightarrow> stk (lua_insert A L (int (length xs) + 1)) = xs @ t # ys) \<and>
     (\<forall>L xs ys t. stk L = xs @ t # ys \<longrightarrow> stk (lua_remove A L (int (length xs) + 1)) = xs @ ys) \<and>
     (\<forall>L xs ys y t. stk L = xs @ y # ys @ [t] \<longrightarrow> stk (lua_replace A L (int (length xs) + 1)) = xs @ t # ys)"

text \<open>
  A protected call consumes the function and its arguments; it leaves the results, or, with a
  status other than \<open>LUA_OK\<close>, one error value. What is below the function stays.
\<close>

definition call_laws :: "'L lua_api \<Rightarrow> ('L \<Rightarrow> lua_value list) \<Rightarrow> bool" where
  "call_laws A stk \<longleftrightarrow>
     (\<forall>L below f args nres h.
        stk L = below @ f # args \<and> (nres = LUA_MULTRET \<or> 0 \<le> nres) \<longrightarrow>
        (case lua_pcall A L (int (length args)) nres h of (L', ret) \<Rightarrow>
           (\<exists>rs. stk L' = below @ rs \<and>
              (ret = LUA_OK \<longrightarrow> nres = LUA_MULTRET \<or> int (length rs) = nres) \<and>
              (ret \<noteq> LUA_OK \<longrightarrow> length rs = 1))))"

definition lua_laws :: "'L lua_api \<Rightarrow> ('L \<Rightarrow> lua_value list) \<Rightarrow> bool" where
  "lua_laws A stk \<longleftrightarrow> query_laws A stk \<and> push_laws A stk \<and> move_laws A stk \<and> call_laws A stk"

section \<open>Using the laws\<close>

lemma slot_first: "slot (v # st) 1 = Some v"
  by (simp add: slot_def)

lemma slot_nth: "k < length st \<Longrightarrow> slot st (int k + 1) = Some (st ! k)"
  by (simp add: slot_def)

lemma slot_none_above: "int (length st) < i \<Longrightarrow> slot st i = None"
  by (simp add: slot_def)

lemma slot_mid: "slot (xs @ v # ys) (int (length xs) + 1) = Some v"
  using slot_nth [of "length xs" "xs @ v # ys"] by simp

lemma slot_top: "slot (xs @ [v]) (-1) = Some v"
  by (simp add: slot_def nat_diff_distrib' nth_append)

lemma lua_gettop_eq: "lua_laws A stk \<Longrightarrow> lua_gettop A L = int (length (stk L))"
  by (simp add: lua_laws_def query_laws_def)

lemma lua_type_eq: "lua_laws A stk \<Longrightarrow> slot (stk L) i = Some v \<Longrightarrow> lua_type A L i = type_of_value v"
  by (simp add: lua_laws_def query_laws_def)

lemma lua_type_none: "lua_laws A stk \<Longrightarrow> slot (stk L) i = None \<Longrightarrow> lua_type A L i = LUA_TNONE"
  by (simp add: lua_laws_def query_laws_def)

lemma lua_rawlen_eq: "lua_laws A stk \<Longrightarrow> slot (stk L) i = Some v \<Longrightarrow> lua_rawlen A L i = int (rawlen_of_value v)"
  by (simp add: lua_laws_def query_laws_def)

lemma lua_to_value:
  assumes "lua_laws A stk"
  shows "slot (stk L) i = Some (VBool b) \<Longrightarrow> lua_toboolean A L i = b"
    and "slot (stk L) i = Some (VNum n) \<Longrightarrow> lua_tonumber A L i = n"
    and "slot (stk L) i = Some (VLight p) \<Longrightarrow> lua_touserdata A L i = p"
    and "slot (stk L) i = Some (VUser p k) \<Longrightarrow> lua_touserdata A L i = p"
    and "slot (stk L) i = Some (VStr s) \<Longrightarrow> lua_tolstring A L i = Some s"
  using assms by (auto simp: lua_laws_def query_laws_def)

lemma lua_tolstring_other:
  "lua_laws A stk \<Longrightarrow> slot (stk L) i = Some v \<Longrightarrow> type_of_value v \<noteq> LUA_TSTRING \<Longrightarrow>
   type_of_value v \<noteq> LUA_TNUMBER \<Longrightarrow> lua_tolstring A L i = None"
  unfolding lua_laws_def query_laws_def by blast

lemma lua_push_eq:
  assumes "lua_laws A stk"
  shows "stk (lua_pushnil A L) = stk L @ [VNil]"
    and "stk (lua_pushboolean A L b) = stk L @ [VBool b]"
    and "stk (lua_pushnumber A L n) = stk L @ [VNum n]"
    and "stk (lua_pushlstring A L s) = stk L @ [VStr s]"
    and "stk (lua_pushlightuserdata A L p) = stk L @ [VLight p]"
    and "stk (lua_pushcfunction A L f) = stk L @ [VFun f]"
    and "slot (stk L) i = Some v \<Longrightarrow> stk (lua_pushvalue A L i) = stk L @ [v]"
  using assms by (auto simp: lua_laws_def push_laws_def)

lemma lua_settop_0: "lua_laws A stk \<Longrightarrow> stk (lua_settop A L 0) = []"
  by (auto simp: lua_laws_def move_laws_def)

lemma lua_insert_eq:
  "lua_laws A stk \<Longrightarrow> stk L = xs @ ys @ [t] \<Longrightarrow> stk (lua_insert A L (int (length xs) + 1)) = xs @ t # ys"
  by (simp add: lua_laws_def move_laws_def)

lemma lua_remove_eq:
  "lua_laws A stk \<Longrightarrow> stk L = xs @ t # ys \<Longrightarrow> stk (lua_remove A L (int (length xs) + 1)) = xs @ ys"
  by (simp add: lua_laws_def move_laws_def)

lemma lua_replace_eq:
  "lua_laws A stk \<Longrightarrow> stk L = xs @ y # ys @ [t] \<Longrightarrow> stk (lua_replace A L (int (length xs) + 1)) = xs @ t # ys"
  by (simp add: lua_laws_def move_laws_def)

lemma lua_pcall_eq:
  assumes laws: "lua_laws A stk" and st: "stk L = below @ f # args"
    and nres: "nres = LUA_MULTRET \<or> 0 \<le> nres"
    and call: "lua_pcall A L (int (length args)) nres h = (L', ret)"
  obtains rs where "stk L' = below @ rs"
    and "ret = LUA_OK \<Longrightarrow> nres = LUA_MULTRET \<or> int (length rs) = nres"
    and "ret \<noteq> LUA_OK \<Longrightarrow> length rs = 1"
proof -
  from laws have "call_laws A stk" by (simp add: lua_laws_def)
  from this [unfolded call_laws_def, rule_format, OF conjI, OF st nres, of h] call
  show thesis using that by auto
qed

section \<open>A concrete instance\<close>

text \<open>
  States are the stacks themselves; calling a value is a given function from the called value
  and its arguments to its results, or to an error value.
\<close>

definition adjust :: "int \<Rightarrow> lua_value list \<Rightarrow> lua_value list" where
  "adjust nres rs = (if nres < 0 then rs else take (nat nres) (rs @ replicate (nat nres) VNil))"

definition slot_or_nil :: "lua_value list \<Rightarrow> int \<Rightarrow> lua_value" where
  "slot_or_nil st i = (case slot st i of None \<Rightarrow> VNil | Some v \<Rightarrow> v)"

definition list_pcall ::
    "(lua_value \<Rightarrow> lua_value list \<Rightarrow> lua_value + lua_value list) \<Rightarrow> lua_value list \<Rightarrow> int \<Rightarrow> int \<Rightarrow> int \<Rightarrow>
     lua_value list \<times> lua_status" where
  "list_pcall call st narg nres h =
     (let k = length st - nat narg - 1 in
      case call (st ! k) (drop (k + 1) st) of
        Inl e \<Rightarrow> (take k st @ [e], LUA_ERRRUN)
      | Inr rs \<Rightarrow> (take k st @ adjust nres rs, LUA_OK))"

definition list_settop :: "lua_value list \<Rightarrow> int \<Rightarrow> lua_value list" where
  "list_settop st n =
     (if 0 \<le> n then take (nat n) st @ replicate (nat n - length st) VNil
      else take (length st - nat (- n - 1)) st)"

definition list_api :: "(lua_value \<Rightarrow> lua_value list \<Rightarrow> lua_value + lua_value list) \<Rightarrow> lua_value list lua_api" where
  "list_api call =
     \<lparr>lua_gettop = (\<lambda>st. int (length st)),
      lua_settop = list_settop,
      lua_type = (\<lambda>st i. case slot st i of None \<Rightarrow> LUA_TNONE | Some v \<Rightarrow> type_of_value v),
      lua_rawlen = (\<lambda>st i. int (rawlen_of_value (slot_or_nil st i))),
      lua_toboolean = (\<lambda>st i. case slot_or_nil st i of VNil \<Rightarrow> False | VBool b \<Rightarrow> b | _ \<Rightarrow> True),
      lua_tonumber = (\<lambda>st i. case slot_or_nil st i of VNum n \<Rightarrow> n | _ \<Rightarrow> 0),
      lua_touserdata = (\<lambda>st i. case slot_or_nil st i of VLight p \<Rightarrow> p | VUser p n \<Rightarrow> p | _ \<Rightarrow> 0),
      lua_tolstring = (\<lambda>st i. case slot_or_nil st i of VStr s \<Rightarrow> Some s | _ \<Rightarrow> None),
      lua_pushnil = (\<lambda>st. st @ [VNil]),
      lua_pushboolean = (\<lambda>st b. st @ [VBool b]),
      lua_pushnumber = (\<lambda>st n. st @ [VNum n]),
      lua_pushlstring = (\<lambda>st s. st @ [VStr s]),
      lua_pushlightuserdata = (\<lambda>st p. st @ [VLight p]),
      lua_pushcfunction = (\<lambda>st f. st @ [VFun f]),
      lua_pushvalue = (\<lambda>st i. st @ [slot_or_nil st i]),
      lua_insert = (\<lambda>st i. take (nat (i - 1)) st @ last st # drop (nat (i - 1)) (butlast st)),
      lua_remove = (\<lambda>st i. take (nat (i - 1)) st @ drop (nat i) st),
      lua_replace = (\<lambda>st i. butlast (st[nat (i - 1) := last st])),
      lua_pcall = list_pcall call\<rparr>"

lemma list_api_laws: "lua_laws (list_api call) id"
proof -
  have "query_laws (list_api call) id"
    unfolding query_laws_def list_api_def
    by (auto simp: slot_or_nil_def split: lua_value.splits)
  moreover have "push_laws (list_api call) id"
    by (auto simp: push_laws_def list_api_def slot_or_nil_def)
  moreover have "move_laws (list_api call) id"
    unfolding move_laws_def list_api_def
    by (auto simp: list_settop_def butlast_append list_update_append nat_add_distrib)
  moreover have "call_laws (list_api call) id"
    unfolding call_laws_def list_api_def
    by (auto simp: list_pcall_def adjust_def Let_def LUA_MULTRET_def split: sum.splits)
  ultimately show ?thesis by (simp add: lua_laws_def)
qed

end
