(* ===== verification/Lua_Message.thy ===== *)
theory Lua_Message
  imports Lua_Api
begin

text \<open>
  \<^verbatim>\<open>src/blocks/lua_message.c\<close>: the values of a Lua stack are written to a heap block
  (\<open>lua_message_pop\<close>) and pushed from it onto the stack of another Lua state
  (\<open>lua_message_push\<close>). The block is modelled byte by byte, for a little-endian 64-bit ABI:
  \<open>struct values\<close> is a 4-byte \<open>int\<close>, \<open>struct value\<close> a 4-byte \<open>enum\<close>, 4 bytes of padding and an
  8-byte \<open>size_t\<close>. Uninitialised memory is a parameter \<open>junk\<close>, the address of the block a
  parameter \<open>base\<close>; \<open>len_first\<close> tells whether the compiler evaluates the third argument of the
  \<open>memcpy\<close> before the call in its second argument, which C leaves open. Allocation fails only
  for a size that is negative as an \<open>int\<close>. The field \<open>msg_size\<close> is never set or read and is left
  out.
\<close>

section \<open>Data\<close>

datatype msg_type =
    T_INTEGER | T_FLOATING | T_STRING | T_BOOLEAN | T_FUNCTION | T_TABLE | T_NIL | T_USERDATA

fun type_code :: "msg_type \<Rightarrow> nat" where
  "type_code T_INTEGER = 0"
| "type_code T_FLOATING = 1"
| "type_code T_STRING = 2"
| "type_code T_BOOLEAN = 3"
| "type_code T_FUNCTION = 4"
| "type_code T_TABLE = 5"
| "type_code T_NIL = 6"
| "type_code T_USERDATA = 7"

record message_content =
  message_addr :: addr
  message :: "byte list"

definition MSG_MAX_SIZE :: int where "MSG_MAX_SIZE = 2 * 1024"
definition MSG_INC_SIZE :: int where "MSG_INC_SIZE = 256"

definition sizeof_values :: int where "sizeof_values = 4"
definition sizeof_value :: int where "sizeof_value = 16"

text \<open>Memory of the message block: allocation, and reads and writes at an \<open>int\<close> position.\<close>

definition mem_alloc :: "(nat \<Rightarrow> byte) \<Rightarrow> int \<Rightarrow> byte list res" where
  "mem_alloc junk n = (if n < 0 then Inl Null_Deref else Inr (map junk [0..<nat n]))"

definition mem_realloc :: "(nat \<Rightarrow> byte) \<Rightarrow> byte list \<Rightarrow> int \<Rightarrow> byte list res" where
  "mem_realloc junk h n =
     (if n < 0 then Inl Null_Deref else Inr (take (nat n) h @ map junk [length h..<nat n]))"

definition mem_put :: "byte list \<Rightarrow> int \<Rightarrow> byte list \<Rightarrow> byte list res" where
  "mem_put h pos bs = (if pos < 0 then Inl Out_Of_Bounds else arr_copy h (nat pos) bs)"

definition mem_get :: "byte list \<Rightarrow> int \<Rightarrow> nat \<Rightarrow> byte list res" where
  "mem_get h pos n = (if pos < 0 then Inl Out_Of_Bounds else arr_slice h (nat pos) n)"

section \<open>lua_message_pop\<close>

text \<open>The first \<open>switch\<close>: the message type and the length reserved for the value at index \<open>i\<close>.\<close>

definition value_type :: "'L lua_api \<Rightarrow> 'L \<Rightarrow> int \<Rightarrow> msg_type \<times> int" where
  "value_type A L i =
     (case lua_type A L i of
        LUA_TBOOLEAN \<Rightarrow> (T_BOOLEAN, 1)
      | LUA_TSTRING \<Rightarrow> (T_STRING, lua_rawlen A L i)
      | LUA_TNUMBER \<Rightarrow> (T_FLOATING, 8)
      | LUA_TFUNCTION \<Rightarrow> (T_FUNCTION, lua_rawlen A L i)
      | LUA_TNIL \<Rightarrow> (T_NIL, lua_rawlen A L i)
      | LUA_TTABLE \<Rightarrow> (T_TABLE, lua_rawlen A L i)
      | LUA_TLIGHTUSERDATA \<Rightarrow> (T_USERDATA, 8)
      | LUA_TUSERDATA \<Rightarrow> (T_USERDATA, 8)
      | _ \<Rightarrow> (T_NIL, lua_rawlen A L i))"

text \<open>Room for one more value: the block grows, or the size limit raises a Lua error.\<close>

definition make_room :: "(nat \<Rightarrow> byte) \<Rightarrow> int \<Rightarrow> int \<Rightarrow> int \<Rightarrow> byte list \<Rightarrow> (int \<times> byte list) res" where
  "make_room junk value_length heap_size heap_position heap =
     (if c_size (c_size heap_position + value_length) \<ge> c_size heap_size then
        let heap_size' = c_int (c_size heap_size + c_size (MSG_INC_SIZE + value_length)) in
        if heap_size' > MSG_MAX_SIZE then Inl (Lua_Error ''Max message size exceeded'')
        else bind_res (mem_realloc junk heap heap_size') (\<lambda>heap'. Inr (heap_size', heap'))
      else Inr (heap_size, heap))"

text \<open>
  The data of one value. For everything but booleans, numbers and userdata it is copied from
  what \<open>lua_tolstring\<close> returns, which is NULL (and the length then set to 0) unless the value is
  a string.
\<close>

definition put_data :: "'L lua_api \<Rightarrow> bool \<Rightarrow> 'L \<Rightarrow> int \<Rightarrow> msg_type \<Rightarrow> int \<Rightarrow> byte list \<Rightarrow> int \<Rightarrow> byte list res" where
  "put_data A len_first L i type len heap data =
     (if type = T_BOOLEAN then mem_put heap data [if lua_toboolean A L i then 1 else 0]
      else if type = T_FLOATING then mem_put heap data (le_enc 8 (unat (lua_tonumber A L i)))
      else if type = T_USERDATA then mem_put heap data (le_enc 8 (unat (lua_touserdata A L i)))
      else
        (case lua_tolstring A L i of
           None \<Rightarrow> if len_first \<and> 0 < len then Inl Null_Deref else Inr heap
         | Some s \<Rightarrow>
             let n = (if len_first then nat len else length s) in
             if n \<le> length s then mem_put heap data (take n s) else Inl Out_Of_Bounds))"

definition put_value :: "'L lua_api \<Rightarrow> bool \<Rightarrow> 'L \<Rightarrow> int \<Rightarrow> msg_type \<Rightarrow> int \<Rightarrow> byte list \<Rightarrow> int \<Rightarrow> byte list res" where
  "put_value A len_first L i type len heap arg =
     bind_res (mem_put heap (arg + 8) (le_enc 8 (nat len))) (\<lambda>h1.
     bind_res (mem_put h1 arg (le_enc 4 (type_code type))) (\<lambda>h2.
       put_data A len_first L i type len h2 (c_int (arg + sizeof_value))))"

text \<open>The loop over the values, with the number of iterations left.\<close>

fun pop_loop :: "'L lua_api \<Rightarrow> (nat \<Rightarrow> byte) \<Rightarrow> bool \<Rightarrow> 'L \<Rightarrow> nat \<Rightarrow> int \<Rightarrow> int \<Rightarrow> int \<Rightarrow> byte list \<Rightarrow> byte list res" where
  "pop_loop A junk len_first L 0 i heap_size heap_position heap = Inr heap"
| "pop_loop A junk len_first L (Suc n) i heap_size heap_position heap =
     (case value_type A L i of (type, len) \<Rightarrow>
        let value_length = c_size (len + sizeof_value) in
        bind_res (make_room junk value_length heap_size heap_position heap) (\<lambda>(heap_size', heap').
        bind_res (put_value A len_first L i type len heap' heap_position) (\<lambda>heap''.
          pop_loop A junk len_first L n (i + 1) heap_size'
            (c_int (c_int (heap_position + sizeof_value) + len)) heap'')))"

definition lua_message_pop ::
    "'L lua_api \<Rightarrow> (nat \<Rightarrow> byte) \<Rightarrow> addr \<Rightarrow> bool \<Rightarrow> 'L \<Rightarrow> int \<Rightarrow> message_content option res" where
  "lua_message_pop A junk base len_first L offset =
     (let argc = c_int (lua_gettop A L - offset) in
      if argc = 0 then Inr None
      else
        let message_size = c_int (c_size (sizeof_values + sizeof_value * argc));
            heap_size = c_int (message_size + MSG_INC_SIZE)
        in
          bind_res (mem_alloc junk heap_size) (\<lambda>heap.
          bind_res (mem_put heap 0 (le_enc 4 (nat (argc mod 2 ^ 32)))) (\<lambda>heap.
          bind_res (pop_loop A junk len_first L (nat argc) (1 + offset) heap_size sizeof_values heap) (\<lambda>heap.
            Inr (Some \<lparr>message_addr = base, message = heap\<rparr>)))))"

section \<open>lua_message_push\<close>

text \<open>
  One value of the block: what is pushed for it, given the type word, the length and the data
  at position \<open>data\<close>. A type the \<open>switch\<close> does not know pushes nothing.
\<close>

definition push_value :: "'L lua_api \<Rightarrow> message_content \<Rightarrow> 'L \<Rightarrow> nat \<Rightarrow> nat \<Rightarrow> int \<Rightarrow> 'L res" where
  "push_value A content L type len data =
     (if type = type_code T_BOOLEAN then
        bind_res (mem_get (message content) data 1) (\<lambda>d. Inr (lua_pushboolean A L (hd d \<noteq> 0)))
      else if type = type_code T_INTEGER \<or> type = type_code T_FLOATING then
        bind_res (mem_get (message content) data 8) (\<lambda>d. Inr (lua_pushnumber A L (word_of_nat (le_dec d))))
      else if type = type_code T_STRING then
        bind_res (mem_get (message content) data len) (\<lambda>d. Inr (lua_pushlstring A L d))
      else if type = type_code T_NIL \<or> type = type_code T_FUNCTION \<or> type = type_code T_TABLE then
        Inr (lua_pushnil A L)
      else if type = type_code T_USERDATA then
        Inr (lua_pushlightuserdata A L (message_addr content + word_of_int data))
      else Inr L)"

fun push_loop :: "'L lua_api \<Rightarrow> message_content \<Rightarrow> nat \<Rightarrow> int \<Rightarrow> 'L \<Rightarrow> 'L res" where
  "push_loop A content 0 heap_position L = Inr L"
| "push_loop A content (Suc n) heap_position L =
     bind_res (mem_get (message content) heap_position 4) (\<lambda>t.
     bind_res (mem_get (message content) (heap_position + 8) 8) (\<lambda>l.
     let data = c_int (heap_position + sizeof_value) in
     bind_res (push_value A content L (le_dec t) (le_dec l) data) (\<lambda>L'.
       push_loop A content n (c_int (data + int (le_dec l))) L')))"

definition lua_message_push :: "'L lua_api \<Rightarrow> 'L \<Rightarrow> message_content option \<Rightarrow> ('L \<times> int) res" where
  "lua_message_push A L content =
     (case content of
        None \<Rightarrow> Inr (L, 0)
      | Some c \<Rightarrow>
          bind_res (mem_get (message c) 0 4) (\<lambda>d.
            let argc = c_int (int (le_dec d)) in
            bind_res (push_loop A c (nat argc) sizeof_values L) (\<lambda>L'. Inr (L', argc))))"


section \<open>What a block holds\<close>

text \<open>The reserved length, the type word and the data bytes of a value.\<close>

fun vlen :: "lua_value \<Rightarrow> nat" where
  "vlen (VBool b) = 1"
| "vlen (VNum n) = 8"
| "vlen (VLight p) = 8"
| "vlen (VUser p n) = 8"
| "vlen v = rawlen_of_value v"

fun vtype :: "lua_value \<Rightarrow> msg_type" where
  "vtype (VBool b) = T_BOOLEAN"
| "vtype (VNum n) = T_FLOATING"
| "vtype (VStr s) = T_STRING"
| "vtype (VFun f) = T_FUNCTION"
| "vtype (VTable t n) = T_TABLE"
| "vtype (VLight p) = T_USERDATA"
| "vtype (VUser p n) = T_USERDATA"
| "vtype VNil = T_NIL"
| "vtype (VThread t) = T_NIL"

fun vdata :: "lua_value \<Rightarrow> byte list" where
  "vdata (VBool b) = [if b then 1 else 0]"
| "vdata (VNum n) = le_enc 8 (unat n)"
| "vdata (VStr s) = s"
| "vdata (VLight p) = le_enc 8 (unat p)"
| "vdata (VUser p n) = le_enc 8 (unat p)"
| "vdata _ = []"

lemma length_vdata: "length (vdata v) \<le> vlen v"
  by (cases v) auto

lemma value_type_slot:
  "lua_laws A stk \<Longrightarrow> slot (stk L) i = Some v \<Longrightarrow> value_type A L i = (vtype v, int (vlen v))"
  by (cases v) (auto simp: value_type_def lua_type_eq lua_rawlen_eq)

definition span :: "lua_value list \<Rightarrow> nat" where
  "span vs = (\<Sum>v\<leftarrow>vs. 16 + vlen v)"

lemma span_simps [simp]: "span [] = 0" "span (v # vs) = 16 + vlen v + span vs"
  by (simp_all add: span_def)

lemma span_ge: "16 * length vs \<le> span vs"
  by (induction vs) auto

text \<open>\<open>entry h pos v\<close>: the block \<open>h\<close> holds \<open>v\<close> at \<open>pos\<close>; \<open>entries\<close> a sequence of values.\<close>

definition entry :: "byte list \<Rightarrow> nat \<Rightarrow> lua_value \<Rightarrow> bool" where
  "entry h pos v \<longleftrightarrow>
     pos + 16 + vlen v \<le> length h \<and>
     take 4 (drop pos h) = le_enc 4 (type_code (vtype v)) \<and>
     take 8 (drop (pos + 8) h) = le_enc 8 (vlen v) \<and>
     take (length (vdata v)) (drop (pos + 16) h) = vdata v"

fun entries :: "byte list \<Rightarrow> nat \<Rightarrow> lua_value list \<Rightarrow> bool" where
  "entries h pos [] = (pos \<le> length h)"
| "entries h pos (v # vs) = (entry h pos v \<and> entries h (pos + 16 + vlen v) vs)"

lemma entry_cong:
  assumes "entry h pos v" and "take n h = take n h'" and "pos + 16 + vlen v \<le> n" and "n \<le> length h'"
  shows "entry h' pos v"
proof -
  have "take k (drop off h') = take k (drop off h)" if "off + k \<le> pos + 16 + vlen v" for off k
    using slice_eq_of_take_eq take_eq_mono assms(2) assms(3) that by (metis le_trans)
  with assms length_vdata [of v] show ?thesis by (simp add: entry_def)
qed

lemma entries_bound: "entries h pos vs \<Longrightarrow> pos + span vs \<le> length h"
proof (induction vs arbitrary: pos)
  case (Cons v vs)
  then have "pos + 16 + vlen v + span vs \<le> length h" by simp
  then show ?case by simp
qed simp

section \<open>Writing one value\<close>

text \<open>
  \<open>benign\<close>: the value's \<open>memcpy\<close> does not read through NULL. Only a table with array elements can
  make it, and only when the length is evaluated first.
\<close>

definition benign :: "bool \<Rightarrow> lua_value \<Rightarrow> bool" where
  "benign len_first v \<longleftrightarrow> len_first \<and> (case v of VTable t n \<Rightarrow> n = 0 | _ \<Rightarrow> True) \<or> \<not> len_first"

lemma put_data_slot:
  assumes laws: "lua_laws A stk" and sl: "slot (stk L) i = Some v" and ben: "benign len_first v"
    and room: "data + vlen v \<le> length heap"
  shows "put_data A len_first L i (vtype v) (int (vlen v)) heap (int data) = Inr (overlay heap data (vdata v))"
proof -
  have nul: "lua_tolstring A L i = None"
    if "type_of_value v \<noteq> LUA_TSTRING" "type_of_value v \<noteq> LUA_TNUMBER"
    using lua_tolstring_other [OF laws sl that] .
  show ?thesis
    using sl room ben nul
    by (cases v) (auto simp: put_data_def mem_put_def lua_to_value [OF laws] benign_def overlay_def)
qed

lemma put_value_slot:
  assumes laws: "lua_laws A stk" and sl: "slot (stk L) i = Some v" and ben: "benign len_first v"
    and room: "arg + 16 + vlen v \<le> length heap" and small: "arg + 16 < 2 ^ 31"
  shows "\<exists>heap'. put_value A len_first L i (vtype v) (int (vlen v)) heap (int arg) = Inr heap' \<and>
           length heap' = length heap \<and> take arg heap' = take arg heap \<and> entry heap' arg v"
proof -
  define h1 where "h1 = overlay heap (arg + 8) (le_enc 8 (vlen v))"
  define h2 where "h2 = overlay h1 arg (le_enc 4 (type_code (vtype v)))"
  define h3 where "h3 = overlay h2 (arg + 16) (vdata v)"
  have len: "length h1 = length heap" "length h2 = length heap" "length h3 = length heap"
    using room length_vdata [of v] by (simp_all add: h1_def h2_def h3_def)
  have nat8: "nat (int arg + 8) = arg + 8" and nat16: "c_int (int arg + sizeof_value) = int (arg + 16)"
    using small by (auto simp: sizeof_value_def)
  have "put_value A len_first L i (vtype v) (int (vlen v)) heap (int arg) = Inr h3"
    using room len put_data_slot [OF laws sl ben, of "arg + 16" h2]
    by (simp add: put_value_def mem_put_def nat8 nat16 flip: h1_def h2_def h3_def)
  moreover have "take arg h3 = take arg heap"
    using room length_vdata [of v] len by (simp add: h3_def h2_def h1_def)
  moreover have "entry h3 arg v"
  proof -
    have t: "take 4 (drop arg h3) = le_enc 4 (type_code (vtype v))"
    proof (rule nth_equalityI)
      show "length (take 4 (drop arg h3)) = length (le_enc 4 (type_code (vtype v)))"
        using room len by simp
      fix k assume "k < length (take 4 (drop arg h3))"
      then show "take 4 (drop arg h3) ! k = le_enc 4 (type_code (vtype v)) ! k"
        using room len length_vdata [of v] by (simp add: h3_def h2_def nth_overlay)
    qed
    have l: "take 8 (drop (arg + 8) h3) = le_enc 8 (vlen v)"
    proof (rule nth_equalityI)
      show "length (take 8 (drop (arg + 8) h3)) = length (le_enc 8 (vlen v))"
        using room len by simp
      fix k assume "k < length (take 8 (drop (arg + 8) h3))"
      then show "take 8 (drop (arg + 8) h3) ! k = le_enc 8 (vlen v) ! k"
        using room len length_vdata [of v] by (simp add: h3_def h2_def h1_def nth_overlay)
    qed
    have d: "take (length (vdata v)) (drop (arg + 16) h3) = vdata v"
      using room len length_vdata [of v] by (simp add: h3_def overlay_def)
    from t l d room len show ?thesis by (simp add: entry_def)
  qed
  ultimately show ?thesis using len by blast
qed

lemma make_room_cases:
  assumes "0 \<le> pos" and "pos \<le> hs" and "hs < 2 ^ 30" and "0 \<le> vl" and "vl < 2 ^ 29" and "length heap = nat hs"
  obtains (ok) hs' heap' where "make_room junk vl hs pos heap = Inr (hs', heap')"
      and "pos + vl < hs'" and "hs' < 2 ^ 30" and "hs \<le> hs'" and "length heap' = nat hs'"
      and "take (nat hs) heap' = take (nat hs) heap"
    | (too_big) "make_room junk vl hs pos heap = Inl (Lua_Error ''Max message size exceeded'')"
proof (cases "c_size (c_size pos + vl) \<ge> c_size hs")
  case False
  then have "make_room junk vl hs pos heap = Inr (hs, heap)" by (simp add: make_room_def)
  with False assms show thesis by (intro ok) auto
next
  case True
  define hs' where "hs' = hs + 256 + vl"
  have hs': "c_int (c_size hs + c_size (MSG_INC_SIZE + vl)) = hs'"
    using assms by (simp add: MSG_INC_SIZE_def hs'_def)
  show thesis
  proof (cases "hs' > MSG_MAX_SIZE")
    case True
    with \<open>c_size (c_size pos + vl) \<ge> c_size hs\<close> hs' show thesis
      by (intro too_big) (simp add: make_room_def Let_def)
  next
    case False
    let ?heap' = "take (nat hs') heap @ map junk [length heap..<nat hs']"
    have "make_room junk vl hs pos heap = Inr (hs', ?heap')"
      using True False hs' assms(1,2,4) by (simp add: make_room_def Let_def mem_realloc_def hs'_def)
    moreover have "nat hs \<le> nat hs'" using assms by (simp add: hs'_def)
    ultimately show thesis
      using assms False by (intro ok [of hs' ?heap']) (auto simp: hs'_def MSG_MAX_SIZE_def)
  qed
qed

text \<open>
  The loop, from a position in a block of \<open>hs\<close> bytes: it either stops at the size limit or
  leaves a block that holds all the values and agrees with the old one below the position.
\<close>

lemma pop_loop_writes:
  assumes laws: "lua_laws A stk"
    and slots: "\<And>k. k < length vs \<Longrightarrow> slot (stk L) (i + int k) = Some (vs ! k)"
    and ben: "\<And>v. v \<in> set vs \<Longrightarrow> benign len_first v"
    and pos: "int pos \<le> hs" and hs: "hs < 2 ^ 30" and sp: "span vs < 2 ^ 29" and len: "length heap = nat hs"
  shows "(\<exists>heap'. pop_loop A junk len_first L (length vs) i hs (int pos) heap = Inr heap' \<and>
            take pos heap' = take pos heap \<and> entries heap' pos vs \<and> length heap' < 2 ^ 30)
       \<or> pop_loop A junk len_first L (length vs) i hs (int pos) heap = Inl (Lua_Error ''Max message size exceeded'')"
  using slots ben pos hs sp len
proof (induction vs arbitrary: i hs pos heap)
  case Nil
  then show ?case by (simp add: nat_less_iff)
next
  case (Cons v vs)
  have sl: "slot (stk L) i = Some v" using Cons.prems(1) [of 0] by simp
  have vl: "c_size (int (vlen v) + sizeof_value) = int (vlen v) + 16"
    using Cons.prems(5) by (simp add: sizeof_value_def)
  note vt = value_type_slot [OF laws sl]
  have mr: "0 \<le> int pos" "0 \<le> int (vlen v) + 16" "int (vlen v) + 16 < 2 ^ 29"
    using Cons.prems(5) by auto
  from mr(1) Cons.prems(3,4) mr(2,3) Cons.prems(6) show ?case
  proof (cases rule: make_room_cases [where junk = junk])
    case too_big
    then show ?thesis by (simp add: vt vl)
  next
    case (ok hs' heap')
    have room: "pos + 16 + vlen v \<le> length heap'" using ok(2,5) by linarith
    have small: "pos + 16 < 2 ^ 31" using ok(2,3) by simp
    obtain heap2 where heap2: "put_value A len_first L i (vtype v) (int (vlen v)) heap' (int pos) = Inr heap2"
      "length heap2 = length heap'" "take pos heap2 = take pos heap'" "entry heap2 pos v"
      using put_value_slot [OF laws sl _ room small] Cons.prems(2) by auto
    have pos': "c_int (c_int (int pos + sizeof_value) + int (vlen v)) = int (pos + 16 + vlen v)"
      using small ok(2,3) by (simp add: sizeof_value_def)
    have low: "take pos heap' = take pos heap"
      using ok(6) Cons.prems(3) by (metis take_eq_mono nat_int nat_mono)
    have step: "pop_loop A junk len_first L (length (v # vs)) i hs (int pos) heap =
        pop_loop A junk len_first L (length vs) (i + 1) hs' (int (pos + 16 + vlen v)) heap2"
      by (simp add: vt vl ok(1) heap2(1) pos')
    have "(\<exists>h. pop_loop A junk len_first L (length vs) (i + 1) hs' (int (pos + 16 + vlen v)) heap2 = Inr h \<and>
            take (pos + 16 + vlen v) h = take (pos + 16 + vlen v) heap2 \<and> entries h (pos + 16 + vlen v) vs \<and> length h < 2 ^ 30)
       \<or> pop_loop A junk len_first L (length vs) (i + 1) hs' (int (pos + 16 + vlen v)) heap2 =
            Inl (Lua_Error ''Max message size exceeded'')"
    proof (rule Cons.IH)
      show "slot (stk L) (i + 1 + int k) = Some (vs ! k)" if "k < length vs" for k
        using Cons.prems(1) [of "Suc k"] that by (simp add: add.assoc)
      show "int (pos + 16 + vlen v) \<le> hs'" using ok(2) by simp
    qed (use Cons.prems(2,5) ok(3,5) heap2(2) in auto)
    then show ?thesis
    proof
      assume "\<exists>h. pop_loop A junk len_first L (length vs) (i + 1) hs' (int (pos + 16 + vlen v)) heap2 = Inr h \<and>
            take (pos + 16 + vlen v) h = take (pos + 16 + vlen v) heap2 \<and> entries h (pos + 16 + vlen v) vs \<and> length h < 2 ^ 30"
      then obtain h where h: "pop_loop A junk len_first L (length vs) (i + 1) hs' (int (pos + 16 + vlen v)) heap2 = Inr h"
        "take (pos + 16 + vlen v) h = take (pos + 16 + vlen v) heap2" "entries h (pos + 16 + vlen v) vs" "length h < 2 ^ 30" by blast
      have "pos + 16 + vlen v \<le> length h" using entries_bound [OF h(3)] by simp
      then have "entry h pos v" using entry_cong [OF heap2(4) h(2) [symmetric]] by simp
      moreover have "take pos h = take pos heap"
        using h(2) heap2(3) low by (metis take_eq_mono add.assoc le_add1)
      ultimately show ?thesis using h(1,3,4) step by auto
    qed (use step in simp)
  qed
qed


lemma lua_message_pop_result:
  assumes laws: "lua_laws A stk" and st: "stk L = below @ vs" and ne: "vs \<noteq> []"
    and sp: "span vs < 2 ^ 29" and ben: "\<And>v. v \<in> set vs \<Longrightarrow> benign len_first v"
  shows "(\<exists>c. lua_message_pop A junk base len_first L (int (length below)) = Inr (Some c) \<and>
            take 4 (message c) = le_enc 4 (length vs) \<and> entries (message c) 4 vs \<and>
            length (message c) < 2 ^ 30 \<and> message_addr c = base)
       \<or> lua_message_pop A junk base len_first L (int (length below)) =
            Inl (Lua_Error ''Max message size exceeded'')"
proof -
  let ?n = "length vs" and ?hs = "int (16 * length vs + 260)"
  have n: "16 * ?n < 2 ^ 29" using span_ge [of vs] sp by linarith
  have argc: "c_int (lua_gettop A L - int (length below)) = int ?n"
    using n by (simp add: lua_gettop_eq [OF laws] st)
  have size: "c_int (c_int (c_size (sizeof_values + sizeof_value * int ?n)) + MSG_INC_SIZE) = ?hs"
    using n by (simp add: sizeof_values_def sizeof_value_def MSG_INC_SIZE_def)
  define h0 where "h0 = map junk [0..<nat ?hs]"
  define h1 where "h1 = overlay h0 0 (le_enc 4 ?n)"
  have h0: "mem_alloc junk ?hs = Inr h0" "length h0 = nat ?hs"
    by (auto simp: mem_alloc_def h0_def)
  have put: "mem_put h0 0 (le_enc 4 (nat (int ?n mod 2 ^ 32))) = Inr h1"
    using n h0(2) by (simp add: mem_put_def h1_def)
  have len1: "length h1 = nat ?hs" and low: "take 4 h1 = le_enc 4 ?n"
    using h0(2) by (simp_all add: h1_def overlay_def)
  have pop: "lua_message_pop A junk base len_first L (int (length below)) =
      bind_res (pop_loop A junk len_first L ?n (1 + int (length below)) ?hs (int 4) h1)
        (\<lambda>h. Inr (Some \<lparr>message_addr = base, message = h\<rparr>))"
    using ne h0 put size by (simp add: lua_message_pop_def argc Let_def sizeof_values_def)
  have "(\<exists>h. pop_loop A junk len_first L ?n (1 + int (length below)) ?hs (int 4) h1 = Inr h \<and>
            take 4 h = take 4 h1 \<and> entries h 4 vs \<and> length h < 2 ^ 30)
       \<or> pop_loop A junk len_first L ?n (1 + int (length below)) ?hs (int 4) h1 =
            Inl (Lua_Error ''Max message size exceeded'')"
  proof (rule pop_loop_writes [OF laws _ ben])
    show "slot (stk L) (1 + int (length below) + int k) = Some (vs ! k)" if "k < length vs" for k
      using slot_nth [of "length below + k" "stk L"] that st by (simp add: algebra_simps nth_append)
  qed (use n sp len1 in auto)
  then show ?thesis
  proof
    assume "\<exists>h. pop_loop A junk len_first L ?n (1 + int (length below)) ?hs (int 4) h1 = Inr h \<and>
            take 4 h = take 4 h1 \<and> entries h 4 vs \<and> length h < 2 ^ 30"
    then obtain h where "pop_loop A junk len_first L ?n (1 + int (length below)) ?hs (int 4) h1 = Inr h"
      "take 4 h = take 4 h1" "entries h 4 vs" "length h < 2 ^ 30" by blast
    with pop low show ?thesis by (intro disjI1 exI [of _ "\<lparr>message_addr = base, message = h\<rparr>"]) auto
  qed (use pop in auto)
qed

section \<open>Reading a block\<close>

text \<open>
  What arrives at the other side: booleans, numbers and strings as they were; functions,
  tables, threads and nil as nil; a userdata as the address of its slot in the block.
\<close>

fun carried :: "addr \<Rightarrow> lua_value \<Rightarrow> lua_value" where
  "carried p (VBool b) = VBool b"
| "carried p (VNum n) = VNum n"
| "carried p (VStr s) = VStr s"
| "carried p (VLight q) = VLight p"
| "carried p (VUser q n) = VLight p"
| "carried p _ = VNil"

fun arrivals :: "addr \<Rightarrow> nat \<Rightarrow> lua_value list \<Rightarrow> lua_value list" where
  "arrivals base pos [] = []"
| "arrivals base pos (v # vs) =
     carried (base + word_of_nat (pos + 16)) v # arrivals base (pos + 16 + vlen v) vs"

lemma length_arrivals [simp]: "length (arrivals base pos vs) = length vs"
  by (induction vs arbitrary: pos) auto

lemma le_dec_word: "word_of_nat (le_dec (le_enc 8 (unat w))) = (w :: 64 word)"
proof -
  have "unat w < 256 ^ 8" by (rule order_less_le_trans [OF unsigned_less]) simp
  then show ?thesis by (simp add: le_dec_enc)
qed

lemma push_value_entry:
  assumes laws: "lua_laws A stk" and en: "entry (message c) pos v"
  shows "\<exists>L'. push_value A c L (type_code (vtype v)) (vlen v) (int (pos + 16)) = Inr L' \<and>
           stk L' = stk L @ [carried (message_addr c + word_of_nat (pos + 16)) v]"
  using en
  by (cases v)
     (auto simp: push_value_def mem_get_def entry_def lua_push_eq [OF laws] le_dec_word nat_add_distrib
       simp flip: of_nat_add)

lemma push_loop_entries:
  assumes laws: "lua_laws A stk" and "entries (message c) pos vs" and "length (message c) < 2 ^ 30"
  shows "\<exists>L'. push_loop A c (length vs) (int pos) L = Inr L' \<and>
           stk L' = stk L @ arrivals (message_addr c) pos vs"
  using assms(2)
proof (induction vs arbitrary: pos L)
  case Nil
  then show ?case by simp
next
  case (Cons v vs)
  from Cons.prems have en: "entry (message c) pos v" and rest: "entries (message c) (pos + 16 + vlen v) vs"
    by simp_all
  have bound: "pos + 16 + vlen v < 2 ^ 30"
    using en assms(3) by (simp add: entry_def)
  have t: "mem_get (message c) (int pos) 4 = Inr (le_enc 4 (type_code (vtype v)))"
    and l: "mem_get (message c) (int pos + 8) 8 = Inr (le_enc 8 (vlen v))"
    using en by (auto simp: mem_get_def entry_def nat_add_distrib)
  have dt: "le_dec (le_enc 4 (type_code (vtype v))) = type_code (vtype v)"
    by (cases "vtype v") (simp_all add: le_dec_enc)
  have dl: "le_dec (le_enc 8 (vlen v)) = vlen v"
    using bound by (simp add: le_dec_enc)
  have d: "c_int (int pos + sizeof_value) = int (pos + 16)" "c_int (int (pos + 16) + int (vlen v)) = int (pos + 16 + vlen v)"
    using bound by (simp_all add: sizeof_value_def)
  obtain L1 where L1: "push_value A c L (type_code (vtype v)) (vlen v) (int (pos + 16)) = Inr L1"
    "stk L1 = stk L @ [carried (message_addr c + word_of_nat (pos + 16)) v]"
    using push_value_entry [OF laws en] by blast
  from Cons.IH [OF rest, of L1] obtain L2 where
    "push_loop A c (length vs) (int (pos + 16 + vlen v)) L1 = Inr L2"
    "stk L2 = stk L1 @ arrivals (message_addr c) (pos + 16 + vlen v) vs" by blast
  then show ?case
    using L1 by (simp only: push_loop.simps list.size(4) add_0 One_nat_def add_Suc_right add_0_right
        t l bind_res_simps Let_def dt dl d) simp
qed

lemma lua_message_push_entries:
  assumes laws: "lua_laws A stk" and "take 4 (message c) = le_enc 4 (length vs)"
    and "entries (message c) 4 vs" and "length (message c) < 2 ^ 30"
  shows "\<exists>L'. lua_message_push A L (Some c) = Inr (L', int (length vs)) \<and>
           stk L' = stk L @ arrivals (message_addr c) 4 vs"
proof -
  have b: "4 + span vs \<le> length (message c)" using entries_bound [OF assms(3)] .
  then have n: "length vs < 2 ^ 30" using span_ge [of vs] assms(4) by linarith
  have g: "mem_get (message c) 0 4 = Inr (le_enc 4 (length vs))"
    using assms(2) b by (simp add: mem_get_def)
  have d: "c_int (int (le_dec (le_enc 4 (length vs)))) = int (length vs)"
    using n by (simp add: le_dec_enc)
  show ?thesis
    using push_loop_entries [OF laws assms(3,4), of L] n
    by (auto simp: lua_message_push_def g d sizeof_values_def)
qed

text \<open>What \<open>lua_message_pop\<close> took from one stack, \<open>lua_message_push\<close> puts on another.\<close>

lemma message_transfer:
  assumes laws: "lua_laws A stk" "lua_laws B stk'" and st: "stk L = below @ vs" and sp: "span vs < 2 ^ 29"
    and ben: "\<And>v. v \<in> set vs \<Longrightarrow> benign len_first v"
    and pop: "lua_message_pop A junk base len_first L (int (length below)) = Inr content"
  shows "\<exists>M'. lua_message_push B M content = Inr (M', int (length vs)) \<and> stk' M' = stk' M @ arrivals base 4 vs"
proof (cases "vs = []")
  case True
  then have "content = None"
    using pop st by (simp add: lua_message_pop_def lua_gettop_eq [OF laws(1)])
  with True show ?thesis by (simp add: lua_message_push_def)
next
  case False
  from lua_message_pop_result [OF laws(1) st False sp ben, of junk base] pop
  obtain c where "content = Some c" "take 4 (message c) = le_enc 4 (length vs)" "entries (message c) 4 vs"
    "length (message c) < 2 ^ 30" "message_addr c = base" by auto
  with lua_message_push_entries [OF laws(2), of c vs M] show ?thesis by auto
qed

section \<open>Small messages\<close>

text \<open>With less than 256 bytes of data in all, the block never has to grow.\<close>

lemma pop_loop_no_growth:
  assumes laws: "lua_laws A stk"
    and slots: "\<And>k. k < length vs \<Longrightarrow> slot (stk L) (i + int k) = Some (vs ! k)"
    and ben: "\<And>v. v \<in> set vs \<Longrightarrow> benign len_first v"
    and fit: "pos + span vs < hs" and hs: "hs < 2 ^ 30" and len: "length heap = hs"
  shows "\<exists>h. pop_loop A junk len_first L (length vs) i (int hs) (int pos) heap = Inr h \<and> length h = hs"
  using slots ben fit len
proof (induction vs arbitrary: i pos heap)
  case Nil
  then show ?case by simp
next
  case (Cons v vs)
  have sl: "slot (stk L) i = Some v" using Cons.prems(1) [of 0] by simp
  have room: "pos + 16 + vlen v \<le> length heap" "pos + 16 < 2 ^ 31"
    using Cons.prems(3,4) hs by simp_all
  obtain h1 where h1: "put_value A len_first L i (vtype v) (int (vlen v)) heap (int pos) = Inr h1" "length h1 = hs"
    using put_value_slot [OF laws sl _ room] Cons.prems(2,4) by auto
  have no_room: "make_room junk (int (vlen v) + 16) (int hs) (int pos) heap = Inr (int hs, heap)"
    using Cons.prems(3) hs by (simp add: make_room_def)
  have step: "pop_loop A junk len_first L (length (v # vs)) i (int hs) (int pos) heap =
      pop_loop A junk len_first L (length vs) (i + 1) (int hs) (int (pos + 16 + vlen v)) h1"
    using Cons.prems(3) hs by (simp add: value_type_slot [OF laws sl] sizeof_value_def no_room h1)
  have "\<exists>h. pop_loop A junk len_first L (length vs) (i + 1) (int hs) (int (pos + 16 + vlen v)) h1 = Inr h \<and> length h = hs"
  proof (rule Cons.IH)
    show "slot (stk L) (i + 1 + int k) = Some (vs ! k)" if "k < length vs" for k
      using Cons.prems(1) [of "Suc k"] that by (simp add: add.assoc)
  qed (use Cons.prems(2,3) h1 in auto)
  with step show ?case by simp
qed

text \<open>A string of the size of the limit is refused.\<close>

lemma lua_message_pop_large:
  assumes laws: "lua_laws A stk" and st: "stk L = [VStr str]" and len: "2048 \<le> length str" "length str < 2 ^ 29"
  shows "lua_message_pop A junk base len_first L 0 = Inl (Lua_Error ''Max message size exceeded'')"
proof -
  have top: "lua_gettop A L = 1" by (simp add: lua_gettop_eq [OF laws] st)
  have vt: "value_type A L 1 = (T_STRING, int (length str))"
    using value_type_slot [OF laws, of L 1 "VStr str"] by (simp add: st slot_first)
  have full: "make_room junk (c_size (int (length str) + sizeof_value)) 276 sizeof_values heap =
      Inl (Lua_Error ''Max message size exceeded'')" for heap
    using len by (simp add: make_room_def sizeof_value_def sizeof_values_def MSG_INC_SIZE_def MSG_MAX_SIZE_def Let_def)
  have "pop_loop A junk len_first L (nat 1) 1 276 sizeof_values heap = Inl (Lua_Error ''Max message size exceeded'')" for heap
    by (simp add: vt full)
  then show ?thesis
    by (simp add: lua_message_pop_def top sizeof_values_def sizeof_value_def MSG_INC_SIZE_def mem_alloc_def mem_put_def)
qed

section \<open>Properties\<close>

text \<open>C6. Marshalling round trip: if the values on top of the sender's stack are taken into a
  message, pushing the message on any Lua stack appends, in order, one value for each of them:
  booleans, numbers and strings unchanged, everything else as \<open>carried\<close> says; and the number of
  values is returned.\<close>

theorem lua_message_roundtrip:
  assumes "lua_laws A stk" and "lua_laws B stk'"
    and "stk L = below @ vs" and "span vs < 2 ^ 29"
    and "\<And>v. v \<in> set vs \<Longrightarrow> benign len_first v"
    and "lua_message_pop A junk base len_first L (int (length below)) = Inr content"
  shows "\<exists>M'. lua_message_push B M content = Inr (M', int (length vs)) \<and>
           stk' M' = stk' M @ arrivals base 4 vs"
  using assms by (rule message_transfer)

theorem lua_message_roundtrip_witness:
  "\<exists>c M'. lua_message_pop (list_api (\<lambda>f. Inr)) (\<lambda>_. 0) 4096 True [VFun 1, VBool True, VStr [104, 105]] 1 = Inr c \<and>
     lua_message_push (list_api (\<lambda>f. Inr)) [VNil] c = Inr (M', 2) \<and> M' = [VNil, VBool True, VStr [104, 105]]"
proof -
  let ?pop = "lua_message_pop (list_api (\<lambda>f. Inr)) (\<lambda>_. 0) 4096 True [VFun 1, VBool True, VStr [104, 105]]"
  have "\<not> isl (?pop 1)" by code_simp
  then obtain c where "?pop 1 = Inr c" by (auto simp: isl_def) (metis sum.exhaust)
  then have c: "?pop (int (length [VFun 1])) = Inr c" by simp
  have "\<exists>M'. lua_message_push (list_api (\<lambda>f. Inr)) [VNil] c = Inr (M', int (length [VBool True, VStr [104, 105]])) \<and>
      id M' = id [VNil] @ arrivals 4096 4 [VBool True, VStr [104, 105]]"
    by (rule lua_message_roundtrip [OF list_api_laws list_api_laws _ _ _ c])
       (auto simp: benign_def)
  with c show ?thesis by auto
qed

text \<open>C10. Memory safety of marshalling: with less than half a gigabyte of data and no table that
  is benign in the sense above, \<open>lua_message_pop\<close> never writes outside its block nor reads through
  NULL: it yields a message or raises the Lua error of the size limit.\<close>

theorem lua_message_pop_safe:
  assumes "lua_laws A stk" and "stk L = below @ vs" and "span vs < 2 ^ 29"
    and "\<And>v. v \<in> set vs \<Longrightarrow> benign len_first v"
  shows "lua_message_pop A junk base len_first L (int (length below)) = Inl (Lua_Error ''Max message size exceeded'')
    \<or> (\<exists>content. lua_message_pop A junk base len_first L (int (length below)) = Inr content)"
proof (cases "vs = []")
  case True
  with assms(2) show ?thesis
    by (simp add: lua_message_pop_def lua_gettop_eq [OF assms(1)])
next
  case False
  from lua_message_pop_result [OF assms(1,2) False assms(3,4), of junk base] show ?thesis by auto
qed

theorem lua_message_pop_safe_witness:
  "lua_message_pop (list_api (\<lambda>f. Inr)) (\<lambda>_. 0) 4096 True [VTable 1 0] (int (length ([] :: lua_value list))) =
     Inl (Lua_Error ''Max message size exceeded'')
   \<or> (\<exists>content. lua_message_pop (list_api (\<lambda>f. Inr)) (\<lambda>_. 0) 4096 True [VTable 1 0] (int (length ([] :: lua_value list))) = Inr content)"
  by (rule lua_message_pop_safe [OF list_api_laws, where vs = "[VTable 1 0]"]) (auto simp: benign_def)

text \<open>The size limit counts only growth: a message whose values carry less than 256 bytes of
  data is always accepted, in a block of 16 bytes per value plus 260, whatever the number of
  values, so that many small values make a message larger than \<open>MSG_MAX_SIZE\<close>.\<close>

theorem lua_message_pop_small:
  assumes "lua_laws A stk" and "stk L = below @ vs" and "vs \<noteq> []" and "length vs < 2 ^ 20"
    and "(\<Sum>v\<leftarrow>vs. vlen v) < 256" and "\<And>v. v \<in> set vs \<Longrightarrow> benign len_first v"
  shows "\<exists>c. lua_message_pop A junk base len_first L (int (length below)) = Inr (Some c) \<and>
           length (message c) = 16 * length vs + 260"
proof -
  note laws = assms(1)
  let ?n = "length vs" and ?hs = "16 * length vs + 260"
  have sp: "span vs = 16 * ?n + (\<Sum>v\<leftarrow>vs. vlen v)" by (induction vs) auto
  have argc: "c_int (lua_gettop A L - int (length below)) = int ?n"
    using assms(4) by (simp add: lua_gettop_eq [OF laws] assms(2))
  have size: "c_int (c_int (c_size (sizeof_values + sizeof_value * int ?n)) + MSG_INC_SIZE) = int ?hs"
    using assms(4) by (simp add: sizeof_values_def sizeof_value_def MSG_INC_SIZE_def)
  define h0 where "h0 = map junk [0..<?hs]"
  define h1 where "h1 = overlay h0 0 (le_enc 4 (nat (int ?n mod 2 ^ 32)))"
  have h0: "mem_alloc junk (int ?hs) = Inr h0" "length h0 = ?hs"
    by (auto simp: mem_alloc_def h0_def simp del: of_nat_add of_nat_mult)
  have h1: "mem_put h0 0 (le_enc 4 (nat (int ?n mod 2 ^ 32))) = Inr h1" "length h1 = ?hs"
    using h0(2) by (simp_all add: mem_put_def h1_def)
  have "\<exists>h. pop_loop A junk len_first L ?n (1 + int (length below)) (int ?hs) (int 4) h1 = Inr h \<and> length h = ?hs"
  proof (rule pop_loop_no_growth [OF laws _ assms(6)])
    show "slot (stk L) (1 + int (length below) + int k) = Some (vs ! k)" if "k < length vs" for k
      using slot_nth [of "length below + k" "stk L"] that assms(2) by (simp add: algebra_simps nth_append)
  qed (use sp assms(4,5) h1 in auto)
  then obtain h where h: "pop_loop A junk len_first L ?n (1 + int (length below)) (int ?hs) (int 4) h1 = Inr h"
    "length h = ?hs" by blast
  have "lua_message_pop A junk base len_first L (int (length below)) = Inr (Some \<lparr>message_addr = base, message = h\<rparr>)"
    using assms(3) h h0 h1 size by (simp add: lua_message_pop_def argc Let_def sizeof_values_def)
  with h(2) show ?thesis by (intro exI [of _ "\<lparr>message_addr = base, message = h\<rparr>"]) simp
qed

theorem lua_message_pop_small_witness:
  "\<exists>c. lua_message_pop (list_api (\<lambda>f. Inr)) (\<lambda>_. 0) 4096 True (replicate 200 VNil) 0 = Inr (Some c) \<and>
     int (length (message c)) = 3460 \<and> MSG_MAX_SIZE < 3460"
proof -
  have "\<exists>c. lua_message_pop (list_api (\<lambda>f. Inr)) (\<lambda>_. 0) 4096 True (replicate 200 VNil) (int (length ([] :: lua_value list))) = Inr (Some c) \<and>
     length (message c) = 16 * length (replicate 200 VNil) + 260"
    by (rule lua_message_pop_small [OF list_api_laws]) (auto simp: benign_def sum_list_replicate)
  then show ?thesis by (auto simp: MSG_MAX_SIZE_def)
qed

text \<open>A userdata does not survive a message: whatever pointer is sent as the only value, the
  receiver gets the address of the slot in the message block, 20 bytes into it.\<close>

theorem userdata_arrives_as_slot_address:
  assumes "lua_laws A stk" and "lua_laws B stk'" and "stk L = [v]"
    and "type_of_value v = LUA_TUSERDATA \<or> type_of_value v = LUA_TLIGHTUSERDATA"
    and "lua_message_pop A junk base len_first L 0 = Inr content"
  shows "\<exists>M'. lua_message_push B M content = Inr (M', 1) \<and> stk' M' = stk' M @ [VLight (base + 20)]"
proof -
  have v: "vlen v = 8" "benign len_first v" "carried (base + 20) v = VLight (base + 20)"
    using assms(4) by (cases v; simp add: benign_def)+
  have "span [v] < 2 ^ 29" using v(1) by simp
  from lua_message_pop_result [OF assms(1) _ _ this, of L "[]" len_first junk base] assms(3,5) v(2)
  obtain c where "content = Some c" "take 4 (message c) = le_enc 4 (length [v])" "entries (message c) 4 [v]"
    "length (message c) < 2 ^ 30" "message_addr c = base" by auto
  with lua_message_push_entries [OF assms(2), of c "[v]" M] v(3) show ?thesis by auto
qed

theorem userdata_arrives_as_slot_address_witness:
  "\<exists>c M'. lua_message_pop (list_api (\<lambda>f. Inr)) (\<lambda>_. 0) 4096 True [VLight 77] 0 = Inr c \<and>
     lua_message_push (list_api (\<lambda>f. Inr)) [] c = Inr (M', 1) \<and> M' = [VLight 4116]"
proof -
  let ?pop = "lua_message_pop (list_api (\<lambda>f. Inr)) (\<lambda>_. 0) 4096 True [VLight 77] 0"
  have "\<not> isl ?pop" by code_simp
  then obtain c where c: "?pop = Inr c" by (auto simp: isl_def) (metis sum.exhaust)
  from userdata_arrives_as_slot_address [OF list_api_laws list_api_laws _ _ c, where v = "VLight 77" and M = "[]"] c
  show ?thesis by auto
qed

text \<open>A table as the only value: its length decides about the room, before anything is copied.\<close>

lemma table_pop:
  assumes "lua_laws A stk" and "stk L = [VTable t n]" and "0 < n" and "n < 2 ^ 28"
  shows "1500 < n \<Longrightarrow> lua_message_pop A junk base len_first L 0 = Inl (Lua_Error ''Max message size exceeded'')"
    and "n \<le> 1500 \<Longrightarrow> lua_message_pop A junk base True L 0 = Inl Null_Deref"
    and "n \<le> 1500 \<Longrightarrow> lua_message_pop A junk base False L 0 \<noteq> Inl (Lua_Error ''Max message size exceeded'')"
proof -
  have sl: "slot (stk L) 1 = Some (VTable t n)" using assms(2) by (simp add: slot_def)
  have argc: "lua_gettop A L = 1" using assms(2) by (simp add: lua_gettop_eq [OF assms(1)])
  have tol: "lua_tolstring A L 1 = None" using lua_tolstring_other [OF assms(1) sl] by simp
  note run = lua_message_pop_def argc Let_def sizeof_values_def sizeof_value_def MSG_INC_SIZE_def MSG_MAX_SIZE_def
    mem_alloc_def mem_put_def mem_realloc_def value_type_slot [OF assms(1) sl] make_room_def put_value_def put_data_def tol
  show "1500 < n \<Longrightarrow> lua_message_pop A junk base len_first L 0 = Inl (Lua_Error ''Max message size exceeded'')"
    using assms(4) by (simp add: run)
  show "n \<le> 1500 \<Longrightarrow> lua_message_pop A junk base True L 0 = Inl Null_Deref"
    using assms(3) by (cases "n < 256") (simp_all add: run)
  show "n \<le> 1500 \<Longrightarrow> lua_message_pop A junk base False L 0 \<noteq> Inl (Lua_Error ''Max message size exceeded'')"
    using assms(3) by (cases "n < 256") (simp_all add: run)
qed

text \<open>C15. Sending a table with \<open>n\<close> array elements as the only value: more than 1500 elements exceed the size
  limit; fewer make \<open>lua_message_pop\<close> read through NULL when the compiler evaluates the length first (the
  reserved length is the table's border, and \<open>lua_tolstring\<close> gives NULL); otherwise the message is
  sent, and the receiver gets nil for the table.\<close>

theorem table_message_null_deref:
  assumes "lua_laws A stk" and "lua_laws B stk'" and "stk L = [VTable t n]" and "0 < n" and "n < 2 ^ 28"
  shows "if 1500 < n then lua_message_pop A junk base len_first L 0 = Inl (Lua_Error ''Max message size exceeded'')
    else lua_message_pop A junk base True L 0 = Inl Null_Deref \<and>
      (\<exists>c M'. lua_message_pop A junk base False L 0 = Inr (Some c) \<and>
        lua_message_push B M (Some c) = Inr (M', 1) \<and> stk' M' = stk' M @ [VNil])"
proof (cases "1500 < n")
  case True
  from table_pop(1) [OF assms(1,3-5) True] show ?thesis by (simp only: if_P [OF True])
next
  case False
  then have n: "n \<le> 1500" by simp
  have st: "stk L = [] @ [VTable t n]" and sp: "span [VTable t n] < 2 ^ 29" using assms(3) n by simp_all
  have ben: "benign False v" if "v \<in> set [VTable t n]" for v using that by (simp add: benign_def)
  from lua_message_pop_result [OF assms(1) st _ sp ben, of junk base] table_pop(3) [OF assms(1,3-5) n, of junk base]
  obtain c where c: "lua_message_pop A junk base False L 0 = Inr (Some c)" by auto
  then have "lua_message_pop A junk base False L (int (length [])) = Inr (Some c)" by simp
  from message_transfer [OF assms(1,2) st sp ben this, of M]
  have "\<exists>M'. lua_message_push B M (Some c) = Inr (M', 1) \<and> stk' M' = stk' M @ [VNil]" by simp
  with c table_pop(2) [OF assms(1,3-5) n] show ?thesis unfolding if_not_P [OF False] by blast
qed

theorem table_message_null_deref_witness:
  "lua_message_pop (list_api (\<lambda>f. Inr)) (\<lambda>_. 0) 4096 True [VTable 1 3] 0 = Inl Null_Deref \<and>
   (\<exists>c. lua_message_pop (list_api (\<lambda>f. Inr)) (\<lambda>_. 0) 4096 False [VTable 1 3] 0 = Inr (Some c) \<and>
     lua_message_push (list_api (\<lambda>f. Inr)) [] (Some c) = Inr ([VNil], 1)) \<and>
   lua_message_pop (list_api (\<lambda>f. Inr)) (\<lambda>_. 0) 4096 True [VTable 1 2000] 0 = Inl (Lua_Error ''Max message size exceeded'')"
  using table_message_null_deref [OF list_api_laws list_api_laws, of "[VTable 1 3]" 1 3 "\<lambda>f. Inr" "\<lambda>_. 0" 4096 True "\<lambda>f. Inr" "[]"]
    table_message_null_deref [OF list_api_laws list_api_laws, of "[VTable 1 2000]" 1 2000 "\<lambda>f. Inr" "\<lambda>_. 0" 4096 True "\<lambda>f. Inr" "[]"]
  by auto

end
