(* ===== verification/Mailbox.thy ===== *)
theory Mailbox
  imports Task_Queue Lua_Message
begin

text \<open>
  \<^verbatim>\<open>src/blocks/mailbox.c\<close>: mailboxes and messages in memory. Messages and mailboxes live at
  addresses and are linked by pointers as in the source; an address outside the maps of the
  world has been freed (or was never allocated). Every operation is the whole C function,
  executed without interruption; how the locked sections of several threads interleave is the
  subject of the theory \<open>Scheduler\<close>. Mutexes and condition variables have no state here; the
  condition on which a sender waits for the reply is the subject of \<open>Message_Wait\<close>.
\<close>

section \<open>Data\<close>

datatype message_state = MSG_WAITING | MSG_PROCESSING | MSG_READY | MSG_DEAD

record message =
  msg_content :: "message_content option"
  msg_sender :: "ptr option"
  msg_mailbox :: ptr
  msg_next :: "ptr option"
  msg_state :: message_state
  ref_count :: int

datatype mailbox_state = MBOX_ALIVE | MBOX_DEAD

record mailbox =
  mb_head :: "ptr option"
  mb_end :: "ptr option"
  mb_count :: "32 word"
  mb_state :: mailbox_state
  mb_task :: "ptr option"
  mb_last_message :: "message_content option"

text \<open>The memory the threads share: tasks, the pool's task queue, messages and mailboxes.\<close>

record 'L world =
  w_tasks :: "ptr \<Rightarrow> 'L task option"
  w_queue :: "ptr list"
  w_msgs :: "ptr \<Rightarrow> message option"
  w_boxes :: "ptr \<Rightarrow> mailbox option"

definition the_box :: "'L world \<Rightarrow> ptr \<Rightarrow> mailbox res" where
  "the_box w b = (case w_boxes w b of None \<Rightarrow> Inl Use_After_Free | Some mb \<Rightarrow> Inr mb)"

definition the_msg :: "'L world \<Rightarrow> ptr \<Rightarrow> message res" where
  "the_msg w p = (case w_msgs w p of None \<Rightarrow> Inl Use_After_Free | Some m \<Rightarrow> Inr m)"

definition set_box :: "'L world \<Rightarrow> ptr \<Rightarrow> mailbox \<Rightarrow> 'L world" where
  "set_box w b mb = w\<lparr>w_boxes := (w_boxes w)(b \<mapsto> mb)\<rparr>"

definition set_msg :: "'L world \<Rightarrow> ptr \<Rightarrow> message \<Rightarrow> 'L world" where
  "set_msg w p m = w\<lparr>w_msgs := (w_msgs w)(p \<mapsto> m)\<rparr>"

section \<open>Creation and the Lua registry\<close>

definition new_mailbox :: mailbox where
  "new_mailbox = \<lparr>mb_head = None, mb_end = None, mb_count = 0, mb_state = MBOX_ALIVE,
     mb_task = None, mb_last_message = None\<rparr>"

text \<open>\<open>b\<close> is the address malloc returns.\<close>

definition mailbox_init :: "'L world \<Rightarrow> 'L lua_state \<Rightarrow> ptr \<Rightarrow> 'L world \<times> 'L lua_state" where
  "mailbox_init w L b = (set_box w b new_mailbox, L\<lparr>mailbox_key := Some b\<rparr>)"

definition mailbox_register_current_message :: "'L lua_state \<Rightarrow> ptr option \<Rightarrow> 'L lua_state" where
  "mailbox_register_current_message L msg = L\<lparr>current_message_key := Some msg\<rparr>"

definition mailbox_register_parent :: "'L lua_state \<Rightarrow> ptr \<Rightarrow> 'L lua_state" where
  "mailbox_register_parent L b = L\<lparr>parent_mailbox_key := Some b\<rparr>"

definition mailbox_get :: "'L lua_state \<Rightarrow> ptr option" where
  "mailbox_get L = mailbox_key L"

definition mailbox_get_parent :: "'L lua_state \<Rightarrow> ptr option" where
  "mailbox_get_parent L = parent_mailbox_key L"

section \<open>Operations on a mailbox\<close>

definition mailbox_isactive :: "'L world \<Rightarrow> ptr \<Rightarrow> bool res" where
  "mailbox_isactive w b = bind_res (the_box w b) (\<lambda>mb. Inr (mb_state mb = MBOX_ALIVE))"

definition mailbox_set_last_message :: "'L world \<Rightarrow> ptr \<Rightarrow> message_content option \<Rightarrow> 'L world res" where
  "mailbox_set_last_message w b c =
     bind_res (the_box w b) (\<lambda>mb. Inr (set_box w b (mb\<lparr>mb_last_message := c\<rparr>)))"

definition mailbox_get_last_message :: "'L world \<Rightarrow> ptr \<Rightarrow> message_content option res" where
  "mailbox_get_last_message w b = bind_res (the_box w b) (\<lambda>mb. Inr (mb_last_message mb))"

definition mailbox_set_task :: "'L world \<Rightarrow> ptr \<Rightarrow> ptr \<Rightarrow> 'L world res" where
  "mailbox_set_task w b t = bind_res (the_box w b) (\<lambda>mb. Inr (set_box w b (mb\<lparr>mb_task := Some t\<rparr>)))"

text \<open>The first call marks the mailbox dead, the second one frees it.\<close>

definition mailbox_destroy :: "'L world \<Rightarrow> ptr \<Rightarrow> 'L world res" where
  "mailbox_destroy w b =
     bind_res (the_box w b) (\<lambda>mb.
       if mb_state mb = MBOX_DEAD then Inr (w\<lparr>w_boxes := (w_boxes w)(b := None)\<rparr>)
       else Inr (set_box w b (mb\<lparr>mb_state := MBOX_DEAD\<rparr>)))"

section \<open>The queue of messages\<close>

text \<open>The locked section of \<open>mailbox_send\<close>, on the messages and the recipient's mailbox.\<close>

definition mailbox_append ::
    "(ptr \<Rightarrow> message option) \<times> mailbox \<Rightarrow> ptr \<Rightarrow> ((ptr \<Rightarrow> message option) \<times> mailbox) res" where
  "mailbox_append = (\<lambda>(ms, mb) p.
     bind_res
       (if mb_head mb = None then Inr (ms, mb\<lparr>mb_head := Some p, mb_end := Some p\<rparr>)
        else
          (case mb_end mb of
             None \<Rightarrow> Inl Null_Deref
           | Some e \<Rightarrow>
               (case ms e of
                  None \<Rightarrow> Inl Use_After_Free
                | Some m \<Rightarrow> Inr (ms(e \<mapsto> m\<lparr>msg_next := Some p\<rparr>), mb\<lparr>mb_end := Some p\<rparr>))))
       (\<lambda>(ms', mb'). Inr (ms', mb'\<lparr>mb_count := mb_count mb' + 1\<rparr>)))"

text \<open>The locked section of \<open>mailbox_receive\<close>.\<close>

definition mailbox_take ::
    "(ptr \<Rightarrow> message option) \<times> mailbox \<Rightarrow> (ptr option \<times> mailbox) res" where
  "mailbox_take = (\<lambda>(ms, mb).
     (case mb_head mb of
        None \<Rightarrow> Inr (None, mb)
      | Some h \<Rightarrow>
          (case ms h of
             None \<Rightarrow> Inl Use_After_Free
           | Some m \<Rightarrow> Inr (Some h, mb\<lparr>mb_head := msg_next m, mb_count := mb_count mb - 1\<rparr>))))"

text \<open>
  \<open>mailbox_send\<close>: \<open>p\<close> is the address malloc returns for the message, \<open>sender\<close> and \<open>rcpt\<close> are the
  mailboxes behind the two references. The result is the message, or NULL for a dead mailbox.
\<close>

definition mailbox_send ::
    "'L world \<Rightarrow> ptr option \<Rightarrow> ptr \<Rightarrow> message_content option \<Rightarrow> ptr \<Rightarrow> ('L world \<times> ptr option) res" where
  "mailbox_send w sender rcpt content p =
     bind_res (the_box w rcpt) (\<lambda>mb.
       if mb_state mb = MBOX_DEAD then Inr (w, None)
       else
         let msg = \<lparr>msg_content = content, msg_sender = sender, msg_mailbox = rcpt, msg_next = None,
                    msg_state = MSG_WAITING, ref_count = 2\<rparr>
         in bind_res (mailbox_append ((w_msgs w)(p \<mapsto> msg), mb) p) (\<lambda>(ms', mb').
              let w1 = w\<lparr>w_msgs := ms', w_boxes := (w_boxes w)(rcpt \<mapsto> mb')\<rparr> in
              (case mb_task mb' of
                 None \<Rightarrow> Inl Null_Deref
               | Some t \<Rightarrow>
                   bind_res (process_notify_task (w_tasks w1) (w_queue w1) t) (\<lambda>(ts, q).
                     Inr (w1\<lparr>w_tasks := ts, w_queue := q\<rparr>, Some p)))))"

definition mailbox_receive :: "'L world \<Rightarrow> ptr \<Rightarrow> ('L world \<times> ptr option) res" where
  "mailbox_receive w b =
     bind_res (the_box w b) (\<lambda>mb.
     bind_res (mailbox_take (w_msgs w, mb)) (\<lambda>(m, mb'). Inr (set_box w b mb', m)))"

definition mailbox_peek :: "'L world \<Rightarrow> ptr \<Rightarrow> ptr option res" where
  "mailbox_peek w b = bind_res (the_box w b) (\<lambda>mb. Inr (mb_head mb))"

section \<open>Operations on a message\<close>

definition mailbox_message_reply :: "'L world \<Rightarrow> ptr \<Rightarrow> bool \<Rightarrow> 'L world res" where
  "mailbox_message_reply w p is_dead =
     bind_res (the_msg w p) (\<lambda>m.
       Inr (set_msg w p (m\<lparr>msg_state := (if is_dead then MSG_DEAD else MSG_READY)\<rparr>)))"

text \<open>
  The test of the loop that waits for a reply: \<open>None\<close> when the caller goes to sleep on the condition
  variable. The sleep and the signal of \<open>mailbox_message_reply\<close> are steps in \<open>Message_Wait\<close>.
\<close>

definition mailbox_wait_for_reply :: "'L world \<Rightarrow> ptr \<Rightarrow> ptr option res" where
  "mailbox_wait_for_reply w p =
     bind_res (the_msg w p) (\<lambda>m.
       Inr (if msg_state m = MSG_WAITING \<or> msg_state m = MSG_PROCESSING then None else Some p))"

definition mailbox_message_destroy :: "'L world \<Rightarrow> ptr \<Rightarrow> 'L world res" where
  "mailbox_message_destroy w p =
     bind_res (the_msg w p) (\<lambda>m.
       let m' = m\<lparr>ref_count := ref_count m - 1\<rparr> in
       if ref_count m' \<le> 0 \<and> (msg_state m' = MSG_READY \<or> msg_state m' = MSG_DEAD)
       then Inr (w\<lparr>w_msgs := (w_msgs w)(p := None)\<rparr>)
       else Inr (set_msg w p m'))"

definition mailbox_message_content_destroy :: "'L world \<Rightarrow> ptr \<Rightarrow> 'L world res" where
  "mailbox_message_content_destroy w p =
     bind_res (the_msg w p) (\<lambda>m. Inr (set_msg w p (m\<lparr>msg_content := None\<rparr>)))"

text \<open>The message argument may be NULL: the worker passes on what \<open>mailbox_receive\<close> returned.\<close>

definition mailbox_message_content_set :: "'L world \<Rightarrow> ptr option \<Rightarrow> message_content option \<Rightarrow> 'L world res" where
  "mailbox_message_content_set w p c =
     (case p of
        None \<Rightarrow> Inl Null_Deref
      | Some p \<Rightarrow> bind_res (the_msg w p) (\<lambda>m. Inr (set_msg w p (m\<lparr>msg_content := c\<rparr>))))"

definition mailbox_message_get_content :: "'L world \<Rightarrow> ptr \<Rightarrow> message_content option res" where
  "mailbox_message_get_content w p = bind_res (the_msg w p) (\<lambda>m. Inr (msg_content m))"

section \<open>The queue of a mailbox as a list\<close>

definition msg_nxt :: "(ptr \<Rightarrow> message option) \<Rightarrow> ptr \<Rightarrow> ptr option option" where
  "msg_nxt ms p = map_option msg_next (ms p)"

text \<open>The messages of a mailbox, oldest first.\<close>

fun mail :: "(ptr \<Rightarrow> message option) \<times> mailbox \<Rightarrow> ptr list" where
  "mail (ms, mb) = walk (unat (mb_count mb)) (msg_nxt ms) (mb_head mb)"

text \<open>
  The invariant: \<open>head\<close> starts a chain of distinct messages, as many as \<open>count\<close> says, and \<open>end\<close>
  is the last of them; with an empty queue \<open>end\<close> may point anywhere.
\<close>

fun mbox_wf :: "(ptr \<Rightarrow> message option) \<times> mailbox \<Rightarrow> bool" where
  "mbox_wf (ms, mb) \<longleftrightarrow>
     (let xs = mail (ms, mb) in
      chain (msg_nxt ms) (mb_head mb) xs \<and> distinct xs \<and> length xs = unat (mb_count mb) \<and>
      (xs \<noteq> [] \<longrightarrow> mb_end mb = Some (last xs)))"

text \<open>A message can be appended when it is allocated, ends a list, is not queued here, and the
  counter does not overflow.\<close>

fun mbox_fits :: "(ptr \<Rightarrow> message option) \<times> mailbox \<Rightarrow> ptr \<Rightarrow> bool" where
  "mbox_fits (ms, mb) p \<longleftrightarrow>
     msg_nxt ms p = Some None \<and> p \<notin> set (mail (ms, mb)) \<and> length (mail (ms, mb)) < 2 ^ 32 - 1"

lemma mbox_wfI:
  "chain (msg_nxt ms) (mb_head mb) xs \<Longrightarrow> distinct xs \<Longrightarrow> length xs = unat (mb_count mb) \<Longrightarrow>
   (xs \<noteq> [] \<Longrightarrow> mb_end mb = Some (last xs)) \<Longrightarrow> mbox_wf (ms, mb) \<and> mail (ms, mb) = xs"
  by (simp add: walk_chain Let_def)

lemma mbox_wfD:
  assumes "mbox_wf (ms, mb)"
  shows "chain (msg_nxt ms) (mb_head mb) (mail (ms, mb))" and "distinct (mail (ms, mb))"
    and "length (mail (ms, mb)) = unat (mb_count mb)"
    and "mail (ms, mb) \<noteq> [] \<Longrightarrow> mb_end mb = Some (last (mail (ms, mb)))"
  using assms by (simp_all add: Let_def)

lemma msg_nxt_upd: "msg_nxt (ms(p \<mapsto> m)) = (msg_nxt ms)(p := Some (msg_next m))"
  by (auto simp: msg_nxt_def)

lemma mailbox_append_ok:
  assumes wf: "mbox_wf (ms, mb)" and fits: "mbox_fits (ms, mb) p"
  shows "\<exists>ms' mb'. mailbox_append (ms, mb) p = Inr (ms', mb') \<and> mbox_wf (ms', mb') \<and>
    mail (ms', mb') = mail (ms, mb) @ [p] \<and>
    (\<forall>q. q \<notin> set (mail (ms, mb)) \<longrightarrow> ms' q = ms q) \<and>
    (\<forall>q. map_option (\<lambda>m. m\<lparr>msg_next := None\<rparr>) (ms' q) = map_option (\<lambda>m. m\<lparr>msg_next := None\<rparr>) (ms q)) \<and>
    mb_task mb' = mb_task mb \<and> mb_state mb' = mb_state mb \<and> mb_last_message mb' = mb_last_message mb"
proof -
  let ?xs = "mail (ms, mb)"
  note wfD = mbox_wfD [OF wf]
  from fits have p: "msg_nxt ms p = Some None" "p \<notin> set ?xs" and len: "length ?xs < 2 ^ 32 - 1" by simp_all
  have cnt: "unat (mb_count mb + 1) = length ?xs + 1"
  proof -
    have "unat (mb_count mb) + 1 < 2 ^ LENGTH(32)" using len wfD(3) by simp
    then show ?thesis using wfD(3) by (simp add: unat_word_ariths)
  qed
  show ?thesis
  proof (cases "?xs = []")
    case True
    then have hd: "mb_head mb = None" using wfD(1) by (simp del: mail.simps)
    let ?mb' = "mb\<lparr>mb_head := Some p, mb_end := Some p, mb_count := mb_count mb + 1\<rparr>"
    have "mbox_wf (ms, ?mb') \<and> mail (ms, ?mb') = [p]"
      using p(1) cnt True by (intro mbox_wfI) (simp_all del: mail.simps)
    moreover have "mailbox_append (ms, mb) p = Inr (ms, ?mb')"
      using hd by (simp add: mailbox_append_def)
    ultimately show ?thesis using True by (intro exI [of _ ms] exI [of _ ?mb']) (simp del: mail.simps mbox_wf.simps)
  next
    case False
    let ?l = "last ?xs"
    have hd: "mb_head mb \<noteq> None" using wfD(1) False by (cases ?xs) (auto simp del: mail.simps)
    have "?l \<in> set ?xs" using False by simp
    then obtain m where m: "ms ?l = Some m"
      using chain_allocated [OF wfD(1)] by (auto simp: msg_nxt_def simp del: mail.simps)
    have lp: "?l \<noteq> p" using p(2) \<open>?l \<in> set ?xs\<close> by metis
    let ?ms' = "ms(?l \<mapsto> m\<lparr>msg_next := Some p\<rparr>)"
    let ?mb' = "mb\<lparr>mb_end := Some p, mb_count := mb_count mb + 1\<rparr>"
    have "chain (msg_nxt ?ms') (mb_head mb) (?xs @ [p])"
      using chain_snoc [OF wfD(1,2) False p(2) p(1)] by (simp add: msg_nxt_upd del: mail.simps)
    then have "mbox_wf (?ms', ?mb') \<and> mail (?ms', ?mb') = ?xs @ [p]"
      using wfD(2) p(2) cnt by (intro mbox_wfI) (simp_all del: mail.simps)
    moreover have "mailbox_append (ms, mb) p = Inr (?ms', ?mb')"
      using hd wfD(4) [OF False] m by (auto simp: mailbox_append_def simp del: mail.simps)
    ultimately show ?thesis using m \<open>?l \<in> set ?xs\<close>
      by (intro exI [of _ ?ms'] exI [of _ ?mb']) (auto simp del: mail.simps mbox_wf.simps)
  qed
qed

lemma mailbox_take_Nil: "mbox_wf (ms, mb) \<Longrightarrow> mail (ms, mb) = [] \<Longrightarrow> mailbox_take (ms, mb) = Inr (None, mb)"
  using mbox_wfD(1) [of ms mb] by (simp add: mailbox_take_def del: mail.simps mbox_wf.simps)

lemma mailbox_take_Cons:
  assumes wf: "mbox_wf (ms, mb)" and xs: "mail (ms, mb) = x # xs"
  shows "\<exists>mb'. mailbox_take (ms, mb) = Inr (Some x, mb') \<and> mbox_wf (ms, mb') \<and> mail (ms, mb') = xs \<and>
    mb_task mb' = mb_task mb \<and> mb_state mb' = mb_state mb \<and> mb_last_message mb' = mb_last_message mb"
proof -
  note wfD = mbox_wfD [OF wf, unfolded xs]
  from wfD(1) obtain m where hd: "mb_head mb = Some x" and m: "ms x = Some m"
    and ch: "chain (msg_nxt ms) (msg_next m) xs"
    by (auto simp: msg_nxt_def)
  have "mb_count mb \<noteq> 0" using wfD(3) by auto
  then have cnt: "unat (mb_count mb - 1) = length xs" using wfD(3) by (simp add: unat_minus_one)
  let ?mb' = "mb\<lparr>mb_head := msg_next m, mb_count := mb_count mb - 1\<rparr>"
  have "mbox_wf (ms, ?mb') \<and> mail (ms, ?mb') = xs"
    using ch wfD(2,4) cnt by (intro mbox_wfI) (auto split: if_splits)
  then show ?thesis using hd m by (intro exI [of _ ?mb']) (simp add: mailbox_take_def del: mail.simps mbox_wf.simps)
qed

text \<open>The mailbox provides the queue interface.\<close>

definition enq_mail :: "(ptr \<Rightarrow> message option) \<times> mailbox \<Rightarrow> ptr \<Rightarrow> (ptr \<Rightarrow> message option) \<times> mailbox" where
  "enq_mail q p = (case mailbox_append q p of Inl e \<Rightarrow> q | Inr q' \<Rightarrow> q')"

definition deq_mail :: "(ptr \<Rightarrow> message option) \<times> mailbox \<Rightarrow> ptr option \<times> (ptr \<Rightarrow> message option) \<times> mailbox" where
  "deq_mail q = (case mailbox_take q of Inl e \<Rightarrow> (None, q) | Inr (m, mb') \<Rightarrow> (m, (fst q, mb')))"

interpretation mailq: fifo mbox_wf mail enq_mail deq_mail mbox_fits
proof
  fix q :: "(ptr \<Rightarrow> message option) \<times> mailbox" and x xs
  obtain ms mb where q: "q = (ms, mb)" by (cases q)
  show "mbox_wf (enq_mail q x)" if "mbox_wf q" "mbox_fits q x"
    using mailbox_append_ok [of ms mb x] that unfolding q
    by (auto simp: enq_mail_def simp del: mail.simps mbox_wf.simps mbox_fits.simps)
  show "mail (enq_mail q x) = mail q @ [x]" if "mbox_wf q" "mbox_fits q x"
    using mailbox_append_ok [of ms mb x] that unfolding q
    by (auto simp: enq_mail_def simp del: mail.simps mbox_wf.simps mbox_fits.simps)
  show "deq_mail q = (None, q)" if "mbox_wf q" "mail q = []"
    using mailbox_take_Nil [of ms mb] that unfolding q
    by (simp add: deq_mail_def del: mail.simps mbox_wf.simps)
  show "fst (deq_mail q) = Some x \<and> mail (snd (deq_mail q)) = xs" if "mbox_wf q" "mail q = x # xs"
    using mailbox_take_Cons [of ms mb x xs] that unfolding q
    by (auto simp: deq_mail_def simp del: mail.simps mbox_wf.simps)
  show "mbox_wf (snd (deq_mail q))" if "mbox_wf q"
    using mailbox_take_Cons [of ms mb] mailbox_take_Nil [of ms mb] that unfolding q
    by (cases "mail (ms, mb)") (auto simp: deq_mail_def simp del: mail.simps mbox_wf.simps)
qed


declare mail.simps [simp del] mbox_wf.simps [simp del] mbox_fits.simps [simp del]

section \<open>All mailboxes together\<close>

definition mail_of :: "'L world \<Rightarrow> ptr \<Rightarrow> ptr list" where
  "mail_of w b = (case w_boxes w b of None \<Rightarrow> [] | Some mb \<Rightarrow> mail (w_msgs w, mb))"

definition world_ok :: "'L world \<Rightarrow> bool" where
  "world_ok w \<longleftrightarrow>
     (\<forall>b mb. w_boxes w b = Some mb \<longrightarrow> mbox_wf (w_msgs w, mb)) \<and>
     (\<forall>b b'. b \<noteq> b' \<longrightarrow> set (mail_of w b) \<inter> set (mail_of w b') = {})"

lemma mail_cong:
  assumes "mbox_wf (ms, mb)" and "\<And>x. x \<in> set (mail (ms, mb)) \<Longrightarrow> msg_nxt ms' x = msg_nxt ms x"
  shows "mbox_wf (ms', mb) \<and> mail (ms', mb) = mail (ms, mb)"
proof -
  note wfD = mbox_wfD [OF assms(1)]
  from chain_cong [OF wfD(1)] assms(2) have "chain (msg_nxt ms') (mb_head mb) (mail (ms, mb))" by blast
  from mbox_wfI [OF this wfD(2,3,4)] show ?thesis .
qed

lemma mail_allocated: "mbox_wf (ms, mb) \<Longrightarrow> x \<in> set (mail (ms, mb)) \<Longrightarrow> ms x \<noteq> None"
  using chain_allocated [OF mbox_wfD(1)] by (auto simp: msg_nxt_def)

lemma world_ok_box: "world_ok w \<Longrightarrow> w_boxes w b = Some mb \<Longrightarrow> mbox_wf (w_msgs w, mb)"
  by (simp add: world_ok_def)

lemma world_ok_disjoint: "world_ok w \<Longrightarrow> b \<noteq> b' \<Longrightarrow> x \<in> set (mail_of w b) \<Longrightarrow> x \<notin> set (mail_of w b')"
  unfolding world_ok_def by blast

lemma mail_of_box [simp]: "w_boxes w b = Some mb \<Longrightarrow> mail_of w b = mail (w_msgs w, mb)"
  by (simp add: mail_of_def)

lemma mail_of_tasks [simp]:
  "mail_of (w\<lparr>w_tasks := ts\<rparr>) b = mail_of w b" "mail_of (w\<lparr>w_queue := q\<rparr>) b = mail_of w b"
  by (simp_all add: mail_of_def split: option.splits)

lemma world_ok_tasks [simp]:
  "world_ok (w\<lparr>w_tasks := ts\<rparr>) = world_ok w" "world_ok (w\<lparr>w_queue := q\<rparr>) = world_ok w"
  by (simp_all add: world_ok_def)

text \<open>
  Replacing one mailbox and the messages in such a way that the other queues do not notice.
\<close>

lemma world_ok_replace:
  assumes ok: "world_ok w" and wf: "mbox_wf (ms', mb')" and box: "w_boxes w b = Some mb"
    and keep: "\<And>b' x. b' \<noteq> b \<Longrightarrow> x \<in> set (mail_of w b') \<Longrightarrow> msg_nxt ms' x = msg_nxt (w_msgs w) x"
    and new: "\<And>b' x. b' \<noteq> b \<Longrightarrow> x \<in> set (mail_of w b') \<Longrightarrow> x \<notin> set (mail (ms', mb'))"
    and w': "w_msgs w' = ms'" "w_boxes w' = (w_boxes w)(b \<mapsto> mb')"
  shows "world_ok w' \<and> mail_of w' b = mail (ms', mb') \<and> (\<forall>b'. b' \<noteq> b \<longrightarrow> mail_of w' b' = mail_of w b')"
proof -
  have other: "mbox_wf (ms', mb2) \<and> mail (ms', mb2) = mail (w_msgs w, mb2)"
    if "b' \<noteq> b" "w_boxes w b' = Some mb2" for b' mb2
    by (rule mail_cong [OF world_ok_box [OF ok that(2)]]) (simp add: keep [OF that(1)] that(2))
  have same: "mail_of w' b' = mail_of w b'" if "b' \<noteq> b" for b'
    using other [OF that] that w' by (auto simp: mail_of_def split: option.splits)
  have at: "mail_of w' b = mail (ms', mb')" using w' by (simp add: mail_of_def)
  have "set (mail_of w' b1) \<inter> set (mail_of w' b2) = {}" if ne: "b1 \<noteq> b2" for b1 b2
  proof -
    have new': "b' \<noteq> b \<Longrightarrow> set (mail_of w b') \<inter> set (mail (ms', mb')) = {}" for b'
      using new by blast
    have old: "set (mail_of w b1) \<inter> set (mail_of w b2) = {}"
      using ok ne unfolding world_ok_def by blast
    consider "b1 = b" "b2 \<noteq> b" | "b1 \<noteq> b" "b2 = b" | "b1 \<noteq> b" "b2 \<noteq> b"
      using ne by blast
    then show ?thesis
      by cases (simp_all only: at same new' old Int_commute [of "set (mail (ms', mb'))"] not_False_eq_True)
  qed
  moreover have "mbox_wf (w_msgs w', mb2)" if "w_boxes w' b' = Some mb2" for b' mb2
    using other that wf w' by (cases "b' = b") auto
  ultimately show ?thesis using same at by (simp add: world_ok_def)
qed

lemma world_ok_new_msg:
  assumes "world_ok w" and "w_msgs w p = None"
  shows "\<And>b mb. w_boxes w b = Some mb \<Longrightarrow>
      mbox_wf ((w_msgs w)(p \<mapsto> m), mb) \<and> mail ((w_msgs w)(p \<mapsto> m), mb) = mail (w_msgs w, mb)"
proof -
  fix b mb assume box: "w_boxes w b = Some mb"
  note wf = world_ok_box [OF assms(1) box]
  show "mbox_wf ((w_msgs w)(p \<mapsto> m), mb) \<and> mail ((w_msgs w)(p \<mapsto> m), mb) = mail (w_msgs w, mb)"
    by (rule mail_cong [OF wf]) (use mail_allocated [OF wf, of p] assms(2) in \<open>auto simp: msg_nxt_def\<close>)
qed

lemma mail_of_allocated: "world_ok w \<Longrightarrow> x \<in> set (mail_of w b) \<Longrightarrow> w_msgs w x \<noteq> None"
  by (cases "w_boxes w b") (auto simp: mail_of_def dest: world_ok_box mail_allocated)

lemma mailbox_receive_spec:
  assumes "world_ok w" and "w_boxes w b = Some mb"
  shows "\<exists>mb'. mailbox_receive w b = Inr (set_box w b mb', case mail_of w b of [] \<Rightarrow> None | x # xs \<Rightarrow> Some x) \<and>
    world_ok (set_box w b mb') \<and> mail_of (set_box w b mb') b = tl (mail_of w b) \<and>
    (\<forall>b'. b' \<noteq> b \<longrightarrow> mail_of (set_box w b mb') b' = mail_of w b') \<and>
    mb_task mb' = mb_task mb \<and> mb_state mb' = mb_state mb \<and> mb_last_message mb' = mb_last_message mb"
proof (cases "mail_of w b")
  case Nil
  then have "mailbox_receive w b = Inr (set_box w b mb, None)"
    using assms mailbox_take_Nil [OF world_ok_box [OF assms]] by (simp add: mailbox_receive_def the_box_def)
  moreover have "set_box w b mb = w" using assms(2) by (simp add: set_box_def fun_upd_idem)
  ultimately show ?thesis using assms Nil by (intro exI [of _ mb]) simp
next
  case (Cons x xs)
  with assms obtain mb' where t: "mailbox_take (w_msgs w, mb) = Inr (Some x, mb')" "mbox_wf (w_msgs w, mb')"
    "mail (w_msgs w, mb') = xs"
    and same: "mb_task mb' = mb_task mb" "mb_state mb' = mb_state mb" "mb_last_message mb' = mb_last_message mb"
    using mailbox_take_Cons [OF world_ok_box [OF assms], of x xs] by auto
  let ?w' = "set_box w b mb'"
  have "mailbox_receive w b = Inr (?w', Some x)"
    using assms(2) t(1) by (simp add: mailbox_receive_def the_box_def)
  moreover have "world_ok ?w' \<and> mail_of ?w' b = mail (w_msgs w, mb') \<and> (\<forall>b'. b' \<noteq> b \<longrightarrow> mail_of ?w' b' = mail_of w b')"
  proof (rule world_ok_replace [OF assms(1) t(2) assms(2)])
    show "y \<notin> set (mail (w_msgs w, mb'))" if "b' \<noteq> b" "y \<in> set (mail_of w b')" for b' y
      using world_ok_disjoint [OF assms(1) that] Cons t(3) by auto
  qed (simp_all add: set_box_def)
  ultimately show ?thesis using Cons t(3) same by (intro exI [of _ mb']) (simp add: del: mail_of_box)
qed

lemma world_ok_distinct: "world_ok w \<Longrightarrow> distinct (mail_of w b)"
  by (auto simp: mail_of_def dest: world_ok_box mbox_wfD(2) split: option.splits)

text \<open>A message in no queue may change or go.\<close>

lemma world_ok_unqueued:
  assumes "world_ok w" and "\<And>b. p \<notin> set (mail_of w b)"
  shows "world_ok (w\<lparr>w_msgs := (w_msgs w)(p := x)\<rparr>) \<and> (\<forall>b. mail_of (w\<lparr>w_msgs := (w_msgs w)(p := x)\<rparr>) b = mail_of w b)"
proof -
  let ?w' = "w\<lparr>w_msgs := (w_msgs w)(p := x)\<rparr>"
  have each: "mbox_wf (w_msgs ?w', mb) \<and> mail (w_msgs ?w', mb) = mail (w_msgs w, mb)" if "w_boxes w b = Some mb" for b mb
    by (rule mail_cong [OF world_ok_box [OF assms(1) that]])
       (use assms(2) [of b] that in \<open>auto simp: msg_nxt_def\<close>)
  then have same: "mail_of ?w' b = mail_of w b" for b
    by (auto simp: mail_of_def split: option.splits)
  moreover have "world_ok ?w'"
    using assms(1) each unfolding world_ok_def by (simp add: same)
  ultimately show ?thesis by blast
qed

lemma world_ok_new_box:
  assumes ok: "world_ok w" and fresh: "w_boxes w b = None" and mb: "mb_head mb = None" "mb_count mb = 0"
    and w': "w_msgs w' = w_msgs w" "w_boxes w' = (w_boxes w)(b \<mapsto> mb)"
  shows "world_ok w' \<and> mail_of w' b = [] \<and> (\<forall>b'. b' \<noteq> b \<longrightarrow> mail_of w' b' = mail_of w b')"
proof -
  have wf: "mbox_wf (w_msgs w, mb)" "mail (w_msgs w, mb) = []"
    using mb by (simp_all add: mbox_wf.simps mail.simps)
  have at: "mail_of w' b = []" using wf w' by (simp add: mail_of_def)
  have same: "mail_of w' b' = mail_of w b'" if "b' \<noteq> b" for b'
    using that w' by (simp add: mail_of_def split: option.splits)
  have old: "mail_of w b = []" using fresh by (simp add: mail_of_def)
  have "mail_of w' b' = mail_of w b'" for b' using at same old by (cases "b' = b") simp_all
  then have "world_ok w'" using ok wf w' unfolding world_ok_def by auto
  with at same show ?thesis by blast
qed

text \<open>A reply followed by the release of the recipient's reference, as the worker does both.\<close>

definition released :: "bool \<Rightarrow> message \<Rightarrow> message option" where
  "released is_dead m =
     (if ref_count m \<le> 1 then None
      else Some (m\<lparr>msg_state := (if is_dead then MSG_DEAD else MSG_READY), ref_count := ref_count m - 1\<rparr>))"

lemma reply_release:
  assumes "w_msgs w p = Some m"
  shows "\<exists>w1. mailbox_message_reply w p d = Inr w1 \<and>
    mailbox_message_destroy w1 p = Inr (w\<lparr>w_msgs := (w_msgs w)(p := released d m)\<rparr>)"
  using assms
  by (auto simp: mailbox_message_reply_def mailbox_message_destroy_def the_msg_def set_msg_def Let_def released_def)

lemma mailbox_send_spec:
  assumes "world_ok w" and "w_boxes w rcpt = Some mb" and "mb_state mb = MBOX_ALIVE"
    and "mb_task mb = Some t" and "w_tasks w t = Some task" and "w_msgs w p = None"
    and "length (mail_of w rcpt) < 2 ^ 32 - 1"
  shows "\<exists>w'. mailbox_send w sender rcpt content p = Inr (w', Some p) \<and> world_ok w' \<and>
    mail_of w' rcpt = mail_of w rcpt @ [p] \<and> (\<forall>b. b \<noteq> rcpt \<longrightarrow> mail_of w' b = mail_of w b) \<and>
    (\<exists>m. w_msgs w' p = Some m \<and> msg_content m = content \<and> msg_state m = MSG_WAITING \<and> ref_count m = 2) \<and>
    (\<exists>task'. w_tasks w' t = Some task' \<and> task_state task' \<noteq> TASK_IDLE) \<and>
    (task_state task = TASK_IDLE \<longrightarrow> w_queue w' = w_queue w @ [t])"
proof -
  define msg where "msg = \<lparr>msg_content = content, msg_sender = sender, msg_mailbox = rcpt, msg_next = None,
      msg_state = MSG_WAITING, ref_count = 2\<rparr>"
  define ms where "ms = (w_msgs w)(p \<mapsto> msg)"
  note new = world_ok_new_msg [OF assms(1,6), of _ _ msg, folded ms_def]
  have wf: "mbox_wf (ms, mb)" and eq: "mail (ms, mb) = mail_of w rcpt"
    using new [OF assms(2)] assms(2) by simp_all
  have p: "p \<notin> set (mail_of w b)" for b
    using mail_of_allocated [OF assms(1)] assms(6) by blast
  have fits: "mbox_fits (ms, mb) p"
    using p eq assms(7) by (simp add: mbox_fits.simps msg_nxt_def ms_def msg_def)
  obtain ms' mb' where app: "mailbox_append (ms, mb) p = Inr (ms', mb')" "mbox_wf (ms', mb')"
    "mail (ms', mb') = mail (ms, mb) @ [p]" "\<forall>q. q \<notin> set (mail (ms, mb)) \<longrightarrow> ms' q = ms q"
    "mb_task mb' = mb_task mb"
    using mailbox_append_ok [OF wf fits] by blast
  define ts q where "ts = (if task_state task = TASK_IDLE then (w_tasks w)(t \<mapsto> task\<lparr>task_state := TASK_WAITING\<rparr>) else w_tasks w)"
    and "q = (if task_state task = TASK_IDLE then w_queue w @ [t] else w_queue w)"
  have notify: "process_notify_task (w_tasks w) (w_queue w) t = Inr (ts, q)"
    using assms(5) by (simp add: ts_def q_def process_notify_task_idle process_notify_task_busy)
  define w' where "w' = w\<lparr>w_msgs := ms', w_boxes := (w_boxes w)(rcpt \<mapsto> mb'), w_tasks := ts, w_queue := q\<rparr>"
  have run: "mailbox_send w sender rcpt content p = Inr (w', Some p)"
    using assms(2-4) app(1,5) notify
    by (simp add: mailbox_send_def the_box_def Let_def w'_def flip: msg_def ms_def)
  have keep: "msg_nxt ms' x = msg_nxt (w_msgs w) x" if "b \<noteq> rcpt" "x \<in> set (mail_of w b)" for b x
  proof -
    have "x \<notin> set (mail (ms, mb))" using world_ok_disjoint [OF assms(1) that] eq by simp
    moreover have "x \<noteq> p" using p that(2) by auto
    ultimately show ?thesis using app(4) by (simp add: msg_nxt_def ms_def)
  qed
  have disj: "x \<notin> set (mail (ms', mb'))" if "b \<noteq> rcpt" "x \<in> set (mail_of w b)" for b x
    using world_ok_disjoint [OF assms(1) that] p that(2) app(3) eq by auto
  have "world_ok w' \<and> mail_of w' rcpt = mail (ms', mb') \<and> (\<forall>b'. b' \<noteq> rcpt \<longrightarrow> mail_of w' b' = mail_of w b')"
    using keep disj by (rule world_ok_replace [OF assms(1) app(2) assms(2)]) (simp_all add: w'_def)
  moreover have "w_msgs w' p = Some msg"
    using app(4) p [of rcpt] eq by (simp add: w'_def ms_def)
  moreover have "\<exists>task'. w_tasks w' t = Some task' \<and> task_state task' \<noteq> TASK_IDLE"
    using assms(5) by (auto simp: w'_def ts_def)
  ultimately show ?thesis
    using run app(3) eq by (auto simp: msg_def w'_def q_def)
qed

section \<open>Properties\<close>

text \<open>C7. Sending: to a live mailbox that has a task, \<open>mailbox_send\<close> succeeds, puts the new
  message, waiting and referenced twice, behind all earlier ones, changes no other mailbox's
  queue, keeps the pointer structure well formed, and leaves the task scheduled: it is not idle.\<close>

theorem mailbox_send_ok:
  assumes "world_ok w" and "w_boxes w rcpt = Some mb" and "mb_state mb = MBOX_ALIVE"
    and "mb_task mb = Some t" and "w_tasks w t = Some task" and "w_msgs w p = None"
    and "length (mail_of w rcpt) < 2 ^ 32 - 1"
  shows "\<exists>w'. mailbox_send w sender rcpt content p = Inr (w', Some p) \<and> world_ok w' \<and>
    mail_of w' rcpt = mail_of w rcpt @ [p] \<and> (\<forall>b. b \<noteq> rcpt \<longrightarrow> mail_of w' b = mail_of w b) \<and>
    (\<exists>m. w_msgs w' p = Some m \<and> msg_content m = content \<and> msg_state m = MSG_WAITING \<and> ref_count m = 2) \<and>
    (\<exists>task'. w_tasks w' t = Some task' \<and> task_state task' \<noteq> TASK_IDLE) \<and>
    (task_state task = TASK_IDLE \<longrightarrow> w_queue w' = w_queue w @ [t])"
  using assms by (rule mailbox_send_spec)

definition sample_box :: mailbox where
  "sample_box = new_mailbox\<lparr>mb_task := Some 9\<rparr>"

definition sample_task :: "unit task" where
  "sample_task = \<lparr>task_L = \<lparr>vm = (), mailbox_key = Some 2, parent_mailbox_key = None,
     current_message_key = None\<rparr>, is_loaded = True, task_state = TASK_IDLE\<rparr>"

definition sample_world :: "unit world" where
  "sample_world = \<lparr>w_tasks = [9 \<mapsto> sample_task], w_queue = [], w_msgs = Map.empty, w_boxes = [2 \<mapsto> sample_box]\<rparr>"

lemma sample_simps:
  "w_boxes sample_world 2 = Some sample_box" "w_tasks sample_world 9 = Some sample_task"
  "w_msgs sample_world p = None" "w_queue sample_world = []"
  "mb_state sample_box = MBOX_ALIVE" "mb_task sample_box = Some 9" "task_state sample_task = TASK_IDLE"
  by (simp_all add: sample_world_def sample_box_def sample_task_def new_mailbox_def)

lemma sample_world_ok: "world_ok sample_world" "mail_of sample_world b = []"
proof -
  have "mail_of sample_world b = []" for b
    by (simp add: sample_world_def mail_of_def sample_box_def new_mailbox_def mail.simps)
  then show "world_ok sample_world" "mail_of sample_world b = []"
    by (auto simp: world_ok_def sample_world_def sample_box_def mbox_wf.simps mail.simps new_mailbox_def Let_def
        split: if_splits)
qed

theorem mailbox_send_ok_witness:
  "\<exists>w'. mailbox_send sample_world (Some 4) 2 None 50 = Inr (w', Some 50) \<and> mail_of w' 2 = [50] \<and> w_queue w' = [9]"
proof -
  have "length (mail_of sample_world 2) < 2 ^ 32 - 1" by (simp add: sample_world_ok del: mail_of_box)
  from mailbox_send_ok [OF sample_world_ok(1) sample_simps(1,5,6,2,3) this, of "Some 4" None 50]
  show ?thesis by (auto simp: sample_world_ok(2) sample_simps(4,7) simp del: mail_of_box)
qed

text \<open>C8. Receiving: \<open>mailbox_receive\<close> hands out exactly the oldest message of a mailbox and
  removes it, or returns NULL and changes nothing when there is none; other mailboxes and the
  messages themselves are untouched.\<close>

theorem mailbox_receive_ok:
  assumes "world_ok w" and "w_boxes w b = Some mb"
  shows "\<exists>w'. mailbox_receive w b = Inr (w', case mail_of w b of [] \<Rightarrow> None | x # xs \<Rightarrow> Some x) \<and> world_ok w' \<and>
    mail_of w' b = tl (mail_of w b) \<and> (\<forall>b'. b' \<noteq> b \<longrightarrow> mail_of w' b' = mail_of w b') \<and>
    w_msgs w' = w_msgs w \<and> w_tasks w' = w_tasks w \<and> w_queue w' = w_queue w"
proof -
  obtain mb' where "mailbox_receive w b = Inr (set_box w b mb', case mail_of w b of [] \<Rightarrow> None | x # xs \<Rightarrow> Some x)"
    "world_ok (set_box w b mb')" "mail_of (set_box w b mb') b = tl (mail_of w b)"
    "\<forall>b'. b' \<noteq> b \<longrightarrow> mail_of (set_box w b mb') b' = mail_of w b'"
    using mailbox_receive_spec [OF assms] by blast
  then show ?thesis by (intro exI [of _ "set_box w b mb'"]) (simp add: set_box_def)
qed

theorem mailbox_receive_ok_witness:
  "\<exists>w'. mailbox_receive sample_world 2 = Inr (w', None) \<and> mail_of w' 2 = []"
  using mailbox_receive_ok [OF sample_world_ok(1) sample_simps(1)]
  by (auto simp: sample_world_ok(2) simp del: mail_of_box)

text \<open>A dead mailbox takes no mail: \<open>mailbox_send\<close> returns NULL and changes nothing.\<close>

theorem mailbox_send_dead:
  assumes "w_boxes w rcpt = Some mb" and "mb_state mb = MBOX_DEAD"
  shows "mailbox_send w sender rcpt content p = Inr (w, None)"
  using assms by (simp add: mailbox_send_def the_box_def)


theorem mailbox_send_dead_witness:
  "mailbox_send (set_box sample_world 2 (new_mailbox\<lparr>mb_state := MBOX_DEAD\<rparr>)) None 2 None 50 =
     Inr (set_box sample_world 2 (new_mailbox\<lparr>mb_state := MBOX_DEAD\<rparr>), None)"
  by (rule mailbox_send_dead [where mb = "new_mailbox\<lparr>mb_state := MBOX_DEAD\<rparr>"]) (simp_all add: set_box_def)

section \<open>The life of a message\<close>

text \<open>
  A message is shared by the sender's Lua reference, released by its garbage collector
  (\<open>l_mailbox_message_destroy\<close>), and the recipient, which replies and then releases it (\<open>worker\<close>,
  \<open>task_destroy\<close>). The state is the memory and who still holds the message; the steps are what
  the two sides may do, in any order.
\<close>

record 'L life =
  l_world :: "'L world"
  sender_holds :: bool
  rcpt_holds :: bool
  replied :: bool

inductive life_step :: "ptr \<Rightarrow> 'L life \<Rightarrow> 'L life \<Rightarrow> bool" for p where
  reply: "rcpt_holds s \<Longrightarrow> mailbox_message_reply (l_world s) p dead = Inr w' \<Longrightarrow>
     life_step p s (s\<lparr>l_world := w', replied := True\<rparr>)"
| rcpt_release: "rcpt_holds s \<Longrightarrow> replied s \<Longrightarrow> mailbox_message_destroy (l_world s) p = Inr w' \<Longrightarrow>
     life_step p s (s\<lparr>l_world := w', rcpt_holds := False\<rparr>)"
| sender_release: "sender_holds s \<Longrightarrow> mailbox_message_destroy (l_world s) p = Inr w' \<Longrightarrow>
     life_step p s (s\<lparr>l_world := w', sender_holds := False\<rparr>)"

definition life_init :: "ptr \<Rightarrow> 'L life \<Rightarrow> bool" where
  "life_init p s \<longleftrightarrow>
     (\<exists>m. w_msgs (l_world s) p = Some m \<and> ref_count m = 2 \<and> msg_state m = MSG_WAITING) \<and>
     sender_holds s \<and> rcpt_holds s \<and> \<not> replied s"

definition life_inv :: "ptr \<Rightarrow> 'L life \<Rightarrow> bool" where
  "life_inv p s \<longleftrightarrow>
     (replied s \<or> rcpt_holds s) \<and>
     (if sender_holds s \<or> rcpt_holds s then
        \<exists>m. w_msgs (l_world s) p = Some m \<and> ref_count m = of_bool (sender_holds s) + of_bool (rcpt_holds s) \<and>
            (replied s \<longleftrightarrow> msg_state m = MSG_READY \<or> msg_state m = MSG_DEAD)
      else w_msgs (l_world s) p = None)"

lemmas life_defs = mailbox_message_reply_def mailbox_message_destroy_def the_msg_def set_msg_def Let_def

interpretation lifetime: step_system "life_init p" "life_step p" "life_inv p" for p
proof
  show "life_inv p s" if "life_init p s" for s :: "'L life"
    using that by (auto simp: life_init_def life_inv_def)
next
  fix s t :: "'L life"
  assume inv: "life_inv p s" and step: "life_step p s t"
  from step show "life_inv p t"
  proof cases
    case (reply dead w')
    with inv show ?thesis by (auto simp: life_inv_def life_defs split: option.splits if_splits)
  next
    case (rcpt_release w')
    with inv show ?thesis by (cases "sender_holds s") (auto simp: life_inv_def life_defs split: option.splits if_splits)
  next
    case (sender_release w')
    with inv show ?thesis by (cases "rcpt_holds s") (auto simp: life_inv_def life_defs split: option.splits if_splits)
  qed
qed

text \<open>C9. Reference counting: from a freshly sent message, in whatever order the recipient replies
  and releases it and the sender's garbage collector releases it, the message is allocated as
  long as one side holds it and freed when none does, and no release or reply ever touches freed
  memory.\<close>

theorem message_lifetime:
  assumes "life_init p s" and "(life_step p)\<^sup>*\<^sup>* s t"
  shows "(w_msgs (l_world t) p \<noteq> None \<longleftrightarrow> sender_holds t \<or> rcpt_holds t) \<and>
    (sender_holds t \<or> rcpt_holds t \<longrightarrow>
       (\<exists>w'. mailbox_message_destroy (l_world t) p = Inr w') \<and>
       (\<forall>dead. \<exists>w'. mailbox_message_reply (l_world t) p dead = Inr w'))"
  using lifetime.inv_reachable [OF assms] by (auto simp: life_inv_def life_defs split: if_splits)

theorem message_lifetime_witness:
  "\<exists>t :: unit life. (life_step 50)\<^sup>*\<^sup>* \<lparr>l_world = set_msg sample_world 50
       \<lparr>msg_content = None, msg_sender = None, msg_mailbox = 2, msg_next = None, msg_state = MSG_WAITING, ref_count = 2\<rparr>,
       sender_holds = True, rcpt_holds = True, replied = False\<rparr> t \<and>
     sender_holds t = False \<and> w_msgs (l_world t) 50 \<noteq> None"
proof -
  let ?m = "\<lparr>msg_content = None, msg_sender = None, msg_mailbox = 2, msg_next = None, msg_state = MSG_WAITING, ref_count = 2\<rparr>"
  let ?s = "\<lparr>l_world = set_msg sample_world 50 ?m, sender_holds = True, rcpt_holds = True, replied = False\<rparr>"
  have init: "life_init 50 ?s" by (simp add: life_init_def set_msg_def)
  obtain w' where "mailbox_message_destroy (l_world ?s) 50 = Inr w'"
    using message_lifetime [OF init rtranclp.rtrancl_refl] by auto
  then have "life_step 50 ?s (?s\<lparr>l_world := w', sender_holds := False\<rparr>)"
    by (intro life_step.sender_release) simp_all
  then have run: "(life_step 50)\<^sup>*\<^sup>* ?s (?s\<lparr>l_world := w', sender_holds := False\<rparr>)" ..
  with message_lifetime [OF init run] show ?thesis by auto
qed

end
