(* ===== verification/Lua_Util.thy ===== *)
theory Lua_Util
  imports Lua_Api
begin

text \<open>
  \<^verbatim>\<open>src/util/lua_util.c\<close>: the protected evaluation of the function on a Lua stack
  (\<open>lua_eval_part\<close>, \<open>lua_eval\<close>). The message handler \<open>traceback\<close> is only passed to the
  interpreter, so it is a name here. Log output is left out.
\<close>

section \<open>The evaluation functions\<close>

definition traceback :: nat where
  "traceback = 0"

text \<open>
  The \<open>switch\<close> on the status logs and, for a status it does not know, raises a Lua error; the
  clean-up after a failure is \<open>lua_pop (L, -1)\<close>, as the source has it.
\<close>

definition lua_eval_part :: "'L lua_api \<Rightarrow> 'L \<Rightarrow> int \<Rightarrow> int \<Rightarrow> ('L \<times> lua_status) res" where
  "lua_eval_part A L narg nres =
     (let function_index = lua_gettop A L - narg in
      if \<not> lua_isfunction A L function_index then Inr (L, LUA_ERRRUN)
      else
        let error_index = lua_gettop A L - narg;
            L1 = lua_pushcfunction A L traceback;
            L2 = lua_insert A L1 error_index;
            (L3, ret) = lua_pcall A L2 narg nres error_index;
            L4 = lua_remove A L3 error_index
        in (case ret of
              LUA_OTHER \<Rightarrow> Inl (Lua_Error ''Unknown state'')
            | _ \<Rightarrow> Inr (if ret \<noteq> LUA_OK then lua_pop A L4 (-1) else L4, ret)))"

definition lua_eval :: "'L lua_api \<Rightarrow> 'L \<Rightarrow> ('L \<times> lua_status) res" where
  "lua_eval A L = lua_eval_part A L (lua_gettop A L - 1) LUA_MULTRET"

section \<open>What they do to the stack\<close>

lemma lua_eval_part_not_function:
  "\<not> lua_isfunction A L (lua_gettop A L - narg) \<Longrightarrow> lua_eval_part A L narg nres = Inr (L, LUA_ERRRUN)"
  by (simp add: lua_eval_part_def)

lemma is_function_slot:
  "lua_laws A stk \<Longrightarrow> slot (stk L) i = Some v \<Longrightarrow> lua_isfunction A L i \<longleftrightarrow> type_of_value v = LUA_TFUNCTION"
  by (simp add: lua_isfunction_def lua_type_eq)

text \<open>
  With a function under its \<open>narg\<close> arguments there are three outcomes: success with the results
  in place of function and arguments, a known failure with an empty stack, and an unknown status.
\<close>

lemma lua_eval_part_cases:
  assumes laws: "lua_laws A stk" and st: "stk L = below @ VFun f # args"
    and nres: "nres = LUA_MULTRET \<or> 0 \<le> nres"
  obtains (ok) L' rs where "lua_eval_part A L (int (length args)) nres = Inr (L', LUA_OK)"
      and "stk L' = below @ rs" and "nres = LUA_MULTRET \<or> int (length rs) = nres"
    | (failed) L' ret where "lua_eval_part A L (int (length args)) nres = Inr (L', ret)"
      and "ret \<noteq> LUA_OK" and "stk L' = []"
    | (unknown) "lua_eval_part A L (int (length args)) nres = Inl (Lua_Error ''Unknown state'')"
proof -
  let ?n = "int (length args)"
  have idx: "lua_gettop A L - ?n = int (length below) + 1"
    by (simp add: lua_gettop_eq [OF laws] st)
  have fn: "lua_isfunction A L (int (length below) + 1)"
    using is_function_slot [OF laws] slot_mid [of below "VFun f" args] st by simp
  define L2 where "L2 = lua_insert A (lua_pushcfunction A L traceback) (int (length below) + 1)"
  have "stk (lua_pushcfunction A L traceback) = below @ (VFun f # args) @ [VFun traceback]"
    by (simp add: lua_push_eq [OF laws] st)
  then have L2: "stk L2 = (below @ [VFun traceback]) @ VFun f # args"
    unfolding L2_def by (subst lua_insert_eq [OF laws]) simp_all
  obtain L3 ret where call: "lua_pcall A L2 ?n nres (int (length below) + 1) = (L3, ret)"
    by fastforce
  obtain rs where rs: "stk L3 = (below @ [VFun traceback]) @ rs"
    "ret = LUA_OK \<Longrightarrow> nres = LUA_MULTRET \<or> int (length rs) = nres"
    by (rule lua_pcall_eq [OF laws L2 nres call]) blast
  define L4 where "L4 = lua_remove A L3 (int (length below) + 1)"
  have L4: "stk L4 = below @ rs"
    unfolding L4_def using rs by (subst lua_remove_eq [OF laws]) simp_all
  have eval: "lua_eval_part A L ?n nres =
      (case ret of LUA_OTHER \<Rightarrow> Inl (Lua_Error ''Unknown state'')
       | _ \<Rightarrow> Inr (if ret \<noteq> LUA_OK then lua_pop A L4 (-1) else L4, ret))"
    unfolding lua_eval_part_def Let_def idx using fn call by (cases ret) (simp_all add: L4_def L2_def)
  have empty: "stk (lua_pop A L4 (-1)) = []"
    by (simp add: lua_pop_def lua_settop_0 [OF laws])
  show thesis
  proof (cases "ret = LUA_OK")
    case True
    with eval L4 rs(2) show ?thesis by (intro ok [of L4 rs]) auto
  next
    case False
    show ?thesis
    proof (cases "ret = LUA_OTHER")
      case True
      with eval show ?thesis by (intro unknown) simp
    next
      case other: False
      with False eval empty show ?thesis
        by (intro failed [of "lua_pop A L4 (-1)" ret]) (cases ret, auto)
    qed
  qed
qed

lemma lua_eval_arguments:
  "lua_laws A stk \<Longrightarrow> stk L = VFun f # args \<Longrightarrow>
   lua_eval A L = lua_eval_part A L (int (length args)) LUA_MULTRET"
  by (simp add: lua_eval_def lua_gettop_eq)

lemma lua_eval_no_function:
  assumes laws: "lua_laws A stk" and st: "stk L = [] \<or> type_of_value (hd (stk L)) \<noteq> LUA_TFUNCTION"
  shows "lua_eval A L = Inr (L, LUA_ERRRUN)"
proof -
  have "\<not> lua_isfunction A L 1"
  proof (cases "stk L")
    case Nil
    then show ?thesis by (simp add: lua_isfunction_def lua_type_none [OF laws] slot_def)
  next
    case (Cons v vs)
    with st show ?thesis using is_function_slot [OF laws, of L 1 v] by (simp add: slot_first)
  qed
  then show ?thesis by (simp add: lua_eval_def lua_eval_part_def)
qed

section \<open>Properties\<close>

text \<open>A successful evaluation replaces the function and its arguments by the results and
  leaves everything below untouched; the temporary error handler is gone from the stack.\<close>

theorem lua_eval_part_success:
  assumes "lua_laws A stk" and "stk L = below @ VFun f # args"
    and "nres = LUA_MULTRET \<or> 0 \<le> nres"
    and "lua_eval_part A L (int (length args)) nres = Inr (L', LUA_OK)"
  shows "\<exists>rs. stk L' = below @ rs \<and> (nres = LUA_MULTRET \<or> int (length rs) = nres)"
  using assms(1-3) by (rule lua_eval_part_cases) (use assms(4) in auto)

theorem lua_eval_part_success_witness:
  "\<exists>rs. [VNil, VNum 5] = [VNil] @ rs \<and> ((1 :: int) = LUA_MULTRET \<or> int (length rs) = 1)"
proof -
  let ?A = "list_api (\<lambda>f args. Inr [hd args])"
  have "lua_eval_part ?A [VNil, VFun 3, VNum 5] (int (length [VNum 5])) 1 = Inr ([VNil, VNum 5], LUA_OK)"
    by (simp add: lua_eval_part_def list_api_def list_pcall_def adjust_def slot_def lua_isfunction_def Let_def)
  from lua_eval_part_success [OF list_api_laws _ _ this, of "[VNil]" 3] show ?thesis
    by simp
qed

text \<open>C16. A failed evaluation drops the whole stack of the Lua state, not only the error
  message the comment speaks of: whatever the caller kept below the function is lost.\<close>

theorem lua_eval_part_failure_clears:
  assumes "lua_laws A stk" and "stk L = below @ VFun f # args"
    and "nres = LUA_MULTRET \<or> 0 \<le> nres"
    and "lua_eval_part A L (int (length args)) nres = Inr (L', ret)" and "ret \<noteq> LUA_OK"
  shows "stk L' = []"
  using assms(1-3) by (rule lua_eval_part_cases) (use assms(4,5) in auto)

theorem lua_eval_part_failure_clears_witness:
  "lua_eval_part (list_api (\<lambda>f args. Inl VNil)) [VNum 1, VNum 2, VFun 3, VNum 5] 1 1 = Inr ([], LUA_ERRRUN) \<and>
   id ([] :: lua_value list) = []"
proof -
  let ?A = "list_api (\<lambda>f args. Inl VNil)"
  have run: "lua_eval_part ?A [VNum 1, VNum 2, VFun 3, VNum 5] (int (length [VNum 5])) 1 = Inr ([], LUA_ERRRUN)"
    by (simp add: lua_eval_part_def list_api_def list_pcall_def list_settop_def slot_def
        lua_isfunction_def lua_pop_def Let_def numeral_eq_Suc)
  from lua_eval_part_failure_clears [OF list_api_laws _ _ run, of "[VNum 1, VNum 2]" 3] run
  show ?thesis by simp
qed

end
