(* ===== verification/Lua_Copy.thy ===== *)
theory Lua_Copy
  imports Lua_Message
begin

text \<open>
  \<^verbatim>\<open>src/blocks/process.c\<close>, second part: the copy of values from the Lua state of a parent to the
  state of the task it spawns (\<open>copy_stack\<close>, \<open>copy_value\<close>, \<open>copy_table\<close>, \<open>copy_function\<close>) and the
  loader that turns a dumped function into a function again (\<open>load_string\<close>). Tables live in the
  interpreter, so the calls on them are parameters (\<open>lua_copy_api\<close>) like the rest of the API.
\<close>

section \<open>The functions of the API used for copying\<close>

text \<open>
  \<open>lua_upvalue_integer\<close> and \<open>lua_upvalue_string\<close> are \<open>lua_tointeger\<close> and \<open>lua_tolstring\<close> at
  \<open>lua_upvalueindex (i)\<close>; \<open>lua_dump\<close> gives the chunks it passes to its writer, or \<open>None\<close> when it
  reports an error; \<open>lua_settable\<close> may raise an error (a nil key).
\<close>

record 'L lua_copy_api =
  luaL_newstate :: 'L
  lua_tointeger :: "'L \<Rightarrow> int \<Rightarrow> int"
  lua_isnumber :: "'L \<Rightarrow> int \<Rightarrow> bool"
  lua_pushinteger :: "'L \<Rightarrow> int \<Rightarrow> 'L"
  lua_newtable :: "'L \<Rightarrow> 'L"
  lua_next :: "'L \<Rightarrow> int \<Rightarrow> 'L \<times> bool"
  lua_settable :: "'L \<Rightarrow> int \<Rightarrow> 'L res"
  lua_dump :: "'L \<Rightarrow> byte list list option"
  lua_pushcclosure :: "'L \<Rightarrow> nat \<Rightarrow> int \<Rightarrow> 'L"
  lua_upvalue_integer :: "'L \<Rightarrow> nat \<Rightarrow> int"
  lua_upvalue_string :: "'L \<Rightarrow> nat \<Rightarrow> byte list"
  luaL_loadbuffer :: "'L \<Rightarrow> byte list \<Rightarrow> 'L \<times> lua_status"

section \<open>Functions\<close>

text \<open>
  \<open>load_string\<close> runs in the new state with the size and the dump as upvalues and leaves the loaded
  function; every status but \<open>LUA_OK\<close> raises an error.
\<close>

definition load_string_id :: nat where
  "load_string_id = 1"

definition load_string :: "'L lua_copy_api \<Rightarrow> 'L \<Rightarrow> ('L \<times> int) res" where
  "load_string C L =
     (let fn_dump_size = lua_upvalue_integer C L 1;
          fn_dump = lua_upvalue_string C L 2;
          (L1, ret) = luaL_loadbuffer C L fn_dump
      in if ret = LUA_OK then Inr (L1, 1)
         else if ret = LUA_ERRMEM \<or> ret = LUA_ERRSYNTAX then Inl (Lua_Error ''load'')
         else Inl (Lua_Error ''Unexpected state''))"

text \<open>The writer appends each chunk to the buffer and reports success.\<close>

definition function_writer :: "byte list \<Rightarrow> byte list \<Rightarrow> byte list" where
  "function_writer b B = B @ b"

definition copy_function ::
    "'L lua_api \<Rightarrow> 'L lua_copy_api \<Rightarrow> 'L \<Rightarrow> 'L \<Rightarrow> int \<Rightarrow> ('L \<times> 'L) res" where
  "copy_function A C src dst index =
     (let src1 = lua_pushvalue A src index in
      if lua_type A src1 index \<noteq> LUA_TFUNCTION then Inl (Lua_Error ''function expected'')
      else
        (case lua_dump C src1 of
           None \<Rightarrow> Inl (Lua_Error ''Could not dump function'')
         | Some chunks \<Rightarrow>
             let src2 = lua_pushlstring A src1 (fold function_writer chunks []);
                 fn_size = lua_rawlen A src2 (-1)
             in (case lua_tolstring A src2 (-1) of
                   None \<Rightarrow> Inl Null_Deref
                 | Some fn_dump \<Rightarrow>
                     let dst1 = lua_pushinteger C dst fn_size;
                         dst2 = lua_pushlstring A dst1 fn_dump;
                         src3 = lua_pop A src2 2
                     in Inr (src3, lua_pushcclosure C dst2 load_string_id 2))))"

section \<open>Values and tables\<close>

text \<open>
  The two functions call each other, and \<open>copy_table\<close> loops over the entries of a table that may
  contain itself; \<open>n\<close> bounds the depth and the number of entries, and running out of it is the
  outcome \<open>Diverges\<close>. \<open>lua_pushstring\<close> pushes nil for NULL.
\<close>

definition copy_key :: "'L lua_api \<Rightarrow> 'L lua_copy_api \<Rightarrow> 'L \<Rightarrow> 'L \<Rightarrow> 'L" where
  "copy_key A C src dst =
     (if lua_isnumber C src (-2) then lua_pushinteger C dst (lua_tointeger C src (-2))
      else (case lua_tolstring A src (-2) of
              None \<Rightarrow> lua_pushnil A dst
            | Some s \<Rightarrow> lua_pushlstring A dst (takeWhile (\<lambda>b. b \<noteq> 0) s)))"

fun copy_value :: "'L lua_api \<Rightarrow> 'L lua_copy_api \<Rightarrow> nat \<Rightarrow> 'L \<Rightarrow> 'L \<Rightarrow> int \<Rightarrow> ('L \<times> 'L) res"
and copy_table_loop :: "'L lua_api \<Rightarrow> 'L lua_copy_api \<Rightarrow> nat \<Rightarrow> 'L \<Rightarrow> 'L \<Rightarrow> int \<Rightarrow> ('L \<times> 'L) res" where
  "copy_value A C 0 src dst index = Inl Diverges"
| "copy_value A C (Suc n) src dst index =
     (case lua_type A src index of
        LUA_TFUNCTION \<Rightarrow> copy_function A C src dst index
      | LUA_TNUMBER \<Rightarrow> Inr (src, lua_pushnumber A dst (lua_tonumber A src index))
      | LUA_TBOOLEAN \<Rightarrow> Inr (src, lua_pushboolean A dst (lua_toboolean A src index))
      | LUA_TNIL \<Rightarrow> Inr (src, lua_pushnil A dst)
      | LUA_TNONE \<Rightarrow> Inr (src, dst)
      | LUA_TSTRING \<Rightarrow>
          (case lua_tolstring A src index of
             None \<Rightarrow> Inl Null_Deref
           | Some str \<Rightarrow> Inr (src, lua_pushlstring A dst str))
      | LUA_TUSERDATA \<Rightarrow> Inr (src, lua_pushlightuserdata A dst (lua_touserdata A src index))
      | LUA_TLIGHTUSERDATA \<Rightarrow> Inr (src, lua_pushlightuserdata A dst (lua_touserdata A src index))
      | LUA_TTABLE \<Rightarrow> copy_table_loop A C n (lua_pushnil A src) (lua_newtable C dst) index
      | LUA_TTHREAD \<Rightarrow> Inr (src, lua_pushnil A dst))"
| "copy_table_loop A C 0 src dst index = Inl Diverges"
| "copy_table_loop A C (Suc n) src dst index =
     (case lua_next C src index of
        (src1, False) \<Rightarrow> Inr (src1, dst)
      | (src1, True) \<Rightarrow>
          let type = lua_type A src1 (-1);
              dst1 = copy_key A C src1 dst
          in bind_res
               (copy_value A C n src1 dst1 (if type = LUA_TTABLE then lua_gettop A src1 else -1))
               (\<lambda>(src2, dst2).
             bind_res (lua_settable C dst2 (-3)) (\<lambda>dst3.
             copy_table_loop A C n (lua_pop A src2 1) dst3 index)))"

text \<open>\<open>copy_table\<close> pushes the first key and the new table and then loops.\<close>

definition copy_table :: "'L lua_api \<Rightarrow> 'L lua_copy_api \<Rightarrow> nat \<Rightarrow> 'L \<Rightarrow> 'L \<Rightarrow> int \<Rightarrow> ('L \<times> 'L) res" where
  "copy_table A C n src dst index = copy_table_loop A C n (lua_pushnil A src) (lua_newtable C dst) index"

fun copy_stack_loop :: "'L lua_api \<Rightarrow> 'L lua_copy_api \<Rightarrow> nat \<Rightarrow> nat \<Rightarrow> int \<Rightarrow> 'L \<Rightarrow> 'L \<Rightarrow> ('L \<times> 'L) res" where
  "copy_stack_loop A C fuel 0 i src dst = Inr (src, dst)"
| "copy_stack_loop A C fuel (Suc n) i src dst =
     bind_res (copy_value A C fuel src dst i) (\<lambda>(src', dst'). copy_stack_loop A C fuel n (i + 1) src' dst')"

definition copy_stack :: "'L lua_api \<Rightarrow> 'L lua_copy_api \<Rightarrow> nat \<Rightarrow> 'L \<Rightarrow> 'L \<Rightarrow> ('L \<times> 'L) res" where
  "copy_stack A C fuel src dst =
     (if \<not> lua_isfunction A src 1 then Inl (Lua_Error ''Argument 1 must be a function'')
      else copy_stack_loop A C fuel (nat (lua_gettop A src)) 1 src dst)"


section \<open>What the copy relies on\<close>

definition copy_laws ::
    "'L lua_copy_api \<Rightarrow> ('L \<Rightarrow> lua_value list) \<Rightarrow> (int \<Rightarrow> 64 word) \<Rightarrow> (nat \<Rightarrow> bool) \<Rightarrow> bool" where
  "copy_laws C stk enc dumpable \<longleftrightarrow>
     stk (luaL_newstate C) = [] \<and>
     (\<forall>L n. stk (lua_pushinteger C L n) = stk L @ [VNum (enc n)]) \<and>
     (\<forall>L xs ys f. stk L = xs @ ys \<longrightarrow> stk (lua_pushcclosure C L f (int (length ys))) = xs @ [VFun f]) \<and>
     (\<forall>L xs f. stk L = xs @ [VFun f] \<and> dumpable f \<longrightarrow> lua_dump C L \<noteq> None)"

lemma copy_laws_D:
  assumes "copy_laws C stk enc dumpable"
  shows "stk (luaL_newstate C) = []"
    and "stk (lua_pushinteger C L n) = stk L @ [VNum (enc n)]"
    and "stk L = xs @ [v, v'] \<Longrightarrow> stk (lua_pushcclosure C L f 2) = xs @ [VFun f]"
    and "stk L = xs @ [VFun g] \<Longrightarrow> dumpable g \<Longrightarrow> \<exists>chunks. lua_dump C L = Some chunks"
proof -
  show "stk (lua_pushcclosure C L f 2) = xs @ [VFun f]" if "stk L = xs @ [v, v']"
  proof -
    have "stk L = xs @ [v, v'] \<longrightarrow> stk (lua_pushcclosure C L f (int (length [v, v']))) = xs @ [VFun f]"
      using assms unfolding copy_laws_def by blast
    with that show ?thesis by simp
  qed
qed (use assms in \<open>auto simp: copy_laws_def\<close>)

lemma lua_pop_eq: "lua_laws A stk \<Longrightarrow> stk L = xs @ ys \<Longrightarrow> stk (lua_pop A L (int (length ys))) = xs"
  by (simp add: lua_pop_def lua_laws_def move_laws_def)

text \<open>The values that are copied without following a table, and what they become.\<close>

fun flat :: "(nat \<Rightarrow> bool) \<Rightarrow> lua_value \<Rightarrow> bool" where
  "flat dumpable (VTable t n) = False"
| "flat dumpable (VFun f) = dumpable f"
| "flat dumpable _ = True"

fun copied :: "lua_value \<Rightarrow> lua_value" where
  "copied (VFun f) = VFun load_string_id"
| "copied (VUser p n) = VLight p"
| "copied (VThread t) = VNil"
| "copied v = v"

lemma copy_function_ok:
  assumes laws: "lua_laws A stk" "copy_laws C stk enc dumpable"
    and sl: "slot (stk src) (int i) = Some (VFun f)" "dumpable f"
  shows "\<exists>src' dst'. copy_function A C src dst (int i) = Inr (src', dst') \<and> stk src' = stk src \<and>
    stk dst' = stk dst @ [VFun load_string_id]"
proof -
  define src1 where "src1 = lua_pushvalue A src (int i)"
  have s1: "stk src1 = stk src @ [VFun f]" by (simp add: src1_def lua_push_eq(7) [OF laws(1) sl(1)])
  have "slot (stk src1) (int i) = Some (VFun f)"
    using sl(1) by (auto simp: s1 slot_def nth_append split: if_splits)
  then have type: "lua_type A src1 (int i) = LUA_TFUNCTION" by (simp add: lua_type_eq [OF laws(1)])
  obtain chunks where dump: "lua_dump C src1 = Some chunks"
    using copy_laws_D(4) [OF laws(2) s1 sl(2)] by blast
  define s where "s = fold function_writer chunks []"
  define src2 where "src2 = lua_pushlstring A src1 s"
  have s2: "stk src2 = stk src @ [VFun f, VStr s]" by (simp add: src2_def lua_push_eq [OF laws(1)] s1)
  have top: "slot (stk src2) (-1) = Some (VStr s)" using slot_top [of "stk src @ [VFun f]" "VStr s"] s2 by simp
  define dst2 where "dst2 = lua_pushlstring A (lua_pushinteger C dst (lua_rawlen A src2 (-1))) s"
  have "stk dst2 = stk dst @ [VNum (enc (lua_rawlen A src2 (-1))), VStr s]"
    by (simp add: dst2_def lua_push_eq [OF laws(1)] copy_laws_D(2) [OF laws(2)])
  note closure = copy_laws_D(3) [OF laws(2) this, of load_string_id]
  have "stk (lua_pop A src2 2) = stk src"
    using lua_pop_eq [OF laws(1) s2] by simp
  with closure show ?thesis
    using type dump lua_to_value(5) [OF laws(1) top]
    by (simp add: copy_function_def Let_def flip: src1_def s_def src2_def dst2_def)
qed

lemma copy_value_flat:
  assumes laws: "lua_laws A stk" "copy_laws C stk enc dumpable"
    and sl: "slot (stk src) (int i) = Some v" "flat dumpable v"
  shows "\<exists>src' dst'. copy_value A C (Suc n) src dst (int i) = Inr (src', dst') \<and> stk src' = stk src \<and>
    stk dst' = stk dst @ [copied v]"
proof (cases "\<exists>f. v = VFun f")
  case True
  then obtain f where "v = VFun f" by blast
  with sl copy_function_ok [OF laws, of src i f dst] show ?thesis by (simp add: lua_type_eq [OF laws(1)])
next
  case False
  with sl show ?thesis
    by (cases v) (simp_all add: lua_type_eq [OF laws(1)] lua_to_value [OF laws(1)] lua_push_eq [OF laws(1)])
qed

lemma copy_stack_loop_flat:
  assumes laws: "lua_laws A stk" "copy_laws C stk enc dumpable"
  shows "stk src = xs @ vs \<Longrightarrow> (\<And>v. v \<in> set vs \<Longrightarrow> flat dumpable v) \<Longrightarrow>
    \<exists>src' dst'. copy_stack_loop A C (Suc n) (length vs) (int (length xs) + 1) src dst = Inr (src', dst') \<and>
      stk src' = stk src \<and> stk dst' = stk dst @ map copied vs"
proof (induction vs arbitrary: xs src dst)
  case Nil
  then show ?case by simp
next
  case (Cons v vs)
  have "slot (stk src) (int (length xs + 1)) = Some v" using slot_mid [of xs v vs] Cons.prems(1) by (simp add: add.commute)
  from copy_value_flat [OF laws this, of n dst] Cons.prems(2) obtain src1 dst1 where v:
    "copy_value A C (Suc n) src dst (int (length xs + 1)) = Inr (src1, dst1)"
    "stk src1 = stk src" "stk dst1 = stk dst @ [copied v]" by auto
  have "stk src1 = (xs @ [v]) @ vs" using v(2) Cons.prems(1) by simp
  from Cons.IH [OF this, of dst1] Cons.prems(2) v(2) obtain src' dst' where
    "copy_stack_loop A C (Suc n) (length vs) (int (length (xs @ [v])) + 1) src1 dst1 = Inr (src', dst')"
    "stk src' = stk src" "stk dst' = stk dst1 @ map copied vs" by auto
  with v show ?case by (simp add: add.commute)
qed

text \<open>A C function has no dump; then \<open>copy_function\<close> raises an error, and so does the copy of the stack.\<close>

definition dump_fails :: "'L lua_copy_api \<Rightarrow> ('L \<Rightarrow> lua_value list) \<Rightarrow> (nat \<Rightarrow> bool) \<Rightarrow> bool" where
  "dump_fails C stk dumpable \<longleftrightarrow> (\<forall>L xs f. stk L = xs @ [VFun f] \<and> \<not> dumpable f \<longrightarrow> lua_dump C L = None)"

lemma copy_function_fails:
  assumes laws: "lua_laws A stk" "dump_fails C stk dumpable"
    and sl: "slot (stk src) (int i) = Some (VFun f)" "\<not> dumpable f"
  shows "copy_function A C src dst (int i) = Inl (Lua_Error ''Could not dump function'')"
proof -
  define src1 where "src1 = lua_pushvalue A src (int i)"
  have s1: "stk src1 = stk src @ [VFun f]" by (simp add: src1_def lua_push_eq(7) [OF laws(1) sl(1)])
  have "slot (stk src1) (int i) = Some (VFun f)"
    using sl(1) by (auto simp: s1 slot_def nth_append split: if_splits)
  then have "lua_type A src1 (int i) = LUA_TFUNCTION" by (simp add: lua_type_eq [OF laws(1)])
  moreover have "lua_dump C src1 = None" using laws(2) s1 sl(2) by (simp add: dump_fails_def)
  ultimately show ?thesis by (simp add: copy_function_def Let_def flip: src1_def)
qed

lemma copy_stack_loop_fails:
  assumes laws: "lua_laws A stk" "copy_laws C stk enc dumpable" "dump_fails C stk dumpable"
  shows "stk src = xs @ vs \<Longrightarrow> (\<And>v. v \<in> set vs \<Longrightarrow> flat (\<lambda>_. True) v) \<Longrightarrow> \<not> list_all (flat dumpable) vs \<Longrightarrow>
    copy_stack_loop A C (Suc n) (length vs) (int (length xs) + 1) src dst = Inl (Lua_Error ''Could not dump function'')"
proof (induction vs arbitrary: xs src dst)
  case (Cons v vs)
  have sl: "slot (stk src) (int (length xs + 1)) = Some v" using slot_mid [of xs v vs] Cons.prems(1) by (simp add: add.commute)
  show ?case
  proof (cases "flat dumpable v")
    case True
    from copy_value_flat [OF laws(1,2) sl this, of n dst] obtain src1 dst1 where v:
      "copy_value A C (Suc n) src dst (int (length xs + 1)) = Inr (src1, dst1)" "stk src1 = stk src" by auto
    have "stk src1 = (xs @ [v]) @ vs" using v(2) Cons.prems(1) by simp
    from Cons.IH [OF this, of dst1] Cons.prems(2,3) True v(1) show ?thesis by (simp add: add.commute)
  next
    case False
    with Cons.prems(2) [of v] obtain f where f: "v = VFun f" "\<not> dumpable f" by (cases v) auto
    then have "lua_type A src (int (length xs + 1)) = LUA_TFUNCTION" using lua_type_eq [OF laws(1) sl] by simp
    moreover have "copy_function A C src dst (int (length xs + 1)) = Inl (Lua_Error ''Could not dump function'')"
      using copy_function_fails [OF laws(1,3)] sl f by blast
    ultimately have "copy_value A C (Suc n) src dst (int (length xs + 1)) = Inl (Lua_Error ''Could not dump function'')" by simp
    then show ?thesis by (simp add: add.commute)
  qed
qed simp

section \<open>A concrete instance\<close>

definition list_copy_api :: "lua_value list lua_copy_api" where
  "list_copy_api =
     \<lparr>luaL_newstate = [],
      lua_tointeger = (\<lambda>st i. case slot_or_nil st i of VNum n \<Rightarrow> sint n | _ \<Rightarrow> 0),
      lua_isnumber = (\<lambda>st i. case slot_or_nil st i of VNum n \<Rightarrow> True | _ \<Rightarrow> False),
      lua_pushinteger = (\<lambda>st n. st @ [VNum (word_of_int n)]),
      lua_newtable = (\<lambda>st. st @ [VTable 0 0]),
      lua_next = (\<lambda>st i. (butlast st, False)),
      lua_settable = (\<lambda>st i. Inr (take (length st - 2) st)),
      lua_dump = (\<lambda>st. case last st of VFun f \<Rightarrow> Some [[27], [word_of_nat f]] | _ \<Rightarrow> None),
      lua_pushcclosure = (\<lambda>st f n. take (length st - nat n) st @ [VFun f]),
      lua_upvalue_integer = (\<lambda>st i. 2),
      lua_upvalue_string = (\<lambda>st i. [27, 3]),
      luaL_loadbuffer = (\<lambda>st s. (st @ [VFun 3], LUA_OK))\<rparr>"

lemma list_copy_laws: "copy_laws list_copy_api id word_of_int (\<lambda>_. True)"
  by (auto simp: copy_laws_def list_copy_api_def)

section \<open>Properties\<close>



end
