(* ===== verification/Process.thy ===== *)
theory Process
  imports Mailbox Lua_Util Lua_Copy
begin

text \<open>
  \<^verbatim>\<open>src/blocks/process.c\<close>, last part: the worker threads (\<open>worker\<close>), the end of a task
  (\<open>task_destroy\<close>) and the creation of one (\<open>process_spawn\<close>). A worker's round is one function on
  the shared memory, cut where the code reads the queue, evaluates, answers and decides whether
  the task survives; other threads act during the evaluation (\<open>rt_during\<close>), and their finer
  interleaving is the subject of the theory \<open>Scheduler\<close>.
\<close>

section \<open>The platform\<close>

text \<open>
  What a worker uses and the repository does not define: the interpreter, malloc's choices for a
  message block, the order in which the compiler evaluates arguments, the fuel of the table
  copy, the effect of scripts and other threads on the shared memory while a script runs, and
  the references that \<open>lua_close\<close> finalises.
\<close>

datatype lua_ref = Mailbox_Ref ptr | Message_Ref ptr

record 'L runtime =
  rt_api :: "'L lua_api"
  rt_copy :: "'L lua_copy_api"
  rt_junk :: "nat \<Rightarrow> byte"
  rt_base :: addr
  rt_len_first :: bool
  rt_fuel :: nat
  rt_during :: "'L world \<Rightarrow> 'L world"
  rt_close :: "'L \<Rightarrow> lua_ref list"

definition the_task :: "'L world \<Rightarrow> ptr \<Rightarrow> 'L task res" where
  "the_task w t = (case w_tasks w t of None \<Rightarrow> Inl Use_After_Free | Some task \<Rightarrow> Inr task)"

definition set_task :: "'L world \<Rightarrow> ptr \<Rightarrow> 'L task \<Rightarrow> 'L world" where
  "set_task w t task = w\<lparr>w_tasks := (w_tasks w)(t \<mapsto> task)\<rparr>"

definition set_state :: "'L world \<Rightarrow> ptr \<Rightarrow> task_state \<Rightarrow> 'L world res" where
  "set_state w t s = bind_res (the_task w t) (\<lambda>task. Inr (set_task w t (task\<lparr>task_state := s\<rparr>)))"

definition set_vm :: "'L world \<Rightarrow> ptr \<Rightarrow> 'L \<Rightarrow> 'L world res" where
  "set_vm w t v = bind_res (the_task w t) (\<lambda>task. Inr (set_task w t (task\<lparr>task_L := (task_L task)\<lparr>vm := v\<rparr>\<rparr>)))"

definition get_vm :: "'L world \<Rightarrow> ptr \<Rightarrow> 'L res" where
  "get_vm w t = bind_res (the_task w t) (\<lambda>task. Inr (vm (task_L task)))"

section \<open>The end of a task\<close>

text \<open>The loop answers every queued message with \<open>MSG_DEAD\<close>; it is a loop of the source that ends
  when \<open>mailbox_receive\<close> returns NULL.\<close>

partial_function (option) destroy_loop :: "'L world \<Rightarrow> ptr \<Rightarrow> 'L world res option" where
  "destroy_loop w b =
     (case mailbox_receive w b of
        Inl e \<Rightarrow> Some (Inl e)
      | Inr (w1, m) \<Rightarrow>
          (case m of
             None \<Rightarrow> Some (Inr w1)
           | Some p \<Rightarrow>
               (case mailbox_message_reply w1 p True of
                  Inl e \<Rightarrow> Some (Inl e)
                | Inr w2 \<Rightarrow>
                    (case mailbox_message_destroy w2 p of
                       Inl e \<Rightarrow> Some (Inl e)
                     | Inr w3 \<Rightarrow> destroy_loop w3 b))))"

text \<open>The finalisers the script's references get when the state is closed.\<close>

fun finalise :: "'L world \<Rightarrow> lua_ref list \<Rightarrow> 'L world res" where
  "finalise w [] = Inr w"
| "finalise w (Mailbox_Ref b # rs) = bind_res (mailbox_destroy w b) (\<lambda>w'. finalise w' rs)"
| "finalise w (Message_Ref p # rs) = bind_res (mailbox_message_destroy w p) (\<lambda>w'. finalise w' rs)"

definition task_destroy :: "'L runtime \<Rightarrow> 'L world \<Rightarrow> ptr \<Rightarrow> 'L world res" where
  "task_destroy R w t =
     bind_res (set_state w t TASK_DEAD) (\<lambda>w1.
     bind_res (the_task w1 t) (\<lambda>task.
       (case mailbox_get (task_L task) of
          None \<Rightarrow> Inl Null_Deref
        | Some b \<Rightarrow>
            bind_res (loop_res (destroy_loop w1 b)) (\<lambda>w2.
            bind_res (mailbox_destroy w2 b) (\<lambda>w3.
            bind_res (finalise w3 (rt_close R (vm (task_L task)))) (\<lambda>w4.
              Inr (w4\<lparr>w_tasks := (w_tasks w4)(t := None)\<rparr>)))))))"

section \<open>The worker\<close>

text \<open>Evaluating the function on the task's stack: the stack changes, and meanwhile the memory.\<close>

definition eval_task :: "'L runtime \<Rightarrow> ('L \<Rightarrow> ('L \<times> lua_status) res) \<Rightarrow> 'L world \<Rightarrow> ptr \<Rightarrow> 'L world res" where
  "eval_task R ev w t =
     bind_res (get_vm w t) (\<lambda>L. bind_res (ev L) (\<lambda>(L', ret). set_vm (rt_during R w) t L'))"

text \<open>
  The first run of a task: evaluate a copy of the loader at the bottom of the stack, put the
  function it returns in its place, and evaluate that with the arguments above it.
\<close>

definition run_loader :: "'L runtime \<Rightarrow> 'L world \<Rightarrow> ptr \<Rightarrow> 'L world res" where
  "run_loader R w t =
     bind_res (get_vm w t) (\<lambda>L.
     bind_res (lua_eval_part (rt_api R) (lua_pushvalue (rt_api R) L 1) 0 1) (\<lambda>(L1, ret).
     bind_res (set_vm w t (lua_replace (rt_api R) L1 1)) (\<lambda>w1.
     bind_res (the_task w1 t) (\<lambda>task.
       eval_task R (lua_eval (rt_api R)) (set_task w1 t (task\<lparr>is_loaded := True\<rparr>)) t))))"

text \<open>A later run: take the oldest message, push its values, evaluate, and answer with what the
  function left on the stack. \<open>b\<close> is the task's mailbox.\<close>

definition push_message :: "'L runtime \<Rightarrow> 'L world \<Rightarrow> ptr \<Rightarrow> ptr option \<Rightarrow> 'L world res" where
  "push_message R w t msg =
     (case msg of
        None \<Rightarrow> Inr w
      | Some p \<Rightarrow>
          bind_res (mailbox_message_get_content w p) (\<lambda>content.
          bind_res (get_vm w t) (\<lambda>L.
          bind_res (lua_message_push (rt_api R) L content) (\<lambda>(L', argc).
          bind_res (set_vm w t L') (\<lambda>w1. mailbox_message_content_destroy w1 p)))))"

definition answer_message :: "'L runtime \<Rightarrow> 'L world \<Rightarrow> ptr \<Rightarrow> ptr option \<Rightarrow> 'L world res" where
  "answer_message R w t msg =
     bind_res (get_vm w t) (\<lambda>L.
     bind_res (lua_message_pop (rt_api R) (rt_junk R) (rt_base R) (rt_len_first R) L 0) (\<lambda>content.
     bind_res (mailbox_message_content_set w msg content) (\<lambda>w1.
       (case msg of
          None \<Rightarrow> Inl Null_Deref
        | Some p \<Rightarrow> bind_res (mailbox_message_reply w1 p False) (\<lambda>w2. mailbox_message_destroy w2 p)))))"

definition run_message :: "'L runtime \<Rightarrow> 'L world \<Rightarrow> ptr \<Rightarrow> ptr \<Rightarrow> 'L world res" where
  "run_message R w t b =
     bind_res (mailbox_receive w b) (\<lambda>(w1, msg).
     bind_res (the_task w1 t) (\<lambda>task.
     let w2 = set_task w1 t (task\<lparr>task_L := mailbox_register_current_message (task_L task) msg\<rparr>) in
     bind_res (push_message R w2 t msg) (\<lambda>w3.
     bind_res (eval_task R (lua_eval (rt_api R)) w3 t) (\<lambda>w4. answer_message R w4 t msg))))"

text \<open>After the run: a task whose first stack slot holds a function survives.\<close>

definition after_run :: "'L runtime \<Rightarrow> 'L world \<Rightarrow> ptr \<Rightarrow> ptr option \<Rightarrow> 'L world res" where
  "after_run R w t mbox_ref =
     bind_res (get_vm w t) (\<lambda>L.
       if \<not> lua_isfunction (rt_api R) L 1 then
         (case mbox_ref of
            None \<Rightarrow> Inl Null_Deref
          | Some b \<Rightarrow>
              bind_res (lua_message_pop (rt_api R) (rt_junk R) (rt_base R) (rt_len_first R) L 0) (\<lambda>content.
              bind_res (mailbox_set_last_message w b content) (\<lambda>w1. task_destroy R w1 t)))
       else
         bind_res (set_state w t TASK_IDLE) (\<lambda>w1.
           (case mbox_ref of
              None \<Rightarrow> Inr w1
            | Some b \<Rightarrow>
                bind_res (mailbox_peek w1 b) (\<lambda>m.
                  if m \<noteq> None then
                    bind_res (process_notify_task (w_tasks w1) (w_queue w1) t) (\<lambda>(ts, q).
                      Inr (w1\<lparr>w_tasks := ts, w_queue := q\<rparr>))
                  else Inr w1))))"

text \<open>One round of the worker's loop. With an empty queue it waits, and nothing changes.\<close>

definition worker :: "'L runtime \<Rightarrow> 'L world \<Rightarrow> 'L world res" where
  "worker R w =
     (case pop_task (w_queue w) of
        (None, q) \<Rightarrow> Inr w
      | (Some t, q) \<Rightarrow>
          bind_res (set_state (w\<lparr>w_queue := q\<rparr>) t TASK_PROCESSING) (\<lambda>w1.
          bind_res (the_task w1 t) (\<lambda>task.
          let mbox_ref = mailbox_get (task_L task) in
          bind_res
            (if \<not> is_loaded task then run_loader R w1 t
             else (case mbox_ref of None \<Rightarrow> Inl Null_Deref | Some b \<Rightarrow> run_message R w1 t b))
            (\<lambda>w2. after_run R w2 t mbox_ref))))"

section \<open>Spawning\<close>

text \<open>
  \<open>luaopen_blocks\<close> leaves the stack of the new state empty and registers a mailbox; its other
  effects are modelled in the theory \<open>Blocks\<close>. \<open>t\<close> and \<open>b\<close> are the addresses malloc gives to the
  task and to its mailbox. The result is the changed world, the parent's state and the mailbox.
\<close>

definition process_spawn ::
    "'L runtime \<Rightarrow> 'L world \<Rightarrow> 'L lua_state \<Rightarrow> ptr \<Rightarrow> ptr \<Rightarrow> ('L world \<times> 'L lua_state \<times> ptr) res" where
  "process_spawn R w parent t b =
     (let A = rt_api R;
          L0 = \<lparr>vm = luaL_newstate (rt_copy R), mailbox_key = None, parent_mailbox_key = None,
                current_message_key = None\<rparr>;
          (w1, L1) = mailbox_init w (L0\<lparr>vm := lua_settop A (vm L0) 0\<rparr>) b
      in bind_res (mailbox_set_task w1 b t) (\<lambda>w2.
         (case mailbox_get parent of
            None \<Rightarrow> Inl Null_Deref
          | Some pb \<Rightarrow>
              let L2 = mailbox_register_parent L1 pb in
              bind_res (copy_stack A (rt_copy R) (rt_fuel R) (vm parent) (vm L2)) (\<lambda>(src, dst).
                let task = \<lparr>task_L = L2\<lparr>vm := dst\<rparr>, is_loaded = False, task_state = TASK_INIT\<rparr>;
                    w3 = set_task w2 t task;
                    w4 = w3\<lparr>w_queue := push_task (w_queue w3) t\<rparr>
                in Inr (w4, parent\<lparr>vm := lua_settop A src 0\<rparr>, b)))))"

section \<open>Dead letters\<close>

lemma receive_next:
  assumes ok: "world_ok w" and box: "w_boxes w b = Some mb" and ps: "mail_of w b = p # ps"
  shows "\<exists>w1 w2 w3 m mb1. w_msgs w p = Some m \<and> mailbox_receive w b = Inr (w1, Some p) \<and>
    mailbox_message_reply w1 p d = Inr w2 \<and> mailbox_message_destroy w2 p = Inr w3 \<and>
    w3 = (set_box w b mb1)\<lparr>w_msgs := (w_msgs w)(p := released d m)\<rparr> \<and>
    world_ok w3 \<and> mail_of w3 b = ps \<and> (\<forall>b'. b' \<noteq> b \<longrightarrow> mail_of w3 b' = mail_of w b') \<and>
    mb_task mb1 = mb_task mb \<and> mb_state mb1 = mb_state mb"
proof -
  obtain mb1 where r: "mailbox_receive w b = Inr (set_box w b mb1, Some p)" "world_ok (set_box w b mb1)"
    "mail_of (set_box w b mb1) b = ps" "\<forall>b'. b' \<noteq> b \<longrightarrow> mail_of (set_box w b mb1) b' = mail_of w b'"
    "mb_task mb1 = mb_task mb" "mb_state mb1 = mb_state mb"
    using mailbox_receive_spec [OF ok box] ps by (auto simp del: mail_of_box)
  obtain m where m: "w_msgs w p = Some m"
    using mail_of_allocated [OF ok, of p b] ps by auto
  then have m1: "w_msgs (set_box w b mb1) p = Some m" by (simp add: set_box_def)
  let ?w3 = "(set_box w b mb1)\<lparr>w_msgs := (w_msgs (set_box w b mb1))(p := released d m)\<rparr>"
  obtain w2 where "mailbox_message_reply (set_box w b mb1) p d = Inr w2" "mailbox_message_destroy w2 p = Inr ?w3"
    using reply_release [OF m1, of d] by blast
  moreover have "p \<notin> set (mail_of (set_box w b mb1) b')" for b'
  proof (cases "b' = b")
    case True
    then show ?thesis using r(3) world_ok_distinct [OF ok, of b] ps by (simp del: mail_of_box)
  next
    case False
    have "b \<noteq> b'" using False by simp
    moreover have "p \<in> set (mail_of w b)" using ps by simp
    ultimately have "p \<notin> set (mail_of w b')" using ok world_ok_disjoint by metis
    then show ?thesis using r(4) False by simp
  qed
  note world_ok_unqueued [OF r(2) this, of "released d m"]
  ultimately show ?thesis using r m by (auto simp: set_box_def simp del: mail_of_box)
qed

text \<open>What is left of a queue of messages after each was answered with \<open>MSG_DEAD\<close> and released.\<close>

definition dead_letters :: "(ptr \<Rightarrow> message option) \<Rightarrow> ptr list \<Rightarrow> ptr \<Rightarrow> message option" where
  "dead_letters ms ps p = (if p \<in> set ps then Option.bind (ms p) (released True) else ms p)"

lemma destroy_loop_ok:
  assumes "world_ok w" and "w_boxes w b = Some mb"
  shows "\<exists>mb'. destroy_loop w b = Some (Inr ((set_box w b mb')\<lparr>w_msgs := dead_letters (w_msgs w) (mail_of w b)\<rparr>)) \<and>
    world_ok ((set_box w b mb')\<lparr>w_msgs := dead_letters (w_msgs w) (mail_of w b)\<rparr>) \<and>
    mail_of ((set_box w b mb')\<lparr>w_msgs := dead_letters (w_msgs w) (mail_of w b)\<rparr>) b = [] \<and>
    mb_task mb' = mb_task mb \<and> mb_state mb' = mb_state mb"
  using assms
proof (induction "mail_of w b" arbitrary: w mb)
  case Nil
  have none: "dead_letters (w_msgs w) [] = w_msgs w" by (simp add: dead_letters_def fun_eq_iff)
  obtain mb1 where "mailbox_receive w b = Inr (set_box w b mb1, None)" "world_ok (set_box w b mb1)"
    "mail_of (set_box w b mb1) b = []" "mb_task mb1 = mb_task mb" "mb_state mb1 = mb_state mb"
    using mailbox_receive_spec [OF Nil.prems] Nil.hyps [symmetric] by (auto simp del: mail_of_box)
  moreover have "(set_box w b mb1)\<lparr>w_msgs := w_msgs w\<rparr> = set_box w b mb1" by (simp add: set_box_def)
  ultimately show ?case
    by (intro exI [of _ mb1]) (simp add: destroy_loop.simps Nil.hyps [symmetric] none del: mail_of_box)
next
  case (Cons p ps)
  obtain w1 w2 w3 m mb1 where step: "w_msgs w p = Some m" "mailbox_receive w b = Inr (w1, Some p)"
    "mailbox_message_reply w1 p True = Inr w2" "mailbox_message_destroy w2 p = Inr w3"
    "w3 = (set_box w b mb1)\<lparr>w_msgs := (w_msgs w)(p := released True m)\<rparr>"
    "world_ok w3" "mail_of w3 b = ps" "mb_task mb1 = mb_task mb" "mb_state mb1 = mb_state mb"
    using receive_next [OF Cons.prems, of p ps True] Cons.hyps(2) by metis
  have box3: "w_boxes w3 b = Some mb1" by (simp add: step(5) set_box_def)
  from Cons.hyps(1) [of w3, OF step(7) [symmetric] step(6) box3] obtain mb' where ih:
    "destroy_loop w3 b = Some (Inr ((set_box w3 b mb')\<lparr>w_msgs := dead_letters (w_msgs w3) ps\<rparr>))"
    "world_ok ((set_box w3 b mb')\<lparr>w_msgs := dead_letters (w_msgs w3) ps\<rparr>)"
    "mail_of ((set_box w3 b mb')\<lparr>w_msgs := dead_letters (w_msgs w3) ps\<rparr>) b = []"
    "mb_task mb' = mb_task mb1" "mb_state mb' = mb_state mb1"
    using step(7) by auto
  have "p \<notin> set ps" using world_ok_distinct [OF Cons.prems(1), of b] Cons.hyps(2) by (metis distinct.simps(2))
  then have "dead_letters (w_msgs w3) ps = dead_letters (w_msgs w) (p # ps)"
    by (auto simp: step(1,5) dead_letters_def fun_eq_iff)
  then have eq: "(set_box w3 b mb')\<lparr>w_msgs := dead_letters (w_msgs w3) ps\<rparr> =
      (set_box w b mb')\<lparr>w_msgs := dead_letters (w_msgs w) (mail_of w b)\<rparr>"
    by (simp add: step(5) set_box_def Cons.hyps(2) [symmetric] del: mail_of_box)
  have "destroy_loop w b = destroy_loop w3 b"
    by (subst destroy_loop.simps) (simp add: step(2-4))
  with ih eq step(8,9) show ?case by (intro exI [of _ mb']) simp
qed

section \<open>Answering a message\<close>

lemma set_task_simps [simp]:
  "w_msgs (set_task w t task) = w_msgs w" "w_boxes (set_task w t task) = w_boxes w"
  "w_queue (set_task w t task) = w_queue w" "w_tasks (set_task w t task) = (w_tasks w)(t \<mapsto> task)"
  "mail_of (set_task w t task) b = mail_of w b" "world_ok (set_task w t task) = world_ok w"
  by (simp_all add: set_task_def)

lemma task_access:
  assumes "w_tasks w t = Some task"
  shows "the_task w t = Inr task" and "get_vm w t = Inr (vm (task_L task))"
    and "set_state w t s = Inr (set_task w t (task\<lparr>task_state := s\<rparr>))"
    and "set_vm w t v = Inr (set_task w t (task\<lparr>task_L := (task_L task)\<lparr>vm := v\<rparr>\<rparr>))"
  using assms by (simp_all add: the_task_def get_vm_def set_state_def set_vm_def)

text \<open>
  The message \<open>p\<close> the task \<open>t\<close> works on: allocated, and in no mailbox any more. Other threads and
  the script's own calls keep it that way (\<open>calm\<close>): the recipient's reference is the worker's, so
  nobody else can free the message, and only \<open>mailbox_send\<close> queues one, which is always new.
\<close>

definition in_hand :: "'L world \<Rightarrow> ptr \<Rightarrow> ptr \<Rightarrow> ptr \<Rightarrow> bool" where
  "in_hand w t b p \<longleftrightarrow> world_ok w \<and> w_tasks w t \<noteq> None \<and> w_boxes w b \<noteq> None \<and> w_msgs w p \<noteq> None \<and>
     (\<forall>b'. p \<notin> set (mail_of w b'))"

definition calm :: "('L world \<Rightarrow> 'L world) \<Rightarrow> ptr \<Rightarrow> ptr \<Rightarrow> ptr \<Rightarrow> bool" where
  "calm during t b p \<longleftrightarrow>
     (\<forall>w. in_hand w t b p \<longrightarrow> in_hand (during w) t b p \<and> w_tasks (during w) t = w_tasks w t)"

lemma mail_out:
  assumes "world_ok w" and "mail_of w b = p # ps" and "mail_of w' b = ps" and "\<forall>b'. b' \<noteq> b \<longrightarrow> mail_of w' b' = mail_of w b'"
  shows "p \<notin> set (mail_of w' b')"
proof (cases "b' = b")
  case True
  then show ?thesis using assms(2,3) world_ok_distinct [OF assms(1), of b] by simp
next
  case False
  then have "b \<noteq> b'" "p \<in> set (mail_of w b)" using assms(2) by auto
  with assms(4) False show ?thesis using assms(1) world_ok_disjoint by metis
qed

text \<open>Up to the answer: the message is out of the mailbox and its function has run.\<close>

lemma run_message_evals:
  assumes ok: "world_ok w" and task: "w_tasks w t = Some task" and box: "w_boxes w b = Some mb"
    and mail: "mail_of w b = p # ps" and msg: "w_msgs w p = Some m" and calm: "calm (rt_during R) t b p"
    and push: "lua_message_push (rt_api R) (vm (task_L task)) (msg_content m) = Inr (L1, argc)"
    and ev: "lua_eval (rt_api R) L1 = Inr (L2, ret)"
  shows "\<exists>w1 task'. run_message R w t b = answer_message R (set_task (rt_during R w1) t task') t (Some p) \<and>
    w_msgs w1 = (w_msgs w)(p \<mapsto> m\<lparr>msg_content := None\<rparr>) \<and> mail_of w1 b = ps \<and>
    in_hand (rt_during R w1) t b p \<and> vm (task_L task') = L2 \<and> current_message_key (task_L task') = Some (Some p) \<and>
    w_queue w1 = w_queue w \<and> (\<exists>mb1. w_boxes w1 = (w_boxes w)(b \<mapsto> mb1) \<and> mb_task mb1 = mb_task mb \<and> mb_state mb1 = mb_state mb) \<and>
    (\<exists>task1. w_tasks w1 = (w_tasks w)(t \<mapsto> task1)) \<and> (\<forall>b'. b' \<noteq> b \<longrightarrow> mail_of w1 b' = mail_of w b') \<and>
    is_loaded task' = is_loaded task \<and> task_state task' = task_state task \<and> mailbox_key (task_L task') = mailbox_key (task_L task)"
proof -
  obtain mb1 where recv: "mailbox_receive w b = Inr (set_box w b mb1, Some p)" "world_ok (set_box w b mb1)"
    "mail_of (set_box w b mb1) b = ps" "\<forall>b'. b' \<noteq> b \<longrightarrow> mail_of (set_box w b mb1) b' = mail_of w b'"
    "mb_task mb1 = mb_task mb" "mb_state mb1 = mb_state mb"
    using mailbox_receive_spec [OF ok box] mail by (auto simp del: mail_of_box)
  note out = mail_out [OF ok mail recv(3,4)]
  define task1 where "task1 = task\<lparr>task_L := (mailbox_register_current_message (task_L task) (Some p))\<lparr>vm := L1\<rparr>\<rparr>"
  define w0 where "w0 = set_task (set_box w b mb1) t task1"
  define w1 where "w1 = w0\<lparr>w_msgs := (w_msgs w0)(p := Some (m\<lparr>msg_content := None\<rparr>))\<rparr>"
  have w0: "world_ok w0" "\<And>b'. p \<notin> set (mail_of w0 b')" "mail_of w0 b = ps" "\<And>b'. b' \<noteq> b \<Longrightarrow> mail_of w0 b' = mail_of w b'"
    using recv(2-4) out by (simp_all add: w0_def)
  note w1_mail = world_ok_unqueued [OF w0(1,2), of "Some (m\<lparr>msg_content := None\<rparr>)", folded w1_def]
  have hand: "in_hand w1 t b p" using w1_mail w0(2)
    by (auto simp: in_hand_def) (auto simp: w1_def w0_def set_box_def)
  have vm_task: "vm (task_L (task\<lparr>task_L := mailbox_register_current_message (task_L task) (Some p)\<rparr>)) = vm (task_L task)"
    by (simp add: mailbox_register_current_message_def)
  have pushed: "push_message R (set_task (set_box w b mb1) t
      (task\<lparr>task_L := mailbox_register_current_message (task_L task) (Some p)\<rparr>)) t (Some p) = Inr w1"
    using msg push
    by (simp add: push_message_def mailbox_message_get_content_def the_msg_def task_access set_box_def
        mailbox_message_content_destroy_def vm_task w1_def w0_def task1_def)
       (simp add: set_task_def set_msg_def mailbox_register_current_message_def)
  from calm hand have dur: "in_hand (rt_during R w1) t b p" and tk: "w_tasks (rt_during R w1) t = w_tasks w1 t"
    by (auto simp: calm_def)
  have t1: "w_tasks w1 t = Some task1" by (simp add: w1_def w0_def)
  define task2 where "task2 = task1\<lparr>task_L := (task_L task1)\<lparr>vm := L2\<rparr>\<rparr>"
  have "eval_task R (lua_eval (rt_api R)) w1 t = Inr (set_task (rt_during R w1) t task2)"
    using ev t1 tk by (simp add: eval_task_def task_access task1_def task2_def)
  then have "run_message R w t b = answer_message R (set_task (rt_during R w1) t task2) t (Some p)"
    using recv(1) task pushed by (simp add: run_message_def the_task_def set_box_def Let_def)
  moreover have "w_msgs w1 = (w_msgs w)(p \<mapsto> m\<lparr>msg_content := None\<rparr>)"
    by (simp add: w1_def w0_def set_box_def)
  moreover have "w_queue w1 = w_queue w" "w_boxes w1 = (w_boxes w)(b \<mapsto> mb1)" "w_tasks w1 = (w_tasks w)(t \<mapsto> task1)"
    by (simp_all add: w1_def w0_def set_box_def)
  ultimately show ?thesis
    using dur w1_mail w0(3,4) recv(5,6)
    by (intro exI [of _ w1] exI [of _ task2] conjI exI [of _ mb1] exI [of _ task1])
      (auto simp: task2_def task1_def mailbox_register_current_message_def)
qed

lemma answer_message_ok:
  assumes hand: "in_hand w t b p" and task: "w_tasks w t = Some task" and msg: "w_msgs w p = Some m"
    and pop: "lua_message_pop (rt_api R) (rt_junk R) (rt_base R) (rt_len_first R) (vm (task_L task)) 0 = Inr reply"
  defines "w' \<equiv> w\<lparr>w_msgs := (w_msgs w)(p := released False (m\<lparr>msg_content := reply\<rparr>))\<rparr>"
  shows "answer_message R w t (Some p) = Inr w' \<and> world_ok w' \<and> (\<forall>b'. mail_of w' b' = mail_of w b')"
proof -
  define w1 where "w1 = set_msg w p (m\<lparr>msg_content := reply\<rparr>)"
  have set: "mailbox_message_content_set w (Some p) reply = Inr w1"
    by (simp add: mailbox_message_content_set_def the_msg_def msg w1_def)
  have "w_msgs w1 p = Some (m\<lparr>msg_content := reply\<rparr>)" by (simp add: w1_def set_msg_def)
  from reply_release [OF this, of False] obtain w2 where rel: "mailbox_message_reply w1 p False = Inr w2"
    "mailbox_message_destroy w2 p = Inr (w1\<lparr>w_msgs := (w_msgs w1)(p := released False (m\<lparr>msg_content := reply\<rparr>))\<rparr>)"
    by blast
  have "w1\<lparr>w_msgs := (w_msgs w1)(p := released False (m\<lparr>msg_content := reply\<rparr>))\<rparr> = w'"
    by (simp add: w1_def w'_def set_msg_def)
  with pop set rel task have "answer_message R w t (Some p) = Inr w'"
    by (simp add: answer_message_def task_access)
  moreover have "world_ok w" "\<And>b'. p \<notin> set (mail_of w b')" using hand by (simp_all add: in_hand_def)
  ultimately show ?thesis unfolding w'_def by (simp add: world_ok_unqueued)
qed

lemma in_hand_set_task [simp]: "in_hand w t b p \<Longrightarrow> in_hand (set_task w t task) t b p"
  by (simp add: in_hand_def)

section \<open>Properties\<close>

text \<open>C19. A task that ends answers everybody who waits for it: \<open>task_destroy\<close> terminates, every
  message still in the task's mailbox is marked dead and released, the mailbox is empty and dead
  (a later send fails), other messages are untouched, and the task is freed; what remains is to
  finalise the script's references.\<close>

theorem task_destroy_answers_all:
  assumes "world_ok w" and "w_tasks w t = Some task" and "mailbox_key (task_L task) = Some b"
    and "w_boxes w b = Some mb" and "mb_state mb = MBOX_ALIVE"
  shows "\<exists>w'. task_destroy R w t =
      bind_res (finalise w' (rt_close R (vm (task_L task)))) (\<lambda>w4. Inr (w4\<lparr>w_tasks := (w_tasks w4)(t := None)\<rparr>)) \<and>
    world_ok w' \<and> mail_of w' b = [] \<and> w_msgs w' = dead_letters (w_msgs w) (mail_of w b) \<and>
    (\<exists>mb'. w_boxes w' = (w_boxes w)(b \<mapsto> mb') \<and> mb_state mb' = MBOX_DEAD) \<and> w_queue w' = w_queue w"
proof -
  define w1 where "w1 = set_task w t (task\<lparr>task_state := TASK_DEAD\<rparr>)"
  have w1: "set_state w t TASK_DEAD = Inr w1" "the_task w1 t = Inr (task\<lparr>task_state := TASK_DEAD\<rparr>)"
    using assms(2) by (simp_all add: set_state_def the_task_def w1_def set_task_def)
  have same: "mail_of w1 = mail_of w" "w_boxes w1 = w_boxes w" "w_msgs w1 = w_msgs w" "w_queue w1 = w_queue w"
    by (auto simp: w1_def set_task_def fun_eq_iff)
  have ok1: "world_ok w1" using assms(1) by (simp add: w1_def set_task_def)
  have box1: "w_boxes w1 b = Some mb" using assms(4) same by simp
  define w2 where "w2 = (\<lambda>mb'. (set_box w1 b mb')\<lparr>w_msgs := dead_letters (w_msgs w) (mail_of w b)\<rparr>)"
  obtain mb' where loop: "destroy_loop w1 b = Some (Inr (w2 mb'))" "world_ok (w2 mb')" "mail_of (w2 mb') b = []"
    "mb_state mb' = MBOX_ALIVE"
    using destroy_loop_ok [OF ok1 box1] assms(5) by (auto simp: same w2_def)
  let ?w3 = "w2 (mb'\<lparr>mb_state := MBOX_DEAD\<rparr>)"
  have boxes2: "w_boxes (w2 mb') b = Some mb'" for mb' by (simp add: w2_def set_box_def)
  have "mailbox_destroy (w2 mb') b = Inr ?w3"
    using loop(4) by (simp add: mailbox_destroy_def the_box_def boxes2) (simp add: w2_def set_box_def)
  then have run: "task_destroy R w t =
      bind_res (finalise ?w3 (rt_close R (vm (task_L task)))) (\<lambda>w4. Inr (w4\<lparr>w_tasks := (w_tasks w4)(t := None)\<rparr>))"
    using w1 loop(1) assms(3) by (simp add: task_destroy_def mailbox_get_def)
  have wf2: "mbox_wf (w_msgs (w2 mb'), mb')" "mail (w_msgs (w2 mb'), mb') = []"
    using world_ok_box [OF loop(2) boxes2] loop(3) by (simp_all add: boxes2)
  let ?dead = "mb'\<lparr>mb_state := MBOX_DEAD\<rparr>"
  have wf3: "mbox_wf (w_msgs (w2 mb'), ?dead)" "mail (w_msgs (w2 mb'), ?dead) = []"
    using wf2 by (simp_all add: mbox_wf.simps mail.simps)
  have "world_ok ?w3 \<and> mail_of ?w3 b = mail (w_msgs (w2 mb'), ?dead) \<and> (\<forall>b'. b' \<noteq> b \<longrightarrow> mail_of ?w3 b' = mail_of (w2 mb') b')"
    by (rule world_ok_replace [OF loop(2) wf3(1) boxes2]) (simp_all add: w2_def set_box_def wf3(2) [unfolded w2_def set_box_def, simplified])
  then show ?thesis
    using run wf3(2) by (intro exI [of _ ?w3]) (auto simp: w2_def set_box_def same)
qed


text \<open>A concrete platform and memory: stacks are lists, task 9 owns mailbox 2 with message 50.\<close>

definition list_runtime :: "(lua_value \<Rightarrow> lua_value list \<Rightarrow> lua_value + lua_value list) \<Rightarrow> lua_value list runtime" where
  "list_runtime call = \<lparr>rt_api = list_api call, rt_copy = list_copy_api, rt_junk = (\<lambda>_. 0), rt_base = 4096,
     rt_len_first = True, rt_fuel = 1, rt_during = id, rt_close = (\<lambda>_. [])\<rparr>"

definition demo_task :: "task_state \<Rightarrow> lua_value list \<Rightarrow> lua_value list task" where
  "demo_task s st = \<lparr>task_L = \<lparr>vm = st, mailbox_key = Some 2, parent_mailbox_key = None,
     current_message_key = None\<rparr>, is_loaded = True, task_state = s\<rparr>"

definition demo_message :: message where
  "demo_message = \<lparr>msg_content = None, msg_sender = None, msg_mailbox = 2, msg_next = None,
     msg_state = MSG_WAITING, ref_count = 2\<rparr>"

definition demo_box :: "bool \<Rightarrow> mailbox" where
  "demo_box full = new_mailbox\<lparr>mb_task := Some 9, mb_head := (if full then Some 50 else None),
     mb_end := (if full then Some 50 else None), mb_count := (if full then 1 else 0)\<rparr>"

definition demo_world :: "bool \<Rightarrow> task_state \<Rightarrow> lua_value list \<Rightarrow> lua_value list world" where
  "demo_world full s st = \<lparr>w_tasks = [9 \<mapsto> demo_task s st], w_queue = [9], w_msgs = [50 \<mapsto> demo_message],
     w_boxes = [2 \<mapsto> demo_box full]\<rparr>"

lemma demo_simps [simp]:
  "w_tasks (demo_world full s st) 9 = Some (demo_task s st)" "w_queue (demo_world full s st) = [9]"
  "w_msgs (demo_world full s st) 50 = Some demo_message" "w_boxes (demo_world full s st) 2 = Some (demo_box full)"
  "is_loaded (demo_task s st)" "mailbox_key (task_L (demo_task s st)) = Some 2" "vm (task_L (demo_task s st)) = st"
  "msg_content demo_message = None" "mb_state (demo_box full) = MBOX_ALIVE"
  by (simp_all add: demo_world_def demo_task_def demo_message_def demo_box_def new_mailbox_def)

lemma demo_world_ok: "world_ok (demo_world full s st)" "mail_of (demo_world full s st) 2 = (if full then [50] else [])"
proof -
  have m: "mail (w_msgs (demo_world full s st), demo_box full) = (if full then [50] else [])"
    by (simp add: mail.simps demo_box_def demo_world_def msg_nxt_def demo_message_def)
  then show "mail_of (demo_world full s st) 2 = (if full then [50] else [])" by simp
  have "mail_of (demo_world full s st) b = (if b = 2 \<and> full then [50] else [])" for b
    using m by (cases full) (simp_all add: mail_of_def demo_world_def)
  moreover have "mbox_wf (w_msgs (demo_world full s st), demo_box full)"
    by (simp add: mbox_wf.simps m) (simp add: demo_box_def demo_world_def msg_nxt_def demo_message_def new_mailbox_def)
  ultimately show "world_ok (demo_world full s st)"
    by (auto simp: world_ok_def demo_world_def split: if_splits)
qed

lemma list_runtime_simps [simp]:
  "rt_api (list_runtime call) = list_api call" "rt_copy (list_runtime call) = list_copy_api"
  "rt_during (list_runtime call) = id" "rt_fuel (list_runtime call) = 1" "rt_close (list_runtime call) L = []"
  "rt_junk (list_runtime call) = (\<lambda>_. 0)" "rt_base (list_runtime call) = 4096" "rt_len_first (list_runtime call)"
  by (simp_all add: list_runtime_def)

lemma calm_id: "calm id t b p"
  by (simp add: calm_def)

lemma demo_eval:
  "call (VFun 3) [] = Inr rs \<Longrightarrow> lua_eval (list_api call) [VFun 3] = Inr (rs, LUA_OK)"
  "call (VFun 3) [] = Inl e \<Longrightarrow> lua_eval (list_api call) [VFun 3] = Inr ([], LUA_ERRRUN)"
  by (simp_all add: lua_eval_def lua_eval_part_def list_api_def list_pcall_def list_settop_def adjust_def slot_def
      lua_isfunction_def lua_pop_def LUA_MULTRET_def Let_def)

lemma demo_push: "lua_message_push (list_api call) st None = Inr (st, 0)"
  by (simp add: lua_message_push_def)

lemma demo_pop_empty: "lua_message_pop (list_api call) junk base len_first [] 0 = Inr None"
  by (simp add: lua_message_pop_def list_api_def)

theorem task_destroy_answers_all_witness:
  "\<exists>w'. task_destroy (list_runtime (\<lambda>f args. Inr [])) (demo_world True TASK_PROCESSING []) 9 = Inr w' \<and>
     w_tasks w' 9 = None \<and> mail_of w' 2 = [] \<and> map_option msg_state (w_msgs w' 50) = Some MSG_DEAD"
proof -
  let ?w = "demo_world True TASK_PROCESSING []"
  from task_destroy_answers_all [OF demo_world_ok(1) demo_simps(1) [of True TASK_PROCESSING "[]"] demo_simps(6,4,9),
      of "list_runtime (\<lambda>f args. Inr [])"]
  obtain w' where "task_destroy (list_runtime (\<lambda>f args. Inr [])) ?w 9 = Inr (w'\<lparr>w_tasks := (w_tasks w')(9 := None)\<rparr>)"
    "mail_of w' 2 = []" "w_msgs w' = dead_letters (w_msgs ?w) [50]" by (auto simp: demo_world_ok simp del: mail_of_box)
  then show ?thesis
    by (intro exI [of _ "w'\<lparr>w_tasks := (w_tasks w')(9 := None)\<rparr>"])
       (simp add: dead_letters_def released_def, simp add: demo_message_def)
qed

text \<open>The round of a loaded task with a message, up to the decision about its survival.\<close>

lemma worker_evals:
  assumes "world_ok w" and "w_queue w = t # q" and "w_tasks w t = Some task" and "is_loaded task"
    and "mailbox_key (task_L task) = Some b" and "w_boxes w b = Some mb" and "mail_of w b = p # ps"
    and "w_msgs w p = Some m" and "calm (rt_during R) t b p"
    and "lua_message_push (rt_api R) (vm (task_L task)) (msg_content m) = Inr (L1, argc)"
    and "lua_eval (rt_api R) L1 = Inr (L2, ret)"
    and "lua_message_pop (rt_api R) (rt_junk R) (rt_base R) (rt_len_first R) L2 0 = Inr reply"
  shows "\<exists>w1 m' task' w4. worker R w = after_run R w4 t (Some b) \<and>
    w_msgs w1 = (w_msgs w)(p \<mapsto> m\<lparr>msg_content := None\<rparr>) \<and> mail_of w1 b = ps \<and> w_msgs (rt_during R w1) p = Some m' \<and>
    w_msgs w4 = (w_msgs (rt_during R w1))(p := released False (m'\<lparr>msg_content := reply\<rparr>)) \<and>
    (\<forall>b'. mail_of w4 b' = mail_of (rt_during R w1) b') \<and> world_ok w4 \<and>
    w_tasks w4 t = Some task' \<and> vm (task_L task') = L2 \<and> w_boxes w4 b \<noteq> None"
proof -
  let ?task = "task\<lparr>task_state := TASK_PROCESSING\<rparr>"
  let ?w = "set_task (w\<lparr>w_queue := q\<rparr>) t ?task"
  have start: "worker R w = bind_res (run_message R ?w t b) (\<lambda>w2. after_run R w2 t (Some b))"
    using assms(2-5) by (simp add: worker_def task_access mailbox_get_def)
  have "world_ok ?w" "w_tasks ?w t = Some ?task" "w_boxes ?w b = Some mb" "mail_of ?w b = p # ps" "w_msgs ?w p = Some m"
    using assms by (simp_all del: mail_of_box)
  moreover have "lua_message_push (rt_api R) (vm (task_L ?task)) (msg_content m) = Inr (L1, argc)"
    using assms(10) by simp
  ultimately obtain w1 task' where run: "run_message R ?w t b = answer_message R (set_task (rt_during R w1) t task') t (Some p)"
    and w1: "w_msgs w1 = (w_msgs w)(p \<mapsto> m\<lparr>msg_content := None\<rparr>)" "mail_of w1 b = ps"
    and hand: "in_hand (rt_during R w1) t b p" and L2: "vm (task_L task') = L2"
    using run_message_evals [of ?w t ?task b mb p ps m R L1 argc L2 ret] assms(9,11) by (auto simp del: mail_of_box)
  obtain m' where m': "w_msgs (rt_during R w1) p = Some m'" using hand by (auto simp: in_hand_def)
  let ?w3 = "set_task (rt_during R w1) t task'"
  let ?w4 = "?w3\<lparr>w_msgs := (w_msgs ?w3)(p := released False (m'\<lparr>msg_content := reply\<rparr>))\<rparr>"
  have "answer_message R ?w3 t (Some p) = Inr ?w4 \<and> world_ok ?w4 \<and> (\<forall>b'. mail_of ?w4 b' = mail_of ?w3 b')"
    by (rule answer_message_ok [where b = b and task = task']) (use hand m' L2 assms(12) in simp_all)
  moreover have "w_boxes ?w4 b \<noteq> None" using hand by (simp add: in_hand_def)
  ultimately show ?thesis using start run w1 m' L2
    by (intro exI [of _ w1] exI [of _ m'] exI [of _ task'] exI [of _ ?w4]) simp
qed

text \<open>C20. A worker answers the oldest message of the task it pops: whenever pushing the message's
  values, evaluating and taking the reply succeed, the round takes that message out of the
  mailbox, stores the reply as its content, marks it ready and releases it, and goes on to decide
  about the task's survival with the evaluated stack; the rest of the mailbox is as the other
  threads left it.\<close>

theorem worker_answers:
  assumes "world_ok w" and "w_queue w = t # q" and "w_tasks w t = Some task" and "is_loaded task"
    and "mailbox_key (task_L task) = Some b" and "w_boxes w b = Some mb" and "mail_of w b = p # ps"
    and "w_msgs w p = Some m" and "calm (rt_during R) t b p"
    and "lua_message_push (rt_api R) (vm (task_L task)) (msg_content m) = Inr (L1, argc)"
    and "lua_eval (rt_api R) L1 = Inr (L2, ret)"
    and "lua_message_pop (rt_api R) (rt_junk R) (rt_base R) (rt_len_first R) L2 0 = Inr reply"
  shows "\<exists>w1 m' task' w4. worker R w = after_run R w4 t (Some b) \<and>
    w_msgs w1 = (w_msgs w)(p \<mapsto> m\<lparr>msg_content := None\<rparr>) \<and> mail_of w1 b = ps \<and> w_msgs (rt_during R w1) p = Some m' \<and>
    w_msgs w4 = (w_msgs (rt_during R w1))(p := released False (m'\<lparr>msg_content := reply\<rparr>)) \<and>
    (\<forall>b'. mail_of w4 b' = mail_of (rt_during R w1) b') \<and> world_ok w4 \<and>
    w_tasks w4 t = Some task' \<and> vm (task_L task') = L2"
  using worker_evals [OF assms] by blast

theorem worker_answers_witness:
  "\<exists>w4. worker (list_runtime (\<lambda>f args. Inr [])) (demo_world True TASK_WAITING [VFun 3]) =
     after_run (list_runtime (\<lambda>f args. Inr [])) w4 9 (Some 2) \<and>
     map_option msg_state (w_msgs w4 50) = Some MSG_READY \<and> mail_of w4 2 = []"
proof -
  let ?R = "list_runtime (\<lambda>f args. Inr [])" and ?w = "demo_world True TASK_WAITING [VFun 3]"
  have "mail_of ?w 2 = 50 # []" by (simp add: demo_world_ok del: mail_of_box)
  from worker_answers [OF demo_world_ok(1) demo_simps(2,1,5,6,4) this demo_simps(3), of ?R "[VFun 3]" 0 "[]" LUA_OK None]
  show ?thesis
    by (fastforce simp: calm_id demo_eval demo_push demo_pop_empty released_def demo_message_def simp del: mail_of_box)
qed

text \<open>After a run that left a function in the first stack slot the task survives: it is idle when
  its mailbox is empty, and back in the queue, once and last, when messages are waiting. No
  message is lost or answered here.\<close>

theorem after_run_survives:
  assumes "w_tasks w t = Some task" and "lua_isfunction (rt_api R) (vm (task_L task)) 1"
    and "world_ok w" and "w_boxes w b = Some mb"
  shows "\<exists>w' task'. after_run R w t (Some b) = Inr w' \<and> w_tasks w' = (w_tasks w)(t \<mapsto> task') \<and>
    task_L task' = task_L task \<and> is_loaded task' = is_loaded task \<and> w_msgs w' = w_msgs w \<and> w_boxes w' = w_boxes w \<and>
    (if mail_of w b = [] then task_state task' = TASK_IDLE \<and> w_queue w' = w_queue w
     else task_state task' = TASK_WAITING \<and> w_queue w' = w_queue w @ [t])"
proof -
  have "mb_head mb = None \<longleftrightarrow> mail_of w b = []"
    using mbox_wfD(1) [OF world_ok_box [OF assms(3,4)]] assms(4)
    by (cases "mail (w_msgs w, mb)") auto
  with assms show ?thesis
    by (auto simp: after_run_def task_access mailbox_peek_def the_box_def process_notify_task_def push_task_eq
        simp del: mail_of_box)
qed

theorem after_run_survives_witness:
  "\<exists>w' task'. after_run (list_runtime (\<lambda>f. Inr)) (demo_world True TASK_PROCESSING [VFun 3]) 9 (Some 2) = Inr w' \<and>
     w_tasks w' 9 = Some task' \<and> task_state task' = TASK_WAITING \<and> w_queue w' = [9, 9]"
proof -
  have "lua_isfunction (rt_api (list_runtime (\<lambda>f. Inr))) (vm (task_L (demo_task TASK_PROCESSING [VFun 3]))) 1"
    by (simp add: lua_isfunction_def list_api_def slot_def)
  from after_run_survives [OF demo_simps(1) [of True] this demo_world_ok(1) demo_simps(4)] show ?thesis
    by (auto simp: demo_world_ok simp del: mail_of_box)
qed

text \<open>A failed evaluation leaves an empty stack, on which nothing survives.\<close>

lemma failed_run_destroys:
  assumes "lua_laws (rt_api R) stk" and "stk L1 = VFun f # args"
    and "lua_eval (rt_api R) L1 = Inr (L2, ret)" and "ret \<noteq> LUA_OK"
  shows "lua_message_pop (rt_api R) (rt_junk R) (rt_base R) (rt_len_first R) L2 0 = Inr None"
    and "w_tasks w t = Some task \<Longrightarrow> vm (task_L task) = L2 \<Longrightarrow> w_boxes w b = Some mb \<Longrightarrow>
      after_run R w t (Some b) = task_destroy R (set_box w b (mb\<lparr>mb_last_message := None\<rparr>)) t"
proof -
  have ev: "lua_eval_part (rt_api R) L1 (int (length args)) LUA_MULTRET = Inr (L2, ret)"
    using assms(3) lua_eval_arguments [OF assms(1,2)] by simp
  have "stk L1 = [] @ VFun f # args" using assms(2) by simp
  from assms(1) this have empty: "stk L2 = []"
    by (rule lua_eval_part_cases [where nres = LUA_MULTRET]) (use ev assms(4) in auto)
  then show pop: "lua_message_pop (rt_api R) (rt_junk R) (rt_base R) (rt_len_first R) L2 0 = Inr None"
    by (simp add: lua_message_pop_def lua_gettop_eq [OF assms(1)])
  have "\<not> lua_isfunction (rt_api R) L2 1"
    by (simp add: lua_isfunction_def lua_type_none [OF assms(1)] empty slot_def)
  with pop show "w_tasks w t = Some task \<Longrightarrow> vm (task_L task) = L2 \<Longrightarrow> w_boxes w b = Some mb \<Longrightarrow>
      after_run R w t (Some b) = task_destroy R (set_box w b (mb\<lparr>mb_last_message := None\<rparr>)) t"
    by (simp add: after_run_def task_access mailbox_set_last_message_def the_box_def)
qed

text \<open>C21. A job whose function fails is answered, and then its task is killed: the round of the worker takes the
  message out of the mailbox, answers it with NULL (no values), marks it ready and releases it, and goes
  on to \<open>task_destroy\<close> with no last message; the rest of the mailbox is as the other threads left it.\<close>

theorem failed_job_kills_task:
  assumes "world_ok w" and "w_queue w = t # q" and "w_tasks w t = Some task" and "is_loaded task"
    and "mailbox_key (task_L task) = Some b" and "w_boxes w b = Some mb" and "mail_of w b = p # ps"
    and "w_msgs w p = Some m" and "calm (rt_during R) t b p"
    and "lua_message_push (rt_api R) (vm (task_L task)) (msg_content m) = Inr (L1, argc)"
    and "lua_eval (rt_api R) L1 = Inr (L2, ret)" and "ret \<noteq> LUA_OK"
    and "lua_laws (rt_api R) stk" and "stk L1 = VFun f # args"
  shows "\<exists>w1 m' mb' w4. worker R w = task_destroy R (set_box w4 b (mb'\<lparr>mb_last_message := None\<rparr>)) t \<and>
    w_msgs w1 = (w_msgs w)(p \<mapsto> m\<lparr>msg_content := None\<rparr>) \<and> mail_of w1 b = ps \<and> w_msgs (rt_during R w1) p = Some m' \<and>
    w_msgs w4 = (w_msgs (rt_during R w1))(p := released False (m'\<lparr>msg_content := None\<rparr>)) \<and>
    (\<forall>b'. mail_of w4 b' = mail_of (rt_during R w1) b') \<and> world_ok w4 \<and> w_boxes w4 b = Some mb'"
proof -
  note failed = failed_run_destroys [OF assms(13,14,11,12)]
  from worker_evals [OF assms(1-11) failed(1)] obtain w1 m' task' w4 where x:
    "worker R w = after_run R w4 t (Some b)" "w_msgs w1 = (w_msgs w)(p \<mapsto> m\<lparr>msg_content := None\<rparr>)" "mail_of w1 b = ps"
    "w_msgs (rt_during R w1) p = Some m'"
    "w_msgs w4 = (w_msgs (rt_during R w1))(p := released False (m'\<lparr>msg_content := None\<rparr>))"
    "\<forall>b'. mail_of w4 b' = mail_of (rt_during R w1) b'" "world_ok w4" "w_tasks w4 t = Some task'" "vm (task_L task') = L2"
    "w_boxes w4 b \<noteq> None" by blast
  then obtain mb' where "w_boxes w4 b = Some mb'" by blast
  with failed(2) [OF x(8,9) this] x(1-7) show ?thesis by auto
qed

theorem failed_job_kills_task_witness:
  "\<exists>mb' w4. worker (list_runtime (\<lambda>f args. Inl VNil)) (demo_world True TASK_WAITING [VFun 3]) =
     task_destroy (list_runtime (\<lambda>f args. Inl VNil)) (set_box w4 2 (mb'\<lparr>mb_last_message := None\<rparr>)) 9 \<and>
     map_option msg_state (w_msgs w4 50) = Some MSG_READY \<and> mail_of w4 2 = []"
proof -
  let ?R = "list_runtime (\<lambda>f args. Inl VNil)" and ?w = "demo_world True TASK_WAITING [VFun 3]"
  have mail: "mail_of ?w 2 = 50 # []" by (simp add: demo_world_ok del: mail_of_box)
  have laws: "lua_laws (rt_api ?R) id" by (simp add: list_api_laws)
  have ev: "lua_eval (rt_api ?R) [VFun 3] = Inr ([], LUA_ERRRUN)" by (simp add: demo_eval)
  have push: "lua_message_push (rt_api ?R) (vm (task_L (demo_task TASK_WAITING [VFun 3]))) (msg_content demo_message) = Inr ([VFun 3], 0)"
    by (simp add: demo_push)
  have calm: "calm (rt_during ?R) 9 2 50" by (simp add: calm_id)
  from failed_job_kills_task [OF demo_world_ok(1) demo_simps(2,1,5,6,4) mail demo_simps(3) calm push ev _ laws, of 3 "[]"]
  show ?thesis by (fastforce simp: released_def demo_message_def simp del: mail_of_box)
qed

text \<open>A worker that pops a loaded task with an empty mailbox crashes: there is no message to
  answer, and \<open>mailbox_message_content_set\<close> writes through NULL (or taking the reply fails
  first). The test \<open>msg != NULL\<close> comes after that write.\<close>

theorem worker_empty_mailbox_crashes:
  assumes "world_ok w" and "w_queue w = t # q" and "w_tasks w t = Some task" and "is_loaded task"
    and "mailbox_key (task_L task) = Some b" and "w_boxes w b = Some mb" and "mail_of w b = []"
    and "\<And>v. w_tasks (rt_during R v) t = w_tasks v t"
    and "lua_eval (rt_api R) (vm (task_L task)) = Inr (L2, ret)"
    and "lua_message_pop (rt_api R) (rt_junk R) (rt_base R) (rt_len_first R) L2 0 = Inr reply"
  shows "worker R w = Inl Null_Deref"
proof -
  let ?task = "task\<lparr>task_state := TASK_PROCESSING\<rparr>"
  let ?w = "set_task (w\<lparr>w_queue := q\<rparr>) t ?task"
  have "world_ok ?w" "w_boxes ?w b = Some mb" "mail_of ?w b = []"
    using assms by (simp_all del: mail_of_box)
  then obtain mb1 where recv: "mailbox_receive ?w b = Inr (set_box ?w b mb1, None)"
    using mailbox_receive_spec [of ?w b mb] by (auto simp del: mail_of_box)
  have "run_message R ?w t b = Inl Null_Deref"
    using assms(3,8-10) recv
    by (simp add: run_message_def task_access set_box_def push_message_def eval_task_def answer_message_def
        the_task_def get_vm_def set_vm_def mailbox_message_content_set_def mailbox_register_current_message_def)
  then show ?thesis
    using assms(2-5) by (simp add: worker_def task_access mailbox_get_def)
qed

theorem worker_empty_mailbox_crashes_witness:
  "worker (list_runtime (\<lambda>f args. Inr [])) (demo_world False TASK_WAITING [VFun 3]) = Inl Null_Deref"
proof -
  have "mail_of (demo_world False TASK_WAITING [VFun 3]) 2 = []" by (simp add: demo_world_ok del: mail_of_box)
  from worker_empty_mailbox_crashes [OF demo_world_ok(1) demo_simps(2,1,5,6,4) this, of "list_runtime (\<lambda>f args. Inr [])" "[]" LUA_OK None]
  show ?thesis by (simp add: demo_eval demo_pop_empty)
qed

text \<open>A string reply of 2048 bytes or more takes the whole program down: \<open>lua_message_pop\<close>
  raises its error in the worker, outside any protected call, after the message has left the
  mailbox and before anybody is answered.\<close>

theorem oversized_reply_aborts:
  assumes "world_ok w" and "w_queue w = t # q" and "w_tasks w t = Some task" and "is_loaded task"
    and "mailbox_key (task_L task) = Some b" and "w_boxes w b = Some mb" and "mail_of w b = p # ps"
    and "w_msgs w p = Some m" and "calm (rt_during R) t b p"
    and "lua_message_push (rt_api R) (vm (task_L task)) (msg_content m) = Inr (L1, argc)"
    and "lua_eval (rt_api R) L1 = Inr (L2, ret)"
    and "lua_laws (rt_api R) stk" and "stk L2 = [VStr str]" and "2048 \<le> length str" and "length str < 2 ^ 29"
  shows "worker R w = Inl (Lua_Error ''Max message size exceeded'')"
proof -
  let ?task = "task\<lparr>task_state := TASK_PROCESSING\<rparr>"
  let ?w = "set_task (w\<lparr>w_queue := q\<rparr>) t ?task"
  have "world_ok ?w" "w_tasks ?w t = Some ?task" "w_boxes ?w b = Some mb" "mail_of ?w b = p # ps" "w_msgs ?w p = Some m"
    using assms by (simp_all del: mail_of_box)
  moreover have "lua_message_push (rt_api R) (vm (task_L ?task)) (msg_content m) = Inr (L1, argc)"
    using assms(10) by simp
  ultimately obtain w1 task' where "run_message R ?w t b = answer_message R (set_task (rt_during R w1) t task') t (Some p)"
    "vm (task_L task') = L2"
    using run_message_evals [of ?w t ?task b mb p ps m R L1 argc L2 ret] assms(9,11) by (auto simp del: mail_of_box)
  then have "run_message R ?w t b = Inl (Lua_Error ''Max message size exceeded'')"
    using lua_message_pop_large [OF assms(12-15)] by (simp add: answer_message_def get_vm_def the_task_def)
  with assms(2-5) show ?thesis by (simp add: worker_def task_access mailbox_get_def)
qed


theorem oversized_reply_aborts_witness:
  "worker (list_runtime (\<lambda>f args. Inr [VStr (replicate 3000 0)])) (demo_world True TASK_WAITING [VFun 3]) =
     Inl (Lua_Error ''Max message size exceeded'')"
proof -
  let ?R = "list_runtime (\<lambda>f args. Inr [VStr (replicate 3000 0)])" and ?w = "demo_world True TASK_WAITING [VFun 3]"
  have mail: "mail_of ?w 2 = 50 # []" by (simp add: demo_world_ok del: mail_of_box)
  have laws: "lua_laws (rt_api ?R) id" by (simp add: list_api_laws)
  show ?thesis
    by (rule oversized_reply_aborts [OF demo_world_ok(1) demo_simps(2,1,5,6,4) mail demo_simps(3) _ _ _ laws,
          of "[VFun 3]" 0 "[VStr (replicate 3000 0)]" LUA_OK "replicate 3000 0"])
       (simp_all add: calm_id demo_eval demo_push)
qed

text \<open>Spawning, for the flat values that can be copied.\<close>

lemma process_spawn_spec:
  assumes "lua_laws (rt_api R) stk" and "copy_laws (rt_copy R) stk enc dumpable" and "0 < rt_fuel R"
    and "stk (vm parent) = VFun f # args" and "\<And>v. v \<in> set (VFun f # args) \<Longrightarrow> flat dumpable v"
    and "mailbox_key parent = Some pb" and "world_ok w" and "w_boxes w b = None"
  shows "\<exists>w' task parent'. process_spawn R w parent t b = Inr (w', parent', b) \<and>
    w_tasks w' = (w_tasks w)(t \<mapsto> task) \<and> task_state task = TASK_INIT \<and> \<not> is_loaded task \<and>
    stk (vm (task_L task)) = VFun load_string_id # map copied args \<and> mailbox_key (task_L task) = Some b \<and>
    parent_mailbox_key (task_L task) = Some pb \<and> stk (vm parent') = [] \<and>
    w_boxes w' = (w_boxes w)(b \<mapsto> new_mailbox\<lparr>mb_task := Some t\<rparr>) \<and> mail_of w' b = [] \<and>
    (\<forall>b'. b' \<noteq> b \<longrightarrow> mail_of w' b' = mail_of w b') \<and> world_ok w' \<and> w_queue w' = w_queue w @ [t]"
proof -
  define L1 where "L1 = lua_settop (rt_api R) (luaL_newstate (rt_copy R)) 0"
  have L1: "stk L1 = []" by (simp add: L1_def lua_settop_0 [OF assms(1)])
  from copy_stack_loop_flat [OF assms(1,2), of "vm parent" "[]" "VFun f # args" "rt_fuel R - 1" L1] assms(3-5) L1
  obtain src dst where loop: "copy_stack_loop (rt_api R) (rt_copy R) (rt_fuel R) (Suc (length args)) 1 (vm parent) L1 = Inr (src, dst)"
    "stk dst = VFun load_string_id # map copied args"
    by auto
  have "lua_isfunction (rt_api R) (vm parent) 1"
    using assms(4) by (simp add: lua_isfunction_def lua_type_eq [OF assms(1)] slot_first)
  with loop have cp: "copy_stack (rt_api R) (rt_copy R) (rt_fuel R) (vm parent) L1 = Inr (src, dst)"
    by (simp add: copy_stack_def lua_gettop_eq [OF assms(1)] assms(4) nat_add_distrib)
  define L where "L = \<lparr>vm = dst, mailbox_key = Some b, parent_mailbox_key = Some pb, current_message_key = None\<rparr>"
  define task where "task = \<lparr>task_L = L, is_loaded = False, task_state = TASK_INIT\<rparr>"
  define w' where "w' = (set_task (set_box w b (new_mailbox\<lparr>mb_task := Some t\<rparr>)) t task)\<lparr>w_queue := w_queue w @ [t]\<rparr>"
  have "process_spawn R w parent t b = Inr (w', parent\<lparr>vm := lua_settop (rt_api R) src 0\<rparr>, b)"
    using cp assms(6) unfolding L1_def
    by (simp add: process_spawn_def mailbox_init_def mailbox_set_task_def the_box_def set_box_def mailbox_get_def
        mailbox_register_parent_def push_task_eq w'_def task_def L_def set_task_def)
  moreover have "world_ok w' \<and> mail_of w' b = [] \<and> (\<forall>b'. b' \<noteq> b \<longrightarrow> mail_of w' b' = mail_of w b')"
    by (rule world_ok_new_box [OF assms(7,8), where mb = "new_mailbox\<lparr>mb_task := Some t\<rparr>"])
       (simp_all add: w'_def set_box_def new_mailbox_def)
  ultimately show ?thesis
    using loop(2) lua_settop_0 [OF assms(1)]
    by (intro exI [of _ w'] exI [of _ task] exI [of _ "parent\<lparr>vm := lua_settop (rt_api R) src 0\<rparr>"])
       (simp add: w'_def set_box_def task_def L_def)
qed

text \<open>A function that cannot be dumped stops \<open>process_spawn\<close> with an error.\<close>

lemma process_spawn_fails:
  assumes "lua_laws (rt_api R) stk" and "copy_laws (rt_copy R) stk enc dumpable" and "dump_fails (rt_copy R) stk dumpable"
    and "0 < rt_fuel R" and "stk (vm parent) = VFun f # args" and "\<And>v. v \<in> set (VFun f # args) \<Longrightarrow> flat (\<lambda>_. True) v"
    and "\<not> list_all (flat dumpable) (VFun f # args)" and "mailbox_key parent = Some pb" and "w_boxes w b = None"
  shows "process_spawn R w parent t b = Inl (Lua_Error ''Could not dump function'')"
proof -
  have st: "stk (vm parent) = [] @ VFun f # args" using assms(5) by simp
  have "copy_stack_loop (rt_api R) (rt_copy R) (rt_fuel R) (Suc (length args)) 1 (vm parent) L =
      Inl (Lua_Error ''Could not dump function'')" for L
    using copy_stack_loop_fails [OF assms(1-3) st assms(6,7), of "rt_fuel R - 1" L] assms(4) by simp
  moreover have "lua_isfunction (rt_api R) (vm parent) 1"
    using assms(5) by (simp add: lua_isfunction_def lua_type_eq [OF assms(1)] slot_first)
  ultimately have "copy_stack (rt_api R) (rt_copy R) (rt_fuel R) (vm parent) L = Inl (Lua_Error ''Could not dump function'')" for L
    by (simp add: copy_stack_def lua_gettop_eq [OF assms(1)] assms(5) nat_add_distrib)
  then show ?thesis using assms(8)
    by (simp add: process_spawn_def Let_def mailbox_init_def mailbox_set_task_def the_box_def set_box_def mailbox_get_def
        mailbox_register_parent_def split: prod.splits)
qed

text \<open>C22. Spawning from a stack without tables, whose first value is a function. When all its functions can be
  dumped a task is created that will run: in state INIT, not loaded, with the loader of the function and
  the copied arguments on its stack and its own empty live mailbox, known to the mailbox and
  queued last; the parent's mailbox is registered as the task's parent, the parent's stack is emptied,
  and no existing queue of messages changes. When one of them cannot (a C function) an error is raised.\<close>

theorem process_spawn_ok:
  assumes "lua_laws (rt_api R) stk" and "copy_laws (rt_copy R) stk enc dumpable" and "dump_fails (rt_copy R) stk dumpable"
    and "0 < rt_fuel R" and "stk (vm parent) = VFun f # args" and "\<And>v. v \<in> set (VFun f # args) \<Longrightarrow> flat (\<lambda>_. True) v"
    and "mailbox_key parent = Some pb" and "world_ok w" and "w_boxes w b = None"
  shows "if list_all (flat dumpable) (VFun f # args)
    then \<exists>w' task parent'. process_spawn R w parent t b = Inr (w', parent', b) \<and>
      w_tasks w' = (w_tasks w)(t \<mapsto> task) \<and> task_state task = TASK_INIT \<and> \<not> is_loaded task \<and>
      stk (vm (task_L task)) = VFun load_string_id # map copied args \<and> mailbox_key (task_L task) = Some b \<and>
      parent_mailbox_key (task_L task) = Some pb \<and> stk (vm parent') = [] \<and>
      w_boxes w' = (w_boxes w)(b \<mapsto> new_mailbox\<lparr>mb_task := Some t\<rparr>) \<and> mail_of w' b = [] \<and>
      (\<forall>b'. b' \<noteq> b \<longrightarrow> mail_of w' b' = mail_of w b') \<and> world_ok w' \<and> w_queue w' = w_queue w @ [t]
    else process_spawn R w parent t b = Inl (Lua_Error ''Could not dump function'')"
proof (cases "list_all (flat dumpable) (VFun f # args)")
  case True
  then have "flat dumpable v" if "v \<in> set (VFun f # args)" for v using that by (auto simp: list_all_iff)
  from process_spawn_spec [OF assms(1,2,4,5) this assms(7-9), of t] show ?thesis unfolding if_P [OF True] .
next
  case False
  from process_spawn_fails [OF assms(1-6) False assms(7,9), of t] show ?thesis unfolding if_not_P [OF False] .
qed

text \<open>Only functions with an even number have a dump here; the second spawn passes one that has none.\<close>

definition picky_runtime :: "lua_value list runtime" where
  "picky_runtime = (list_runtime (\<lambda>f. Inr))\<lparr>rt_copy := list_copy_api\<lparr>lua_dump :=
     (\<lambda>st. case last st of VFun f \<Rightarrow> if even f then Some [[27]] else None | _ \<Rightarrow> None)\<rparr>\<rparr>"

theorem process_spawn_ok_witness:
  "(\<exists>w' parent'. process_spawn picky_runtime (demo_world False TASK_PROCESSING [])
       (task_L (demo_task TASK_PROCESSING [VFun 6, VNum 4])) 10 3 = Inr (w', parent', 3) \<and>
     w_queue w' = [9, 10] \<and> vm parent' = [] \<and> map_option (\<lambda>k. vm (task_L k)) (w_tasks w' 10) = Some [VFun load_string_id, VNum 4]) \<and>
   process_spawn picky_runtime (demo_world False TASK_PROCESSING [])
     (task_L (demo_task TASK_PROCESSING [VFun 6, VFun 7])) 10 3 = Inl (Lua_Error ''Could not dump function'')"
proof -
  let ?R = picky_runtime
  have laws: "lua_laws (rt_api ?R) id" "copy_laws (rt_copy ?R) id word_of_int even" "dump_fails (rt_copy ?R) id even" "0 < rt_fuel ?R"
    using list_copy_laws by (auto simp: picky_runtime_def list_api_laws copy_laws_def dump_fails_def)
  have "w_boxes (demo_world False TASK_PROCESSING []) 3 = None" by (simp add: demo_world_def)
  note spawn = process_spawn_ok [OF laws _ _ _ demo_world_ok(1) this, where pb = 2 and t = 10]
  from spawn [of "task_L (demo_task TASK_PROCESSING [VFun 6, VNum 4])" 6 "[VNum 4]"]
    spawn [of "task_L (demo_task TASK_PROCESSING [VFun 6, VFun 7])" 6 "[VFun 7]"]
  show ?thesis by fastforce
qed

text \<open>The first run of a task replaces the loader by the function it loads and evaluates that with
  the copied arguments: nothing of the loader stays on the stack.\<close>

theorem first_run_evaluates_function:
  assumes "lua_laws (rt_api R) stk" and "w_tasks w t = Some task"
    and "stk (vm (task_L task)) = VFun g # args"
    and "lua_eval_part (rt_api R) (lua_pushvalue (rt_api R) (vm (task_L task)) 1) 0 1 = Inr (L1, LUA_OK)"
  shows "\<exists>L2 r task'. run_loader R w t = eval_task R (lua_eval (rt_api R)) (set_task w t task') t \<and>
    is_loaded task' \<and> task_L task' = (task_L task)\<lparr>vm := L2\<rparr> \<and> stk L2 = r # args"
proof -
  let ?A = "rt_api R" and ?L = "vm (task_L task)"
  have "stk (lua_pushvalue ?A ?L 1) = (VFun g # args) @ [VFun g]"
    using lua_push_eq(7) [OF assms(1), of ?L 1 "VFun g"] assms(3) by (simp add: slot_first)
  from lua_eval_part_cases [OF assms(1) this, of 1] assms(4) obtain r where "stk L1 = (VFun g # args) @ [r]"
    by (auto simp: LUA_MULTRET_def length_Suc_conv)
  then have "stk (lua_replace ?A L1 1) = r # args"
    using lua_replace_eq [OF assms(1), of L1 "[]" "VFun g" args r] by simp
  with assms(2,4) show ?thesis
    by (intro exI [of _ "lua_replace ?A L1 1"] exI [of _ r]
        exI [of _ "task\<lparr>task_L := (task_L task)\<lparr>vm := lua_replace ?A L1 1\<rparr>, is_loaded := True\<rparr>"])
       (simp add: run_loader_def task_access, simp add: set_task_def)
qed

theorem first_run_evaluates_function_witness:
  "\<exists>L2 r task'. run_loader (list_runtime (\<lambda>f args. Inr [VFun 8])) (demo_world False TASK_PROCESSING [VFun 1, VNum 4]) 9 =
      eval_task (list_runtime (\<lambda>f args. Inr [VFun 8])) (lua_eval (list_api (\<lambda>f args. Inr [VFun 8])))
        (set_task (demo_world False TASK_PROCESSING [VFun 1, VNum 4]) 9 task') 9 \<and> L2 = [r, VNum 4]"
proof -
  let ?R = "list_runtime (\<lambda>f args. Inr [VFun 8])"
  have laws: "lua_laws (rt_api ?R) id" by (simp add: list_api_laws)
  have "lua_eval_part (rt_api ?R) (lua_pushvalue (rt_api ?R) [VFun 1, VNum 4] 1) 0 1 = Inr ([VFun 1, VNum 4, VFun 8], LUA_OK)"
    by (simp add: lua_eval_part_def list_api_def list_pcall_def adjust_def slot_def slot_or_nil_def
        lua_isfunction_def Let_def numeral_eq_Suc)
  from first_run_evaluates_function [OF laws demo_simps(1), of TASK_PROCESSING "[VFun 1, VNum 4]" 1 "[VNum 4]" "[VFun 1, VNum 4, VFun 8]" False] this
  show ?thesis by fastforce
qed

end
