(* ===== verification/Blocks.thy ===== *)
theory Blocks
  imports Process
begin

text \<open>
  \<^verbatim>\<open>src/blocks/blocks.c\<close>: the Lua library \<open>blocks\<close>. Each C function registered with Lua is a
  function on the shared memory, the pool of threads and the caller's Lua state; it yields the
  number of values it returns to Lua. The functions are found by Lua through the tables that
  \<open>luaopen_blocks\<close> fills, which are association lists here.
\<close>

section \<open>State and API\<close>

record 'L blocks =
  bl_world :: "'L world"
  bl_pool :: "thread_pool option"

text \<open>
  References are userdata with a metatable: \<open>lua_newref\<close> is \<open>lua_newuserdata\<close>, the store into the
  block, and \<open>lua_setmetatable\<close>; \<open>luaL_checkref\<close> is \<open>luaL_checkudata\<close> and the load, which raises an
  error (\<open>None\<close>) for another type of value. \<open>fmt_pointer\<close> is what \<open>%p\<close> prints.
\<close>

record 'L lua_ref_api =
  lua_newref :: "'L \<Rightarrow> lua_ref \<Rightarrow> 'L"
  luaL_checkref :: "'L \<Rightarrow> int \<Rightarrow> lua_ref option"
  luaL_checkinteger :: "'L \<Rightarrow> int \<Rightarrow> int option"
  fmt_pointer :: "ptr \<Rightarrow> string"

definition MAILBOX_TYPE_NAME :: string where "MAILBOX_TYPE_NAME = ''blocks.mailbox''"
definition MAILBOX_REF_TYPE_NAME :: string where "MAILBOX_REF_TYPE_NAME = ''blocks.mailbox-ref''"
definition MESSAGE_TYPE_NAME :: string where "MESSAGE_TYPE_NAME = ''blocks.message''"
definition MESSAGE_REF_TYPE_NAME :: string where "MESSAGE_REF_TYPE_NAME = ''blocks.message-ref''"

definition check_mailbox_ref :: "'L lua_ref_api \<Rightarrow> 'L \<Rightarrow> int \<Rightarrow> ptr res" where
  "check_mailbox_ref G L i =
     (case luaL_checkref G L i of Some (Mailbox_Ref b) \<Rightarrow> Inr b | _ \<Rightarrow> Inl (Lua_Error MAILBOX_REF_TYPE_NAME))"

definition check_message_ref :: "'L lua_ref_api \<Rightarrow> 'L \<Rightarrow> int \<Rightarrow> ptr res" where
  "check_message_ref G L i =
     (case luaL_checkref G L i of Some (Message_Ref p) \<Rightarrow> Inr p | _ \<Rightarrow> Inl (Lua_Error MESSAGE_REF_TYPE_NAME))"

section \<open>The pool\<close>

text \<open>\<open>news\<close> gives the addresses and threads a call of \<open>threadpool_extend\<close> obtains.\<close>

definition l_blocks_init :: "'L blocks \<Rightarrow> (nat \<Rightarrow> ptr \<times> nat) \<Rightarrow> 'L blocks res" where
  "l_blocks_init s news =
     (if bl_pool s = None then
        bind_res (threadpool_init 5 news) (\<lambda>pool.
          Inr (s\<lparr>bl_pool := Some pool, bl_world := (bl_world s)\<lparr>w_queue := []\<rparr>\<rparr>))
      else Inr s)"

definition l_pool_extend :: "'L lua_ref_api \<Rightarrow> 'L blocks \<Rightarrow> 'L lua_state \<Rightarrow> (nat \<Rightarrow> ptr \<times> nat) \<Rightarrow> ('L blocks \<times> int) res" where
  "l_pool_extend G s L news =
     (case luaL_checkinteger G (vm L) 1 of
        None \<Rightarrow> Inl (Lua_Error ''integer expected'')
      | Some n \<Rightarrow>
          let size = c_int n in
          (case bl_pool s of
             None \<Rightarrow> Inr (s, 0)
           | Some pool \<Rightarrow> bind_res (threadpool_extend pool size news) (\<lambda>pool'. Inr (s\<lparr>bl_pool := Some pool'\<rparr>, 0))))"

section \<open>Spawning and sending\<close>

definition l_spawn ::
    "'L runtime \<Rightarrow> 'L lua_ref_api \<Rightarrow> 'L blocks \<Rightarrow> 'L lua_state \<Rightarrow> ptr \<Rightarrow> ptr \<Rightarrow> ('L blocks \<times> 'L lua_state \<times> int) res" where
  "l_spawn R G s L t b =
     (if bl_pool s = None then Inl Null_Deref
      else
        bind_res (process_spawn R (bl_world s) L t b) (\<lambda>(w, L', child_mailbox).
          Inr (s\<lparr>bl_world := w\<rparr>, L'\<lparr>vm := lua_newref G (vm L') (Mailbox_Ref child_mailbox)\<rparr>, 1)))"

text \<open>\<open>l_message_send\<close>: \<open>p\<close> is the address of the new message. To a dead mailbox it returns false.\<close>

definition l_message_send ::
    "'L runtime \<Rightarrow> 'L lua_ref_api \<Rightarrow> 'L world \<Rightarrow> 'L lua_state \<Rightarrow> ptr \<Rightarrow> ('L world \<times> 'L lua_state \<times> int) res" where
  "l_message_send R G w L p =
     bind_res (check_mailbox_ref G (vm L) 1) (\<lambda>recipient.
     let sender = mailbox_get L in
     bind_res (lua_message_pop (rt_api R) (rt_junk R) (rt_base R) (rt_len_first R) (vm L) 1) (\<lambda>content.
     bind_res (mailbox_send w sender recipient content p) (\<lambda>(w', msg).
       (case msg of
          Some m \<Rightarrow> Inr (w', L\<lparr>vm := lua_newref G (vm L) (Message_Ref m)\<rparr>, 1)
        | None \<Rightarrow> Inr (w', L\<lparr>vm := lua_pushboolean (rt_api R) (vm L) False\<rparr>, 1)))))"

text \<open>\<open>l_mailbox_message_get\<close>: \<open>None\<close> while the caller is blocked on the message.\<close>

definition l_mailbox_message_get ::
    "'L runtime \<Rightarrow> 'L lua_ref_api \<Rightarrow> 'L world \<Rightarrow> 'L lua_state \<Rightarrow> ('L lua_state \<times> int) option res" where
  "l_mailbox_message_get R G w L =
     bind_res (check_message_ref G (vm L) 1) (\<lambda>p.
     bind_res (mailbox_wait_for_reply w p) (\<lambda>msg.
       (case msg of
          None \<Rightarrow> Inr None
        | Some m \<Rightarrow>
            bind_res (mailbox_message_get_content w m) (\<lambda>content.
            bind_res (lua_message_push (rt_api R) (vm L) content) (\<lambda>(L', argc). Inr (Some (L\<lparr>vm := L'\<rparr>, argc)))))))"

definition l_mailbox_state ::
    "'L runtime \<Rightarrow> 'L lua_ref_api \<Rightarrow> 'L world \<Rightarrow> 'L lua_state \<Rightarrow> ('L lua_state \<times> int) res" where
  "l_mailbox_state R G w L =
     bind_res (check_mailbox_ref G (vm L) 1) (\<lambda>b.
     bind_res (mailbox_isactive w b) (\<lambda>active.
       if active then Inr (L\<lparr>vm := lua_pushboolean (rt_api R) (vm L) True\<rparr>, 1)
       else
         let L1 = lua_pushboolean (rt_api R) (vm L) False in
         bind_res (mailbox_get_last_message w b) (\<lambda>content.
         bind_res (lua_message_push (rt_api R) L1 content) (\<lambda>(L2, argc). Inr (L\<lparr>vm := L2\<rparr>, 2)))))"

section \<open>Finalisers, strings and the functions without effect\<close>

definition l_mailbox_ref_destroy :: "'L lua_ref_api \<Rightarrow> 'L world \<Rightarrow> 'L lua_state \<Rightarrow> ('L world \<times> int) res" where
  "l_mailbox_ref_destroy G w L =
     bind_res (check_mailbox_ref G (vm L) 1) (\<lambda>b. bind_res (mailbox_destroy w b) (\<lambda>w'. Inr (w', 0)))"

definition l_mailbox_message_destroy :: "'L lua_ref_api \<Rightarrow> 'L world \<Rightarrow> 'L lua_state \<Rightarrow> ('L world \<times> int) res" where
  "l_mailbox_message_destroy G w L =
     bind_res (check_message_ref G (vm L) 1) (\<lambda>p. bind_res (mailbox_message_destroy w p) (\<lambda>w'. Inr (w', 0)))"

definition l_mailbox_tostring :: "'L lua_api \<Rightarrow> 'L lua_ref_api \<Rightarrow> 'L lua_state \<Rightarrow> ('L lua_state \<times> int) res" where
  "l_mailbox_tostring A G L =
     bind_res (check_mailbox_ref G (vm L) 1) (\<lambda>b.
       Inr (L\<lparr>vm := lua_pushlstring A (vm L) (ascii (MAILBOX_TYPE_NAME @ '': '' @ fmt_pointer G b))\<rparr>, 1))"

definition l_message_tostring :: "'L lua_api \<Rightarrow> 'L lua_ref_api \<Rightarrow> 'L lua_state \<Rightarrow> ('L lua_state \<times> int) res" where
  "l_message_tostring A G L =
     bind_res (check_message_ref G (vm L) 1) (\<lambda>p.
       Inr (L\<lparr>vm := lua_pushlstring A (vm L) (ascii (MESSAGE_TYPE_NAME @ '': '' @ fmt_pointer G p))\<rparr>, 1))"

text \<open>\<open>l_message_receive\<close> looks the mailbox up and returns nothing; \<open>l_add_to_reply\<close> does nothing.\<close>

definition l_message_receive :: "'L lua_state \<Rightarrow> ptr option \<times> int" where
  "l_message_receive L = (mailbox_get L, 0)"

definition l_add_to_reply :: "'L lua_state \<Rightarrow> int" where
  "l_add_to_reply L = 0"

text \<open>\<open>l_sleep\<close> takes its argument from the top of the stack; the result is the time to sleep.\<close>

definition l_sleep :: "'L lua_ref_api \<Rightarrow> 'L lua_state \<Rightarrow> (int \<times> int) res" where
  "l_sleep G L =
     (case luaL_checkinteger G (vm L) (-1) of
        None \<Rightarrow> Inl (Lua_Error ''integer expected'')
      | Some n \<Rightarrow> Inr (c_int n mod 2 ^ 32, 0))"

section \<open>Registration\<close>

datatype c_function =
    F_spawn | F_sleep | F_receive | F_add_to_reply | F_extend_pool | F_send | F_state
  | F_mailbox_tostring | F_mailbox_gc | F_get | F_message_tostring | F_message_gc

datatype meta_value = Self | C_Function c_function | Text string

definition blocks_functions :: "(string \<times> c_function) list" where
  "blocks_functions =
     [(''spawn'', F_spawn), (''sleep'', F_sleep), (''receive'', F_receive),
      (''add_to_reply'', F_add_to_reply), (''extend_pool'', F_extend_pool)]"

definition mailbox_metatable :: "(string \<times> meta_value) list" where
  "mailbox_metatable =
     [(''__index'', Self), (''send'', C_Function F_send), (''state'', C_Function F_state),
      (''__metadata'', Text ''restricted''), (''__type'', Text MAILBOX_REF_TYPE_NAME),
      (''__tostring'', C_Function F_mailbox_tostring), (''__gc'', C_Function F_mailbox_gc)]"

definition message_metatable :: "(string \<times> meta_value) list" where
  "message_metatable =
     [(''__index'', Self), (''get'', C_Function F_get),
      (''__metadata'', Text ''restricted''), (''__type'', Text MESSAGE_REF_TYPE_NAME),
      (''__tostring'', C_Function F_message_tostring), (''__gc'', C_Function F_message_gc)]"

text \<open>Looking up \<open>ref:name\<close> in Lua: the metatable's \<open>__index\<close> is the metatable itself.\<close>

definition lookup_method :: "(string \<times> meta_value) list \<Rightarrow> string \<Rightarrow> meta_value option" where
  "lookup_method meta name = (if map_of meta ''__index'' = Some Self then map_of meta name else None)"

text \<open>
  What \<open>luaopen_blocks\<close> registers in the state, what it does to the pool, and the mailbox it makes
  at the address \<open>b\<close>.
\<close>

record registry =
  reg_global :: "(string \<times> c_function) list"
  reg_metatables :: "(string \<times> (string \<times> meta_value) list) list"

definition luaopen_blocks ::
    "'L lua_api \<Rightarrow> 'L blocks \<Rightarrow> 'L lua_state \<Rightarrow> ptr \<Rightarrow> (nat \<Rightarrow> ptr \<times> nat) \<Rightarrow>
     ('L blocks \<times> 'L lua_state \<times> registry \<times> int) res" where
  "luaopen_blocks A s L b news =
     bind_res (l_blocks_init s news) (\<lambda>s1.
       let L1 = L\<lparr>vm := lua_settop A (vm L) 0\<rparr>;
           (w, L2) = mailbox_init (bl_world s1) L1 b
       in Inr (s1\<lparr>bl_world := w\<rparr>, L2,
               \<lparr>reg_global = blocks_functions,
                reg_metatables = [(MAILBOX_REF_TYPE_NAME, mailbox_metatable), (MESSAGE_REF_TYPE_NAME, message_metatable)]\<rparr>, 0))"


section \<open>References on the stack\<close>

text \<open>What a reference is for the interpreter: a userdata that remembers what was stored in it.\<close>

definition ref_laws :: "'L lua_ref_api \<Rightarrow> ('L \<Rightarrow> lua_value list) \<Rightarrow> (lua_ref \<Rightarrow> lua_value) \<Rightarrow> bool" where
  "ref_laws G stk udata \<longleftrightarrow>
     (\<forall>L r. stk (lua_newref G L r) = stk L @ [udata r]) \<and>
     (\<forall>L i r. slot (stk L) i = Some (udata r) \<longrightarrow> luaL_checkref G L i = Some r)"

lemma check_refs:
  assumes "ref_laws G stk udata"
  shows "stk L = udata (Mailbox_Ref b) # st \<Longrightarrow> check_mailbox_ref G L 1 = Inr b"
    and "stk L = udata (Message_Ref p) # st \<Longrightarrow> check_message_ref G L 1 = Inr p"
    and "stk (lua_newref G L r) = stk L @ [udata r]"
  using assms by (auto simp: ref_laws_def check_mailbox_ref_def check_message_ref_def slot_first)

text \<open>The values a C function returns to Lua are the top \<open>n\<close> of its stack.\<close>

definition results :: "lua_value list \<Rightarrow> int \<Rightarrow> lua_value list" where
  "results st n = drop (length st - nat n) st"

text \<open>A concrete instance: the userdata of mailbox \<open>b\<close> has address \<open>2 * b\<close>, that of message \<open>p\<close>
  address \<open>2 * p + 1\<close>.\<close>

fun demo_udata :: "lua_ref \<Rightarrow> lua_value" where
  "demo_udata (Mailbox_Ref b) = VUser (word_of_nat b) (2 * b)"
| "demo_udata (Message_Ref p) = VUser (word_of_nat p) (2 * p + 1)"

definition list_ref_api :: "lua_value list lua_ref_api" where
  "list_ref_api =
     \<lparr>lua_newref = (\<lambda>st r. st @ [demo_udata r]),
      luaL_checkref = (\<lambda>st i. case slot_or_nil st i of
         VUser a n \<Rightarrow> Some (if even n then Mailbox_Ref (n div 2) else Message_Ref (n div 2)) | _ \<Rightarrow> None),
      luaL_checkinteger = (\<lambda>st i. case slot_or_nil st i of VNum n \<Rightarrow> Some (sint n) | _ \<Rightarrow> None),
      fmt_pointer = (\<lambda>p. ''0x'' @ replicate p CHR ''0'')\<rparr>"

lemma list_ref_laws: "ref_laws list_ref_api id demo_udata"
proof -
  have "luaL_checkref list_ref_api st i = Some r" if "slot st i = Some (demo_udata r)" for st i r
    using that by (cases r) (simp_all add: list_ref_api_def slot_or_nil_def)
  then show ?thesis by (auto simp: ref_laws_def) (simp add: list_ref_api_def)
qed

section \<open>Properties\<close>

text \<open>C23. A reply reaches the caller: when a worker has answered message \<open>p\<close> with the values \<open>vs\<close>
  its function left on the stack, \<open>ref:get ()\<close> in the sender's state does not block and returns
  exactly these values, in order and number, as \<open>lua_message\<close> converts them.\<close>

theorem get_returns_reply:
  assumes "lua_laws A stk" and "stk L2 = vs" and "span vs < 2 ^ 29" and "\<And>v. v \<in> set vs \<Longrightarrow> benign len_first v"
    and "lua_message_pop A junk base len_first L2 0 = Inr reply"
    and "w_msgs w p = released False (m\<lparr>msg_content := reply\<rparr>)" and "1 < ref_count m"
    and "lua_laws (rt_api R) stk'" and "ref_laws G stk' udata" and "stk' (vm L) = [udata (Message_Ref p)]"
  shows "\<exists>L' n. l_mailbox_message_get R G w L = Inr (Some (L', n)) \<and>
    results (stk' (vm L')) n = arrivals base 4 vs \<and> n = int (length vs)"
proof -
  have st2: "stk L2 = [] @ vs" using assms(2) by simp
  have "lua_message_pop A junk base len_first L2 (int (length ([] :: lua_value list))) = Inr reply" using assms(5) by simp
  from message_transfer [OF assms(1,8) st2 assms(3,4) this] obtain M' where
    push: "lua_message_push (rt_api R) (vm L) reply = Inr (M', int (length vs))"
      "stk' M' = stk' (vm L) @ arrivals base 4 vs" by blast
  have "check_message_ref G (vm L) 1 = Inr p" using check_refs(2) [OF assms(9)] assms(10) by simp
  moreover have "w_msgs w p = Some (m\<lparr>msg_content := reply, msg_state := MSG_READY, ref_count := ref_count m - 1\<rparr>)"
    using assms(6,7) by (simp add: released_def)
  ultimately show ?thesis
    using push assms(10)
    by (simp add: l_mailbox_message_get_def mailbox_wait_for_reply_def mailbox_message_get_content_def the_msg_def results_def)
qed

theorem get_returns_reply_witness:
  "\<exists>L' n. l_mailbox_message_get (list_runtime (\<lambda>f. Inr)) list_ref_api
       ((demo_world False TASK_IDLE [])\<lparr>w_msgs := [50 \<mapsto> demo_message\<lparr>msg_state := MSG_READY, ref_count := 1\<rparr>]\<rparr>)
       (task_L (demo_task TASK_IDLE [demo_udata (Message_Ref 50)])) = Inr (Some (L', n)) \<and> n = 0"
proof -
  let ?A = "list_api (\<lambda>f. Inr)" and ?L = "task_L (demo_task TASK_IDLE [demo_udata (Message_Ref 50)])"
  let ?w = "(demo_world False TASK_IDLE [])\<lparr>w_msgs := [50 \<mapsto> demo_message\<lparr>msg_state := MSG_READY, ref_count := 1\<rparr>]\<rparr>"
  have laws: "lua_laws (rt_api (list_runtime (\<lambda>f. Inr))) id" by (simp add: list_api_laws)
  have pop: "lua_message_pop ?A (\<lambda>_. 0) 4096 True [] 0 = Inr None" by (rule demo_pop_empty)
  have msg: "w_msgs ?w 50 = released False (demo_message\<lparr>msg_content := None\<rparr>)" "1 < ref_count demo_message"
    by (simp_all add: released_def demo_message_def)
  from get_returns_reply [OF list_api_laws _ _ _ pop msg laws list_ref_laws, of "[]" ?L] show ?thesis
    by auto
qed

text \<open>C24. \<open>ref:send (...)\<close> to a live mailbox hands over the arguments: it returns a reference to a new
  message that is last in the recipient's mailbox and whose content carries the arguments, and
  the recipient's task is scheduled.\<close>

theorem l_message_send_ok:
  assumes "lua_laws (rt_api R) stk" and "ref_laws G stk udata" and "stk (vm L) = udata (Mailbox_Ref b) # args"
    and "span args < 2 ^ 29" and "\<And>v. v \<in> set args \<Longrightarrow> benign (rt_len_first R) v"
    and "lua_message_pop (rt_api R) (rt_junk R) (rt_base R) (rt_len_first R) (vm L) 1 = Inr content"
    and "world_ok w" and "w_boxes w b = Some mb" and "mb_state mb = MBOX_ALIVE" and "mb_task mb = Some t"
    and "w_tasks w t = Some task" and "w_msgs w p = None" and "length (mail_of w b) < 2 ^ 32 - 1"
  shows "\<exists>w' L' m. l_message_send R G w L p = Inr (w', L', 1) \<and> results (stk (vm L')) 1 = [udata (Message_Ref p)] \<and>
    mail_of w' b = mail_of w b @ [p] \<and> w_msgs w' p = Some m \<and> msg_state m = MSG_WAITING \<and> ref_count m = 2 \<and>
    (\<exists>task'. w_tasks w' t = Some task' \<and> task_state task' \<noteq> TASK_IDLE) \<and>
    (\<forall>M. \<exists>M'. lua_message_push (rt_api R) M (msg_content m) = Inr (M', int (length args)) \<and>
       stk M' = stk M @ arrivals (rt_base R) 4 args)"
proof -
  obtain w' m where send: "mailbox_send w (mailbox_get L) b content p = Inr (w', Some p)"
    "mail_of w' b = mail_of w b @ [p]" "w_msgs w' p = Some m" "msg_content m = content" "msg_state m = MSG_WAITING"
    "ref_count m = 2" "\<exists>task'. w_tasks w' t = Some task' \<and> task_state task' \<noteq> TASK_IDLE"
    using mailbox_send_spec [OF assms(7-13), of "mailbox_get L" content] by blast
  have run: "l_message_send R G w L p = Inr (w', L\<lparr>vm := lua_newref G (vm L) (Message_Ref p)\<rparr>, 1)"
    using check_refs(1) [OF assms(2,3)] assms(6) send(1) by (simp add: l_message_send_def)
  have st: "stk (vm L) = [udata (Mailbox_Ref b)] @ args" using assms(3) by simp
  have "lua_message_pop (rt_api R) (rt_junk R) (rt_base R) (rt_len_first R) (vm L) (int (length [udata (Mailbox_Ref b)])) = Inr content"
    using assms(6) by simp
  note message_transfer [OF assms(1,1) st assms(4,5) this]
  then show ?thesis
    using run send check_refs(3) [OF assms(2), of "vm L" "Message_Ref p"]
    by (intro exI [of _ w'] exI [of _ "L\<lparr>vm := lua_newref G (vm L) (Message_Ref p)\<rparr>"] exI [of _ m])
       (auto simp: results_def simp del: mail_of_box)
qed

theorem l_message_send_ok_witness:
  "\<exists>w' L'. l_message_send (list_runtime (\<lambda>f. Inr)) list_ref_api (demo_world True TASK_PROCESSING [])
       (task_L (demo_task TASK_IDLE [demo_udata (Mailbox_Ref 2)])) 51 = Inr (w', L', 1) \<and> mail_of w' 2 = [50, 51]"
proof -
  let ?R = "list_runtime (\<lambda>f. Inr)" and ?w = "demo_world True TASK_PROCESSING []"
  let ?L = "task_L (demo_task TASK_IDLE [demo_udata (Mailbox_Ref 2)])"
  have laws: "lua_laws (rt_api ?R) id" by (simp add: list_api_laws)
  have st: "id (vm ?L) = demo_udata (Mailbox_Ref 2) # []" by (simp del: demo_udata.simps)
  have pop: "lua_message_pop (rt_api ?R) (rt_junk ?R) (rt_base ?R) (rt_len_first ?R) (vm ?L) 1 = Inr None"
    by (simp add: lua_message_pop_def list_api_def del: demo_udata.simps)
  have fresh: "w_msgs ?w 51 = None" "length (mail_of ?w 2) < 2 ^ 32 - 1" "mb_task (demo_box True) = Some 9"
    by (simp_all add: demo_world_ok del: mail_of_box) (simp_all add: demo_world_def demo_box_def)
  from l_message_send_ok [OF laws list_ref_laws st _ _ pop demo_world_ok(1) demo_simps(4,9) fresh(3) demo_simps(1) fresh(1,2)]
  show ?thesis by (fastforce simp: demo_world_ok simp del: mail_of_box)
qed

text \<open>\<open>ref:state ()\<close> on a dead mailbox: the code announces two results, whatever it pushed. Only
  when the last message has exactly one value are they false and that value; with no last message
  the results are the reference itself (a true value) and false, with several values the last two
  of them.\<close>

theorem dead_mailbox_state_results:
  assumes "lua_laws (rt_api R) stk" and "ref_laws G stk udata" and "stk (vm L) = [udata (Mailbox_Ref b)]"
    and "w_boxes w b = Some mb" and "mb_state mb = MBOX_DEAD"
    and "stk L2 = vs" and "span vs < 2 ^ 29" and "\<And>v. v \<in> set vs \<Longrightarrow> benign len_first v"
    and "lua_message_pop (rt_api R) junk base len_first L2 0 = Inr (mb_last_message mb)"
  shows "\<exists>L'. l_mailbox_state R G w L = Inr (L', 2) \<and>
    results (stk (vm L')) 2 = drop (length vs) ([udata (Mailbox_Ref b), VBool False] @ arrivals base 4 vs)"
proof -
  have st2: "stk L2 = [] @ vs" using assms(6) by simp
  have pop: "lua_message_pop (rt_api R) junk base len_first L2 (int (length ([] :: lua_value list))) = Inr (mb_last_message mb)"
    using assms(9) by simp
  obtain M' where push: "lua_message_push (rt_api R) (lua_pushboolean (rt_api R) (vm L) False) (mb_last_message mb) =
      Inr (M', int (length vs))"
    and M': "stk M' = stk (lua_pushboolean (rt_api R) (vm L) False) @ arrivals base 4 vs"
    using message_transfer [OF assms(1,1) st2 assms(7,8) pop] by blast
  have "stk M' = [udata (Mailbox_Ref b), VBool False] @ arrivals base 4 vs"
    using M' assms(3) by (simp add: lua_push_eq [OF assms(1)])
  then show ?thesis
    using check_refs(1) [OF assms(2,3)] assms(4,5) push
    by (simp add: l_mailbox_state_def mailbox_isactive_def mailbox_get_last_message_def the_box_def results_def)
qed

theorem dead_mailbox_state_results_witness:
  "\<exists>L'. l_mailbox_state (list_runtime (\<lambda>f. Inr)) list_ref_api
       (set_box (demo_world False TASK_IDLE []) 2 ((demo_box False)\<lparr>mb_state := MBOX_DEAD\<rparr>))
       (task_L (demo_task TASK_IDLE [demo_udata (Mailbox_Ref 2)])) = Inr (L', 2) \<and>
     results (vm L') 2 = [demo_udata (Mailbox_Ref 2), VBool False]"
proof -
  let ?R = "list_runtime (\<lambda>f. Inr)" and ?L = "task_L (demo_task TASK_IDLE [demo_udata (Mailbox_Ref 2)])"
  let ?mb = "(demo_box False)\<lparr>mb_state := MBOX_DEAD\<rparr>"
  have laws: "lua_laws (rt_api ?R) id" by (simp add: list_api_laws)
  have box: "w_boxes (set_box (demo_world False TASK_IDLE []) 2 ?mb) 2 = Some ?mb" by (simp add: set_box_def)
  have pop: "lua_message_pop (rt_api ?R) (\<lambda>_. 0) 4096 True [] 0 = Inr (mb_last_message ?mb)"
    by (simp add: demo_pop_empty demo_box_def new_mailbox_def)
  from dead_mailbox_state_results [OF laws list_ref_laws _ box _ _ _ _ pop, of ?L "[]"] show ?thesis
    by simp
qed

text \<open>C25. A mailbox has two owners, its task and the parent's reference, and each destroys it once: the
  first, whichever it is, only marks it dead, so that the other can still look at it and sends
  fail; the second frees it.\<close>

theorem mailbox_freed_by_second_owner:
  assumes "check_mailbox_ref G (vm L) 1 = Inr b" and "w_boxes w b = Some mb" and "mb_state mb = MBOX_ALIVE"
  shows "\<exists>w1 w2. mailbox_destroy w b = Inr w1 \<and> l_mailbox_ref_destroy G w L = Inr (w1, 0) \<and>
    mailbox_isactive w1 b = Inr False \<and> mailbox_send w1 sender b content p = Inr (w1, None) \<and>
    mailbox_destroy w1 b = Inr w2 \<and> l_mailbox_ref_destroy G w1 L = Inr (w2, 0) \<and> w_boxes w2 b = None \<and>
    mailbox_destroy w2 b = Inl Use_After_Free"
  using assms
  by (auto simp: l_mailbox_ref_destroy_def mailbox_destroy_def the_box_def set_box_def mailbox_isactive_def mailbox_send_def)

theorem mailbox_freed_by_second_owner_witness:
  "\<exists>w1. l_mailbox_ref_destroy list_ref_api (demo_world False TASK_IDLE []) (task_L (demo_task TASK_IDLE [demo_udata (Mailbox_Ref 2)])) =
     Inr (w1, 0) \<and> mailbox_isactive w1 2 = Inr False"
proof -
  have "check_mailbox_ref list_ref_api (vm (task_L (demo_task TASK_IDLE [demo_udata (Mailbox_Ref 2)]))) 1 = Inr 2"
    by (rule check_refs(1) [OF list_ref_laws]) (simp del: demo_udata.simps)
  from mailbox_freed_by_second_owner [OF this demo_simps(4,9)] show ?thesis by blast
qed

text \<open>C26. Opening the library in a state: the methods Lua finds on a mailbox and on a message reference
  are the ones meant for them, the state gets an empty live mailbox of its own and an empty stack,
  and the pool is created, with five workers, by the first state only.\<close>

theorem luaopen_blocks_ok:
  assumes "lua_laws A stk" and "inj_on (\<lambda>k. fst (news k)) {0..<5}" and "w_boxes (bl_world s) b = None"
    and "world_ok (bl_world s)"
  shows "\<exists>s' L' reg. luaopen_blocks A s L b news = Inr (s', L', reg, 0) \<and>
    stk (vm L') = [] \<and> mailbox_get L' = Some b \<and> w_boxes (bl_world s') b = Some new_mailbox \<and>
    world_ok (bl_world s') \<and> mail_of (bl_world s') b = [] \<and>
    (\<exists>pool. bl_pool s' = Some pool \<and> (bl_pool s = None \<longrightarrow> length (started pool) = 5) \<and>
       (bl_pool s \<noteq> None \<longrightarrow> bl_pool s' = bl_pool s \<and> w_queue (bl_world s') = w_queue (bl_world s))) \<and>
    Option.bind (map_of (reg_metatables reg) MAILBOX_REF_TYPE_NAME) (\<lambda>m. lookup_method m ''send'') = Some (C_Function F_send) \<and>
    Option.bind (map_of (reg_metatables reg) MESSAGE_REF_TYPE_NAME) (\<lambda>m. lookup_method m ''get'') = Some (C_Function F_get)"
proof -
  have init: "\<exists>s1. l_blocks_init s news = Inr s1 \<and> w_msgs (bl_world s1) = w_msgs (bl_world s) \<and>
      w_boxes (bl_world s1) = w_boxes (bl_world s) \<and>
      (\<exists>pool. bl_pool s1 = Some pool \<and> (bl_pool s = None \<longrightarrow> length (started pool) = 5) \<and>
       (bl_pool s \<noteq> None \<longrightarrow> bl_pool s1 = bl_pool s \<and> w_queue (bl_world s1) = w_queue (bl_world s)))"
  proof (cases "bl_pool s")
    case None
    with threadpool_init_spec [of news 5] assms(2) show ?thesis by (auto simp: l_blocks_init_def)
  qed (simp add: l_blocks_init_def)
  then obtain s1 pool where s1: "l_blocks_init s news = Inr s1" "w_msgs (bl_world s1) = w_msgs (bl_world s)"
    "w_boxes (bl_world s1) = w_boxes (bl_world s)" "bl_pool s1 = Some pool"
    "bl_pool s = None \<longrightarrow> length (started pool) = 5"
    "bl_pool s \<noteq> None \<longrightarrow> bl_pool s1 = bl_pool s \<and> w_queue (bl_world s1) = w_queue (bl_world s)"
    by (elim exE conjE) (rule that)
  have new: "world_ok (set_box (bl_world s1) b new_mailbox) \<and> mail_of (set_box (bl_world s1) b new_mailbox) b = [] \<and>
      (\<forall>b'. b' \<noteq> b \<longrightarrow> mail_of (set_box (bl_world s1) b new_mailbox) b' = mail_of (bl_world s) b')"
    by (rule world_ok_new_box [OF assms(4,3), where mb = new_mailbox])
       (simp_all add: s1(2,3) set_box_def, simp_all add: new_mailbox_def)
  show ?thesis
    using s1 new lua_settop_0 [OF assms(1)]
    by (simp add: luaopen_blocks_def mailbox_init_def mailbox_get_def MAILBOX_REF_TYPE_NAME_def MESSAGE_REF_TYPE_NAME_def
        lookup_method_def mailbox_metatable_def message_metatable_def Let_def) (simp add: set_box_def)
qed

theorem luaopen_blocks_ok_witness:
  "\<exists>s' L' reg. luaopen_blocks (list_api (\<lambda>f. Inr)) \<lparr>bl_world = demo_world False TASK_IDLE [], bl_pool = None\<rparr>
       (task_L (demo_task TASK_IDLE [VNil])) 3 (\<lambda>k. (100 + k, k)) = Inr (s', L', reg, 0) \<and> vm L' = []"
proof -
  let ?s = "\<lparr>bl_world = demo_world False TASK_IDLE [], bl_pool = None\<rparr>"
  have "inj_on (\<lambda>k. fst ((\<lambda>k. (100 + k, k)) k)) {0..<5 :: nat}" by (simp add: inj_on_def)
  moreover have "w_boxes (bl_world ?s) 3 = None" by (simp add: demo_world_def)
  moreover have "world_ok (bl_world ?s)" by (simp add: demo_world_ok)
  ultimately show ?thesis using luaopen_blocks_ok [OF list_api_laws, of "\<lambda>k. (100 + k, k)" ?s 3] by fastforce
qed

end
