(* ===== verification/Scheduler.thy ===== *)
theory Scheduler
  imports Blocks
begin

text \<open>
  How the senders (\<open>mailbox_send\<close>, \<^verbatim>\<open>src/blocks/mailbox.c\<close>) and the workers (\<open>worker\<close>,
  \<open>task_destroy\<close>, \<^verbatim>\<open>src/blocks/process.c\<close>) of the pool interleave. A step of the model is one
  locked section, or the code between two of them, of one thread; any thread may step next. A
  mailbox is its queue of messages (the theory \<open>Mailbox\<close> shows that the linked list is one) and
  is named by the task that owns it. Tasks and the pool's queue are those of \<open>Task_Queue\<close>.
\<close>

section \<open>Threads and shared state\<close>

text \<open>Where a sending thread is in \<open>mailbox_send\<close>: after the test of the state, after the append.\<close>

datatype sender_pc = S_Idle | S_Checked ptr ptr | S_Notify ptr

text \<open>
  Where a worker is: waiting for a job; with the popped task; after marking it \<open>PROCESSING\<close>; with
  the message it received, evaluating; after the run; draining the mailbox, marking it dead and
  freeing the task; or after marking the task idle, before the peek and before the notification.
\<close>

datatype worker_pc =
    W_Wait | W_Popped ptr | W_Processing ptr | W_Running ptr "ptr option" | W_Ran ptr
  | W_Dying ptr | W_Close ptr | W_Free ptr | W_Peek ptr | W_Renotify ptr

text \<open>
  \<open>s_sent\<close> and \<open>s_handled\<close> are histories: the messages appended to a mailbox, and those answered
  by a worker. \<open>s_used\<close> holds the task addresses handed out so far: no address is used twice, so
  that a stale pointer is recognised.
\<close>

record 'L sched =
  s_tasks :: "ptr \<Rightarrow> 'L task option"
  s_queue :: "ptr list"
  s_alive :: "ptr \<Rightarrow> bool"
  s_mail :: "ptr \<Rightarrow> ptr list"
  s_senders :: "nat \<Rightarrow> sender_pc"
  s_workers :: "nat \<Rightarrow> worker_pc"
  s_sent :: "ptr \<Rightarrow> ptr list"
  s_handled :: "ptr \<Rightarrow> ptr list"
  s_used :: "ptr set"
  s_fault :: "fault option"

definition sched_init :: "'L sched" where
  "sched_init = \<lparr>s_tasks = Map.empty, s_queue = [], s_alive = (\<lambda>_. False), s_mail = (\<lambda>_. []),
     s_senders = (\<lambda>_. S_Idle), s_workers = (\<lambda>_. W_Wait), s_sent = (\<lambda>_. []), s_handled = (\<lambda>_. []),
     s_used = {}, s_fault = None\<rparr>"

section \<open>The steps\<close>

definition goto_sender :: "'L sched \<Rightarrow> nat \<Rightarrow> sender_pc \<Rightarrow> 'L sched" where
  "goto_sender s i pc = s\<lparr>s_senders := (s_senders s)(i := pc)\<rparr>"

definition goto_worker :: "'L sched \<Rightarrow> nat \<Rightarrow> worker_pc \<Rightarrow> 'L sched" where
  "goto_worker s j pc = s\<lparr>s_workers := (s_workers s)(j := pc)\<rparr>"

definition mark :: "'L sched \<Rightarrow> ptr \<Rightarrow> task_state \<Rightarrow> 'L sched" where
  "mark s t st =
     (case s_tasks s t of
        None \<Rightarrow> s\<lparr>s_fault := Some Use_After_Free\<rparr>
      | Some task \<Rightarrow> s\<lparr>s_tasks := (s_tasks s)(t \<mapsto> task\<lparr>task_state := st\<rparr>)\<rparr>)"

definition notify :: "'L sched \<Rightarrow> ptr \<Rightarrow> 'L sched" where
  "notify s t =
     (case process_notify_task (s_tasks s) (s_queue s) t of
        Inl e \<Rightarrow> s\<lparr>s_fault := Some e\<rparr>
      | Inr (ts, q) \<Rightarrow> s\<lparr>s_tasks := ts, s_queue := q\<rparr>)"

text \<open>The steps of \<open>mailbox_send\<close> in the thread \<open>i\<close>.\<close>

datatype sender_action = Check ptr ptr | Append | Notify

fun sender_act :: "sender_action \<Rightarrow> nat \<Rightarrow> 'L sched \<Rightarrow> 'L sched option" where
  "sender_act (Check t p) i s =
     (if s_senders s i = S_Idle \<and> s_alive s t then Some (goto_sender s i (S_Checked t p)) else None)"
| "sender_act Append i s =
     (case s_senders s i of
        S_Checked t p \<Rightarrow>
          Some (goto_sender (s\<lparr>s_mail := (s_mail s)(t := s_mail s t @ [p]), s_sent := (s_sent s)(t := s_sent s t @ [p])\<rparr>)
            i (S_Notify t))
      | _ \<Rightarrow> None)"
| "sender_act Notify i s =
     (case s_senders s i of S_Notify t \<Rightarrow> Some (goto_sender (notify s t) i S_Idle) | _ \<Rightarrow> None)"

text \<open>
  The steps of \<open>worker\<close> in the thread \<open>j\<close>; \<open>survives\<close> is the test for a function in slot 1. The peek
  reads the reference to the mailbox, which lies in the task's Lua state and is freed with it.
\<close>

datatype worker_action =
    Pop | Begin | Load | Receive | Answer | Decide bool | Drain | Close | Free | Peek | Renotify

fun worker_act :: "worker_action \<Rightarrow> nat \<Rightarrow> 'L sched \<Rightarrow> 'L sched option" where
  "worker_act Pop j s =
     (if s_workers s j = W_Wait then
        (case pop_task (s_queue s) of
           (None, q) \<Rightarrow> None
         | (Some t, q) \<Rightarrow> Some (goto_worker (s\<lparr>s_queue := q\<rparr>) j (W_Popped t)))
      else None)"
| "worker_act Begin j s =
     (case s_workers s j of
        W_Popped t \<Rightarrow> Some (goto_worker (mark s t TASK_PROCESSING) j (W_Processing t)) | _ \<Rightarrow> None)"
| "worker_act Load j s =
     (case s_workers s j of
        W_Processing t \<Rightarrow>
          (case s_tasks s t of
             Some task \<Rightarrow>
               if is_loaded task then None
               else Some (goto_worker (s\<lparr>s_tasks := (s_tasks s)(t \<mapsto> task\<lparr>is_loaded := True\<rparr>)\<rparr>) j (W_Ran t))
           | None \<Rightarrow> None)
      | _ \<Rightarrow> None)"
| "worker_act Receive j s =
     (case s_workers s j of
        W_Processing t \<Rightarrow>
          (case s_tasks s t of
             Some task \<Rightarrow>
               if \<not> is_loaded task then None
               else Some (goto_worker (s\<lparr>s_mail := (s_mail s)(t := tl (s_mail s t))\<rparr>) j
                 (W_Running t (case s_mail s t of [] \<Rightarrow> None | p # ps \<Rightarrow> Some p)))
           | None \<Rightarrow> None)
      | _ \<Rightarrow> None)"
| "worker_act Answer j s =
     (case s_workers s j of
        W_Running t None \<Rightarrow> Some (s\<lparr>s_fault := Some Null_Deref\<rparr>)
      | W_Running t (Some p) \<Rightarrow>
          Some (goto_worker (s\<lparr>s_handled := (s_handled s)(t := s_handled s t @ [p])\<rparr>) j (W_Ran t))
      | _ \<Rightarrow> None)"
| "worker_act (Decide survives) j s =
     (case s_workers s j of
        W_Ran t \<Rightarrow>
          Some (if survives then goto_worker (mark s t TASK_IDLE) j (W_Peek t)
                else goto_worker (mark s t TASK_DEAD) j (W_Dying t))
      | _ \<Rightarrow> None)"
| "worker_act Drain j s =
     (case s_workers s j of
        W_Dying t \<Rightarrow>
          (case s_mail s t of
             [] \<Rightarrow> Some (goto_worker s j (W_Close t))
           | p # ps \<Rightarrow>
               Some (s\<lparr>s_mail := (s_mail s)(t := ps), s_handled := (s_handled s)(t := s_handled s t @ [p])\<rparr>))
      | _ \<Rightarrow> None)"
| "worker_act Close j s =
     (case s_workers s j of
        W_Close t \<Rightarrow> Some (goto_worker (s\<lparr>s_alive := (s_alive s)(t := False)\<rparr>) j (W_Free t)) | _ \<Rightarrow> None)"
| "worker_act Free j s =
     (case s_workers s j of
        W_Free t \<Rightarrow> Some (goto_worker (s\<lparr>s_tasks := (s_tasks s)(t := None)\<rparr>) j W_Wait) | _ \<Rightarrow> None)"
| "worker_act Peek j s =
     (case s_workers s j of
        W_Peek t \<Rightarrow>
          (case s_tasks s t of
             None \<Rightarrow> Some (s\<lparr>s_fault := Some Use_After_Free\<rparr>)
           | Some task \<Rightarrow> Some (goto_worker s j (if s_mail s t = [] then W_Wait else W_Renotify t)))
      | _ \<Rightarrow> None)"
| "worker_act Renotify j s =
     (case s_workers s j of W_Renotify t \<Rightarrow> Some (goto_worker (notify s t) j W_Wait) | _ \<Rightarrow> None)"

text \<open>\<open>process_spawn\<close>: a new task, not loaded, with a live mailbox, queued.\<close>

definition spawn :: "ptr \<Rightarrow> 'L lua_state \<Rightarrow> 'L sched \<Rightarrow> 'L sched option" where
  "spawn t L s =
     (if t \<in> s_used s then None
      else Some (s\<lparr>s_tasks := (s_tasks s)(t \<mapsto> \<lparr>task_L = L, is_loaded = False, task_state = TASK_INIT\<rparr>),
                   s_queue := push_task (s_queue s) t, s_alive := (s_alive s)(t := True),
                   s_used := insert t (s_used s)\<rparr>))"

text \<open>One step of any thread. After a fault nothing is defined.\<close>

datatype 'L action = Spawn ptr "'L lua_state" | Sender sender_action nat | Worker worker_action nat

fun act :: "'L action \<Rightarrow> 'L sched \<Rightarrow> 'L sched option" where
  "act a s =
     (if s_fault s \<noteq> None then None
      else case a of Spawn t L \<Rightarrow> spawn t L s | Sender x i \<Rightarrow> sender_act x i s | Worker x j \<Rightarrow> worker_act x j s)"

inductive sched_step :: "'L sched \<Rightarrow> 'L sched \<Rightarrow> bool" where
  act: "act a s = Some s' \<Longrightarrow> sched_step s s'"

section \<open>The invariant\<close>

text \<open>A worker owns a task from the pop until it marks it idle or frees it.\<close>

fun owns :: "worker_pc \<Rightarrow> ptr \<Rightarrow> bool" where
  "owns (W_Popped t) t' \<longleftrightarrow> t = t'"
| "owns (W_Processing t) t' \<longleftrightarrow> t = t'"
| "owns (W_Running t m) t' \<longleftrightarrow> t = t'"
| "owns (W_Ran t) t' \<longleftrightarrow> t = t'"
| "owns (W_Dying t) t' \<longleftrightarrow> t = t'"
| "owns (W_Close t) t' \<longleftrightarrow> t = t'"
| "owns (W_Free t) t' \<longleftrightarrow> t = t'"
| "owns _ t' \<longleftrightarrow> False"

definition busy :: "'L sched \<Rightarrow> ptr \<Rightarrow> bool" where
  "busy s t \<longleftrightarrow> (\<exists>task. s_tasks s t = Some task \<and> task_state task \<noteq> TASK_IDLE)"

definition token_inv :: "'L sched \<Rightarrow> bool" where
  "token_inv s \<longleftrightarrow>
     distinct (s_queue s) \<and>
     (\<forall>t j. t \<in> set (s_queue s) \<longrightarrow> \<not> owns (s_workers s j) t) \<and>
     (\<forall>t i j. owns (s_workers s i) t \<and> owns (s_workers s j) t \<longrightarrow> i = j) \<and>
     (\<forall>t. (t \<in> set (s_queue s) \<or> (\<exists>j. owns (s_workers s j) t)) \<longleftrightarrow> busy s t) \<and>
     (\<forall>t. s_tasks s t \<noteq> None \<longrightarrow> t \<in> s_used s)"

text \<open>A task that sleeps on a nonempty mailbox is about to be woken.\<close>

definition wakeup_inv :: "'L sched \<Rightarrow> bool" where
  "wakeup_inv s \<longleftrightarrow>
     (\<forall>t task. s_tasks s t = Some task \<and> task_state task = TASK_IDLE \<and> s_mail s t \<noteq> [] \<longrightarrow>
        (\<exists>i. s_senders s i = S_Notify t) \<or> (\<exists>j. s_workers s j = W_Peek t \<or> s_workers s j = W_Renotify t))"

text \<open>The messages a worker has in hand for a task, and the history of every mailbox.\<close>

definition fifo_inv :: "'L sched \<Rightarrow> bool" where
  "fifo_inv s \<longleftrightarrow>
     (\<forall>t. (\<forall>j p. s_workers s j \<noteq> W_Running t (Some p)) \<longrightarrow> s_sent s t = s_handled s t @ s_mail s t) \<and>
     (\<forall>t j p. s_workers s j = W_Running t (Some p) \<longrightarrow> s_sent s t = s_handled s t @ p # s_mail s t)"


lemma goto_simps [simp]:
  "s_tasks (goto_sender s i pc) = s_tasks s" "s_queue (goto_sender s i pc) = s_queue s"
  "s_mail (goto_sender s i pc) = s_mail s" "s_senders (goto_sender s i pc) = (s_senders s)(i := pc)"
  "s_workers (goto_sender s i pc) = s_workers s" "s_sent (goto_sender s i pc) = s_sent s"
  "s_handled (goto_sender s i pc) = s_handled s" "s_used (goto_sender s i pc) = s_used s"
  "s_tasks (goto_worker s i w) = s_tasks s" "s_queue (goto_worker s i w) = s_queue s"
  "s_mail (goto_worker s i w) = s_mail s" "s_senders (goto_worker s i w) = s_senders s"
  "s_workers (goto_worker s i w) = (s_workers s)(i := w)" "s_sent (goto_worker s i w) = s_sent s"
  "s_handled (goto_worker s i w) = s_handled s" "s_used (goto_worker s i w) = s_used s"
  "s_fault (goto_sender s i pc) = s_fault s" "s_fault (goto_worker s i w) = s_fault s"
  "s_alive (goto_sender s i pc) = s_alive s" "s_alive (goto_worker s i w) = s_alive s"
  by (simp_all add: goto_sender_def goto_worker_def)

text \<open>A notification queues an idle task and otherwise changes nothing but the fault.\<close>

lemma notify_cases:
  obtains (idle) task where "s_tasks s t = Some task" and "task_state task = TASK_IDLE"
      and "notify s t = s\<lparr>s_tasks := (s_tasks s)(t \<mapsto> task\<lparr>task_state := TASK_WAITING\<rparr>), s_queue := s_queue s @ [t]\<rparr>"
    | (busy) "busy s t" and "notify s t = s"
    | (freed) "s_tasks s t = None" and "notify s t = s\<lparr>s_fault := Some Use_After_Free\<rparr>"
proof (cases "s_tasks s t")
  case None
  then show ?thesis by (intro freed) (simp_all add: notify_def process_notify_task_def)
next
  case (Some task)
  show ?thesis
  proof (cases "task_state task = TASK_IDLE")
    case True
    with Some show ?thesis by (intro idle) (simp_all add: notify_def process_notify_task_idle)
  next
    case False
    with Some show ?thesis by (intro busy) (simp_all add: notify_def process_notify_task_busy busy_def)
  qed
qed

text \<open>
  The invariant of the tokens, task by task: a busy task is queued and unowned, or owned by one
  worker; a task that is not busy is neither.
\<close>

definition token_at :: "'L sched \<Rightarrow> ptr \<Rightarrow> bool" where
  "token_at s t \<longleftrightarrow>
     (if busy s t then
        (t \<in> set (s_queue s) \<and> (\<forall>j. \<not> owns (s_workers s j) t)) \<or>
        (t \<notin> set (s_queue s) \<and> (\<exists>j. \<forall>i. owns (s_workers s i) t \<longleftrightarrow> i = j))
      else t \<notin> set (s_queue s) \<and> (\<forall>j. \<not> owns (s_workers s j) t)) \<and>
     (s_tasks s t \<noteq> None \<longrightarrow> t \<in> s_used s)"

lemma token_inv_at: "token_inv s \<longleftrightarrow> distinct (s_queue s) \<and> (\<forall>t. token_at s t)"
  unfolding token_inv_def token_at_def by (rule iffI) (simp, metis, metis)

lemma token_atD:
  assumes "token_inv s"
  shows "distinct (s_queue s)" and "token_at s t"
    and "owns (s_workers s j) t \<Longrightarrow> busy s t \<and> t \<notin> set (s_queue s) \<and> (\<forall>i. owns (s_workers s i) t \<longleftrightarrow> i = j)"
    and "t \<in> set (s_queue s) \<Longrightarrow> busy s t \<and> (\<forall>i. \<not> owns (s_workers s i) t)"
    and "\<not> busy s t \<Longrightarrow> t \<notin> set (s_queue s) \<and> (\<forall>i. \<not> owns (s_workers s i) t)"
  using assms by (auto simp: token_inv_at) (auto simp: token_at_def split: if_splits)

lemma token_at_cong:
  assumes "token_at s t" and "t \<in> set (s_queue s') \<longleftrightarrow> t \<in> set (s_queue s)" and "s_used s \<subseteq> s_used s'"
    and "\<And>j. owns (s_workers s' j) t = owns (s_workers s j) t"
    and "map_option task_state (s_tasks s' t) = map_option task_state (s_tasks s t)"
  shows "token_at s' t"
proof -
  have "busy s' t = busy s t"
    using assms(5) unfolding busy_def by (cases "s_tasks s t"; cases "s_tasks s' t") simp_all
  moreover have "s_tasks s' t = None \<longleftrightarrow> s_tasks s t = None"
    using assms(5) by (metis map_option_is_None)
  ultimately show ?thesis using assms(1-4) by (auto simp: token_at_def)
qed

lemma token_cong:
  assumes "token_inv s" and "s_queue s' = s_queue s" and "s_used s' = s_used s"
    and "\<And>j t. owns (s_workers s' j) t = owns (s_workers s j) t"
    and "\<And>t. map_option task_state (s_tasks s' t) = map_option task_state (s_tasks s t)"
  shows "token_inv s'"
  using assms unfolding token_inv_at by (auto intro: token_at_cong)

lemma token_notify:
  assumes "token_inv s" shows "token_inv (notify s t)"
proof (cases rule: notify_cases [of s t])
  case (idle task)
  have "\<not> busy s t" using idle by (simp add: busy_def)
  note free = token_atD(5) [OF assms this]
  have "token_at (notify s t) t"
    using free idle token_atD(2) [OF assms, of t] by (auto simp: token_at_def busy_def)
  moreover have "token_at (notify s t) t'" if "t' \<noteq> t" for t'
    by (rule token_at_cong [OF token_atD(2) [OF assms, of t']]) (simp_all add: idle that)
  moreover have "distinct (s_queue (notify s t))" using free idle token_atD(1) [OF assms] by simp
  ultimately show ?thesis unfolding token_inv_at by metis
next
  case busy
  then show ?thesis using assms by simp
next
  case freed
  show ?thesis by (rule token_cong [OF assms]) (simp_all add: freed)
qed

text \<open>A step of worker \<open>j\<close> that concerns the task \<open>t\<close> only.\<close>

lemma token_local:
  assumes inv: "token_inv s" and at: "token_at s' t" and q: "distinct (s_queue s')" "s_used s' = s_used s"
    and others: "\<And>t'. t' \<noteq> t \<Longrightarrow> t' \<in> set (s_queue s') \<longleftrightarrow> t' \<in> set (s_queue s)"
      "\<And>t' i. t' \<noteq> t \<Longrightarrow> owns (s_workers s' i) t' = owns (s_workers s i) t'"
      "\<And>t'. t' \<noteq> t \<Longrightarrow> s_tasks s' t' = s_tasks s t'"
  shows "token_inv s'"
proof -
  have "token_at s' t'" if "t' \<noteq> t" for t'
    by (rule token_at_cong [OF token_atD(2) [OF inv, of t']]) (simp_all add: others that q)
  with at q(1) show ?thesis unfolding token_inv_at by metis
qed

lemma token_mark:
  assumes inv: "token_inv s" and own: "owns (s_workers s j) t" "\<And>t'. t' \<noteq> t \<Longrightarrow> owns pc t' = owns (s_workers s j) t'"
    and pc: "owns pc t \<longleftrightarrow> st \<noteq> TASK_IDLE"
  shows "token_inv (goto_worker (mark s t st) j pc)"
proof -
  note o = token_atD(3) [OF inv own(1)]
  then obtain task where t: "s_tasks s t = Some task" by (auto simp: busy_def)
  have "token_at (goto_worker (mark s t st) j pc) t"
    using o t pc token_atD(2) [OF inv, of t] by (auto simp: token_at_def busy_def mark_def)
  then show ?thesis
    by (rule token_local [OF inv]) (use t own token_atD(1) [OF inv] in \<open>auto simp: mark_def\<close>)
qed

lemma token_worker:
  assumes inv: "token_inv s" and step: "worker_act a j s = Some s'"
  shows "token_inv s'"
proof (cases a)
  case Pop
  with step obtain t q where q: "s_queue s = t # q" "s_workers s j = W_Wait" "s' = goto_worker (s\<lparr>s_queue := q\<rparr>) j (W_Popped t)"
    by (cases "s_queue s") (auto split: if_splits)
  have dist: "distinct (t # q)" and o: "busy s t \<and> (\<forall>i. \<not> owns (s_workers s i) t)"
    using token_atD(1,4) [OF inv] q(1) by (metis, metis list.set_intros(1))
  have "token_at s' t" using o dist q token_atD(2) [OF inv, of t] by (auto simp: token_at_def busy_def)
  then show ?thesis by (rule token_local [OF inv]) (use q dist in auto)
next
  case Begin
  with step obtain t where "s_workers s j = W_Popped t" "s' = goto_worker (mark s t TASK_PROCESSING) j (W_Processing t)"
    by (auto split: worker_pc.splits)
  then show ?thesis using token_mark [OF inv, of j t] by simp
next
  case Load
  with step obtain t task where t: "s_workers s j = W_Processing t" "s_tasks s t = Some task"
    "s' = goto_worker (s\<lparr>s_tasks := (s_tasks s)(t \<mapsto> task\<lparr>is_loaded := True\<rparr>)\<rparr>) j (W_Ran t)"
    by (auto split: worker_pc.splits option.splits if_splits)
  show ?thesis by (rule token_cong [OF inv]) (auto simp: t)
next
  case Receive
  with step show ?thesis by (auto split: worker_pc.splits option.splits if_splits intro!: token_cong [OF inv])
next
  case Answer
  with step show ?thesis by (auto split: worker_pc.splits option.splits if_splits intro!: token_cong [OF inv])
next
  case (Decide survives)
  with step obtain t where "s_workers s j = W_Ran t"
    "s' = (if survives then goto_worker (mark s t TASK_IDLE) j (W_Peek t) else goto_worker (mark s t TASK_DEAD) j (W_Dying t))"
    by (auto split: worker_pc.splits)
  then show ?thesis using token_mark [OF inv, of j t] by simp
next
  case Drain
  with step show ?thesis by (auto split: worker_pc.splits list.splits if_splits intro!: token_cong [OF inv])
next
  case Close
  with step show ?thesis by (auto split: worker_pc.splits if_splits intro!: token_cong [OF inv])
next
  case Free
  with step obtain t where t: "s_workers s j = W_Free t"
    "s' = goto_worker (s\<lparr>s_tasks := (s_tasks s)(t := None)\<rparr>) j W_Wait"
    by (auto split: worker_pc.splits)
  have own: "owns (s_workers s j) t" using t by simp
  have "token_at s' t" using token_atD(3) [OF inv own] t by (auto simp: token_at_def busy_def)
  then show ?thesis by (rule token_local [OF inv]) (use t token_atD(1) [OF inv] in auto)
next
  case Peek
  with step show ?thesis by (auto split: worker_pc.splits option.splits if_splits intro!: token_cong [OF inv])
next
  case Renotify
  with step obtain t where t: "s_workers s j = W_Renotify t" "s' = goto_worker (notify s t) j W_Wait"
    by (auto split: worker_pc.splits)
  have "s_workers (notify s t) = s_workers s" by (cases rule: notify_cases [of s t]) simp_all
  then show ?thesis using t by (intro token_cong [OF token_notify [OF inv, of t]]) auto
qed


lemma token_sender:
  assumes inv: "token_inv s" and step: "sender_act a i s = Some s'"
  shows "token_inv s'"
proof (cases a)
  case (Check t p)
  with step show ?thesis by (auto split: if_splits intro!: token_cong [OF inv])
next
  case Append
  with step show ?thesis by (auto split: sender_pc.splits intro!: token_cong [OF inv])
next
  case Notify
  with step obtain t where "s' = goto_sender (notify s t) i S_Idle" by (auto split: sender_pc.splits)
  then show ?thesis by (intro token_cong [OF token_notify [OF inv, of t]]) auto
qed

lemma token_spawn:
  assumes inv: "token_inv s" and step: "spawn t L s = Some s'"
  shows "token_inv s'"
proof -
  have new: "t \<notin> s_used s" using step by (simp add: spawn_def split: if_splits)
  then have none: "s_tasks s t = None" using inv by (auto simp: token_inv_def)
  then have free: "t \<notin> set (s_queue s)" "\<And>i. \<not> owns (s_workers s i) t"
    using token_atD(5) [OF inv, of t] by (auto simp: busy_def)
  have s': "s_tasks s' = (s_tasks s)(t \<mapsto> \<lparr>task_L = L, is_loaded = False, task_state = TASK_INIT\<rparr>)"
    "s_queue s' = s_queue s @ [t]" "s_workers s' = s_workers s" "s_used s' = insert t (s_used s)"
    using step new by (auto simp: spawn_def push_task_eq)
  have "token_at s' t" using free by (simp add: token_at_def busy_def s')
  moreover have "token_at s' t'" if "t' \<noteq> t" for t'
    by (rule token_at_cong [OF token_atD(2) [OF inv, of t']]) (auto simp: s' that)
  moreover have "distinct (s_queue s')" using free token_atD(1) [OF inv] by (simp add: s')
  ultimately show ?thesis unfolding token_inv_at by metis
qed

section \<open>No lost wake-up\<close>

text \<open>Somebody will still look at the mailbox of \<open>t\<close>.\<close>

definition pending :: "'L sched \<Rightarrow> ptr \<Rightarrow> bool" where
  "pending s t \<longleftrightarrow> (\<exists>i. s_senders s i = S_Notify t) \<or> (\<exists>j. s_workers s j = W_Peek t \<or> s_workers s j = W_Renotify t)"

definition asleep :: "'L sched \<Rightarrow> ptr \<Rightarrow> bool" where
  "asleep s t \<longleftrightarrow> s_tasks s t \<noteq> None \<and> \<not> busy s t \<and> s_mail s t \<noteq> []"

lemma wakeup_inv_alt: "wakeup_inv s \<longleftrightarrow> (\<forall>t. asleep s t \<longrightarrow> pending s t)"
  unfolding wakeup_inv_def asleep_def pending_def busy_def by auto

lemma wakeup_mono:
  assumes "wakeup_inv s" and "\<And>t. asleep s' t \<Longrightarrow> pending s' t \<or> asleep s t \<and> (pending s t \<longrightarrow> pending s' t)"
  shows "wakeup_inv s'"
  using assms unfolding wakeup_inv_alt by blast

lemma pending_worker:
  "s_senders s' = s_senders s \<Longrightarrow> s_workers s' = (s_workers s)(j := pc) \<Longrightarrow>
   s_workers s j \<noteq> W_Peek t \<Longrightarrow> s_workers s j \<noteq> W_Renotify t \<Longrightarrow> pending s t \<Longrightarrow> pending s' t"
  unfolding pending_def by (metis fun_upd_apply)

lemma notify_frame [simp]:
  "s_mail (notify s t) = s_mail s" "s_senders (notify s t) = s_senders s" "s_workers (notify s t) = s_workers s"
  "s_sent (notify s t) = s_sent s" "s_handled (notify s t) = s_handled s"
  by (cases rule: notify_cases [of s t]; simp)+

lemma asleep_notify: "asleep (notify s t) t' \<longleftrightarrow> asleep s t' \<and> t' \<noteq> t"
proof (cases rule: notify_cases [of s t])
  case (idle task)
  then show ?thesis by (auto simp: asleep_def busy_def)
next
  case busy
  then show ?thesis by (auto simp: asleep_def)
next
  case freed
  then show ?thesis by (auto simp: asleep_def busy_def)
qed

lemma mark_frame [simp]:
  "s_mail (mark s t st) = s_mail s" "s_senders (mark s t st) = s_senders s" "s_workers (mark s t st) = s_workers s"
  "s_sent (mark s t st) = s_sent s" "s_handled (mark s t st) = s_handled s"
  by (simp_all add: mark_def split: option.split)

lemma asleep_mark: "asleep (mark s t st) t' \<longleftrightarrow> (if t' = t then s_tasks s t \<noteq> None \<and> st = TASK_IDLE \<and> s_mail s t \<noteq> [] else asleep s t')"
  by (auto simp: asleep_def busy_def mark_def split: option.split)

lemma asleep_goto [simp]: "asleep (goto_worker s j pc) = asleep s" "asleep (goto_sender s i spc) = asleep s"
  by (simp_all add: asleep_def busy_def fun_eq_iff)

lemma wakeup_quiet:
  assumes inv: "wakeup_inv s" and same: "s_senders s' = s_senders s" "s_workers s' = (s_workers s)(j := pc)"
    and pc: "\<And>t. s_workers s j \<noteq> W_Peek t \<and> s_workers s j \<noteq> W_Renotify t"
    and sl: "\<And>t. asleep s' t \<Longrightarrow> asleep s t"
  shows "wakeup_inv s'"
proof (rule wakeup_mono [OF inv])
  fix t assume "asleep s' t"
  with sl pending_worker [OF same, of t] pc show "pending s' t \<or> asleep s t \<and> (pending s t \<longrightarrow> pending s' t)"
    by blast
qed

lemma wakeup_decide:
  assumes inv: "wakeup_inv s" and u: "s_workers s j = W_Ran u"
  shows "wakeup_inv (goto_worker (mark s u TASK_IDLE) j (W_Peek u))"
    and "wakeup_inv (goto_worker (mark s u TASK_DEAD) j (W_Dying u))"
proof -
  show "wakeup_inv (goto_worker (mark s u TASK_IDLE) j (W_Peek u))"
  proof (rule wakeup_mono [OF inv])
    fix t assume sl: "asleep (goto_worker (mark s u TASK_IDLE) j (W_Peek u)) t"
    show "pending (goto_worker (mark s u TASK_IDLE) j (W_Peek u)) t \<or>
        asleep s t \<and> (pending s t \<longrightarrow> pending (goto_worker (mark s u TASK_IDLE) j (W_Peek u)) t)"
    proof (cases "t = u")
      case True
      then show ?thesis by (auto simp: pending_def)
    next
      case False
      then have "asleep s t" using sl by (simp add: asleep_mark)
      moreover have "pending s t \<Longrightarrow> pending (goto_worker (mark s u TASK_IDLE) j (W_Peek u)) t"
        by (rule pending_worker [of _ s j "W_Peek u"]) (simp_all add: u)
      ultimately show ?thesis by blast
    qed
  qed
  show "wakeup_inv (goto_worker (mark s u TASK_DEAD) j (W_Dying u))"
    by (rule wakeup_quiet [OF inv, of _ j "W_Dying u"]) (auto simp: u asleep_mark split: if_splits)
qed

lemma wakeup_after_run:
  assumes inv: "wakeup_inv s"
  shows "s_workers s j = W_Peek u \<Longrightarrow> wakeup_inv (goto_worker s j (if s_mail s u = [] then W_Wait else W_Renotify u))"
    and "s_workers s j = W_Renotify u \<Longrightarrow> wakeup_inv (goto_worker (notify s u) j W_Wait)"
proof -
  let ?s = "goto_worker s j (if s_mail s u = [] then W_Wait else W_Renotify u)"
  assume u: "s_workers s j = W_Peek u"
  show "wakeup_inv ?s"
  proof (rule wakeup_mono [OF inv])
    fix t assume "asleep ?s t"
    then have as: "asleep s t" by simp
    show "pending ?s t \<or> asleep s t \<and> (pending s t \<longrightarrow> pending ?s t)"
    proof (cases "t = u")
      case True
      then have "s_workers ?s j = W_Renotify t" using as by (simp add: asleep_def)
      then show ?thesis unfolding pending_def by blast
    next
      case False
      then have "pending s t \<Longrightarrow> pending ?s t"
        by (intro pending_worker [of ?s s j "if s_mail s u = [] then W_Wait else W_Renotify u"]) (simp_all add: u)
      with as show ?thesis by blast
    qed
  qed
next
  let ?s = "goto_worker (notify s u) j W_Wait"
  assume u: "s_workers s j = W_Renotify u"
  show "wakeup_inv ?s"
  proof (rule wakeup_mono [OF inv])
    fix t assume "asleep ?s t"
    then have as: "asleep s t" "t \<noteq> u" by (simp_all add: asleep_notify)
    then have "pending s t \<Longrightarrow> pending ?s t"
      by (intro pending_worker [of ?s s j W_Wait]) (simp_all add: u)
    with as show "pending ?s t \<or> asleep s t \<and> (pending s t \<longrightarrow> pending ?s t)" by blast
  qed
qed

lemma wakeup_worker:
  assumes inv: "wakeup_inv s" and step: "worker_act a j s = Some s'"
  shows "wakeup_inv s'"
proof (cases a)
  case Pop
  with step obtain t q where q: "s_workers s j = W_Wait" "s' = goto_worker (s\<lparr>s_queue := q\<rparr>) j (W_Popped t)"
    by (cases "s_queue s") (auto split: if_splits)
  show ?thesis by (rule wakeup_quiet [OF inv, of _ j "W_Popped t"]) (auto simp: q asleep_def busy_def)
next
  case Begin
  with step obtain t where t: "s_workers s j = W_Popped t" "s' = goto_worker (mark s t TASK_PROCESSING) j (W_Processing t)"
    by (auto split: worker_pc.splits)
  show ?thesis by (rule wakeup_quiet [OF inv, of _ j "W_Processing t"]) (auto simp: t asleep_mark split: if_splits)
next
  case Load
  with step obtain t task where t: "s_workers s j = W_Processing t" "s_tasks s t = Some task"
    "s' = goto_worker (s\<lparr>s_tasks := (s_tasks s)(t \<mapsto> task\<lparr>is_loaded := True\<rparr>)\<rparr>) j (W_Ran t)"
    by (auto split: worker_pc.splits option.splits if_splits)
  show ?thesis by (rule wakeup_quiet [OF inv, of _ j "W_Ran t"]) (auto simp: t asleep_def busy_def split: if_splits)
next
  case Receive
  with step obtain t where t: "s_workers s j = W_Processing t"
    "s' = goto_worker (s\<lparr>s_mail := (s_mail s)(t := tl (s_mail s t))\<rparr>) j
      (W_Running t (case s_mail s t of [] \<Rightarrow> None | p # ps \<Rightarrow> Some p))"
    by (auto split: worker_pc.splits option.splits if_splits)
  show ?thesis
    by (rule wakeup_quiet [OF inv, of _ j "W_Running t (case s_mail s t of [] \<Rightarrow> None | p # ps \<Rightarrow> Some p)"])
       (auto simp: t asleep_def busy_def split: if_splits)
next
  case Answer
  with step obtain t m where t: "s_workers s j = W_Running t m" by (auto split: worker_pc.splits)
  with Answer step have s': "s' = (case m of None \<Rightarrow> s\<lparr>s_fault := Some Null_Deref\<rparr>
      | Some p \<Rightarrow> goto_worker (s\<lparr>s_handled := (s_handled s)(t := s_handled s t @ [p])\<rparr>) j (W_Ran t))"
    by (cases m) auto
  show ?thesis
    by (rule wakeup_quiet [OF inv, of _ j "if m = None then W_Running t m else W_Ran t"])
       (auto simp: t s' asleep_def busy_def split: option.splits)
next
  case (Decide survives)
  with step wakeup_decide [OF inv] show ?thesis by (auto split: worker_pc.splits)
next
  case Drain
  with step obtain t where t: "s_workers s j = W_Dying t" by (auto split: worker_pc.splits)
  with Drain step have s': "s' = (case s_mail s t of [] \<Rightarrow> goto_worker s j (W_Close t)
      | p # ps \<Rightarrow> s\<lparr>s_mail := (s_mail s)(t := ps), s_handled := (s_handled s)(t := s_handled s t @ [p])\<rparr>)"
    by (auto split: list.splits)
  show ?thesis
    by (rule wakeup_quiet [OF inv, of _ j "if s_mail s t = [] then W_Close t else W_Dying t"])
       (auto simp: t s' asleep_def busy_def split: list.splits if_splits)
next
  case Close
  with step obtain t where t: "s_workers s j = W_Close t" "s' = goto_worker (s\<lparr>s_alive := (s_alive s)(t := False)\<rparr>) j (W_Free t)"
    by (auto split: worker_pc.splits)
  show ?thesis by (rule wakeup_quiet [OF inv, of _ j "W_Free t"]) (auto simp: t asleep_def busy_def)
next
  case Free
  with step obtain t where t: "s_workers s j = W_Free t" "s' = goto_worker (s\<lparr>s_tasks := (s_tasks s)(t := None)\<rparr>) j W_Wait"
    by (auto split: worker_pc.splits)
  show ?thesis by (rule wakeup_quiet [OF inv, of _ j W_Wait]) (auto simp: t asleep_def busy_def split: if_splits)
next
  case Peek
  have "wakeup_inv (s\<lparr>s_fault := Some Use_After_Free\<rparr>)" using inv by (simp add: wakeup_inv_def)
  with Peek step wakeup_after_run(1) [OF inv] show ?thesis by (auto split: worker_pc.splits option.splits)
next
  case Renotify
  with step wakeup_after_run(2) [OF inv] show ?thesis by (auto split: worker_pc.splits)
qed


lemma pending_sender:
  "s_workers s' = s_workers s \<Longrightarrow> s_senders s' = (s_senders s)(i := pc) \<Longrightarrow>
   s_senders s i \<noteq> S_Notify t \<Longrightarrow> pending s t \<Longrightarrow> pending s' t"
  unfolding pending_def by (metis fun_upd_apply)

lemma wakeup_sender:
  assumes inv: "wakeup_inv s" and step: "sender_act a i s = Some s'"
  shows "wakeup_inv s'"
proof (rule wakeup_mono [OF inv])
  fix t assume sl: "asleep s' t"
  show "pending s' t \<or> asleep s t \<and> (pending s t \<longrightarrow> pending s' t)"
  proof (cases a)
    case (Check u p)
    with step have s': "s_senders s i = S_Idle" "s' = goto_sender s i (S_Checked u p)" by (auto split: if_splits)
    have "pending s t \<Longrightarrow> pending s' t"
      by (rule pending_sender [of _ s i "S_Checked u p"]) (simp_all add: s')
    with sl s' show ?thesis by simp
  next
    case Append
    with step obtain u p where u: "s_senders s i = S_Checked u p" "s' = goto_sender (s\<lparr>s_mail := (s_mail s)(u := s_mail s u @ [p]),
        s_sent := (s_sent s)(u := s_sent s u @ [p])\<rparr>) i (S_Notify u)"
      by (auto split: sender_pc.splits)
    show ?thesis
    proof (cases "t = u")
      case True
      then show ?thesis using u by (auto simp: pending_def)
    next
      case False
      then have "asleep s t" using sl u by (simp add: asleep_def busy_def)
      moreover have "pending s t \<Longrightarrow> pending s' t"
        by (rule pending_sender [of _ s i "S_Notify u"]) (simp_all add: u)
      ultimately show ?thesis by blast
    qed
  next
    case Notify
    with step obtain u where u: "s_senders s i = S_Notify u" "s' = goto_sender (notify s u) i S_Idle"
      by (auto split: sender_pc.splits)
    then have as: "asleep s t" "t \<noteq> u" using sl by (simp_all add: asleep_notify)
    then have "pending s t \<Longrightarrow> pending s' t"
      by (intro pending_sender [of s' s i S_Idle]) (simp_all add: u)
    with as show ?thesis by blast
  qed
qed

lemma wakeup_spawn:
  assumes inv: "wakeup_inv s" and step: "spawn t L s = Some s'"
  shows "wakeup_inv s'"
proof (rule wakeup_mono [OF inv])
  fix u assume "asleep s' u"
  then have "asleep s u" using step by (auto simp: spawn_def asleep_def busy_def split: if_splits)
  moreover have "pending s u \<Longrightarrow> pending s' u" using step by (auto simp: spawn_def pending_def split: if_splits)
  ultimately show "pending s' u \<or> asleep s u \<and> (pending s u \<longrightarrow> pending s' u)" by blast
qed

section \<open>First in, first out, exactly once\<close>

lemma fifo_cong:
  assumes "fifo_inv s" and "s_mail s' = s_mail s" "s_sent s' = s_sent s" "s_handled s' = s_handled s"
    and "\<And>j t p. s_workers s' j = W_Running t (Some p) \<longleftrightarrow> s_workers s j = W_Running t (Some p)"
  shows "fifo_inv s'"
  using assms unfolding fifo_inv_def by simp

text \<open>A step that concerns the mailbox of \<open>t\<close> only.\<close>

definition fifo_at :: "'L sched \<Rightarrow> ptr \<Rightarrow> bool" where
  "fifo_at s t \<longleftrightarrow>
     ((\<forall>j p. s_workers s j \<noteq> W_Running t (Some p)) \<longrightarrow> s_sent s t = s_handled s t @ s_mail s t) \<and>
     (\<forall>j p. s_workers s j = W_Running t (Some p) \<longrightarrow> s_sent s t = s_handled s t @ p # s_mail s t)"

lemma fifo_local:
  assumes "fifo_inv s" and "fifo_at s' t"
    and "\<And>u. u \<noteq> t \<Longrightarrow> s_mail s' u = s_mail s u \<and> s_sent s' u = s_sent s u \<and> s_handled s' u = s_handled s u"
    and "\<And>j u p. u \<noteq> t \<Longrightarrow> s_workers s' j = W_Running u (Some p) \<longleftrightarrow> s_workers s j = W_Running u (Some p)"
  shows "fifo_inv s'"
proof -
  have "fifo_at s' u" if "u \<noteq> t" for u
  proof -
    have "fifo_at s u" using assms(1) unfolding fifo_inv_def fifo_at_def by blast
    with assms(3,4) [OF that] show ?thesis unfolding fifo_at_def by simp
  qed
  with assms(2) have "\<forall>u. fifo_at s' u" by metis
  then show ?thesis unfolding fifo_inv_def fifo_at_def by blast
qed

lemma only_runner: "token_inv s \<Longrightarrow> owns (s_workers s j) t \<Longrightarrow> s_workers s i = W_Running t m \<Longrightarrow> i = j"
  using token_atD(3) [of s j t] by (metis owns.simps(3))

lemma fifo_worker:
  assumes inv: "fifo_inv s" and tok: "token_inv s" and step: "worker_act a j s = Some s'"
  shows "fifo_inv s'"
proof (cases a)
  case Receive
  with step obtain t where t: "s_workers s j = W_Processing t"
    "s' = goto_worker (s\<lparr>s_mail := (s_mail s)(t := tl (s_mail s t))\<rparr>) j
      (W_Running t (case s_mail s t of [] \<Rightarrow> None | p # ps \<Rightarrow> Some p))"
    by (auto split: worker_pc.splits option.splits if_splits)
  have "owns (s_workers s j) t" using t by simp
  then have only: "s_workers s i \<noteq> W_Running t m" for i m
    using only_runner [OF tok, of j t i m] t(1) by auto
  then have "s_sent s t = s_handled s t @ s_mail s t" using inv unfolding fifo_inv_def by blast
  with only t have "fifo_at s' t" by (auto simp: fifo_at_def split: list.splits)
  then show ?thesis by (rule fifo_local [OF inv]) (auto simp: t split: list.splits)
next
  case Answer
  with step obtain t m where t: "s_workers s j = W_Running t m" by (auto split: worker_pc.splits)
  show ?thesis
  proof (cases m)
    case None
    then have "s' = s\<lparr>s_fault := Some Null_Deref\<rparr>" using Answer step t by simp
    then show ?thesis by (auto intro: fifo_cong [OF inv])
  next
    case (Some p)
    then have s': "s' = goto_worker (s\<lparr>s_handled := (s_handled s)(t := s_handled s t @ [p])\<rparr>) j (W_Ran t)"
      using Answer step t by simp
    have "owns (s_workers s j) t" using t by simp
    then have only: "s_workers s i = W_Running t m' \<Longrightarrow> i = j" for i m'
      using only_runner [OF tok, of j t i m'] by auto
    have "s_sent s t = s_handled s t @ p # s_mail s t" using inv t Some unfolding fifo_inv_def by blast
    with only have "fifo_at s' t" by (auto simp: fifo_at_def s' dest: only)
    then show ?thesis by (rule fifo_local [OF inv]) (auto simp: s' t Some)
  qed
next
  case Drain
  with step obtain t where t: "s_workers s j = W_Dying t" by (auto split: worker_pc.splits)
  with Drain step have s': "s' = (case s_mail s t of [] \<Rightarrow> goto_worker s j (W_Close t)
      | p # ps \<Rightarrow> s\<lparr>s_mail := (s_mail s)(t := ps), s_handled := (s_handled s)(t := s_handled s t @ [p])\<rparr>)"
    by (auto split: list.splits)
  have "owns (s_workers s j) t" using t by simp
  then have only: "s_workers s i \<noteq> W_Running t m" for i m
    using only_runner [OF tok, of j t i m] t by auto
  then have "s_sent s t = s_handled s t @ s_mail s t" using inv unfolding fifo_inv_def by blast
  with only t s' have "fifo_at s' t" by (auto simp: fifo_at_def split: list.splits)
  then show ?thesis by (rule fifo_local [OF inv]) (auto simp: t s' split: list.splits)
next
  case Pop
  with step show ?thesis
    by (cases "s_queue s") (auto intro!: fifo_cong [OF inv] split: if_splits)
next
  case Load
  with step show ?thesis
    by (auto intro!: fifo_cong [OF inv] split: worker_pc.splits option.splits if_splits)
qed (use step in \<open>auto intro!: fifo_cong [OF inv] split: worker_pc.splits option.splits if_splits\<close>)

lemma fifo_sender:
  assumes inv: "fifo_inv s" and step: "sender_act a i s = Some s'"
  shows "fifo_inv s'"
proof (cases a)
  case Append
  with step obtain u p where u: "s' = goto_sender (s\<lparr>s_mail := (s_mail s)(u := s_mail s u @ [p]),
      s_sent := (s_sent s)(u := s_sent s u @ [p])\<rparr>) i (S_Notify u)"
    by (auto split: sender_pc.splits)
  have "fifo_at s u" using inv unfolding fifo_inv_def fifo_at_def by blast
  then have "fifo_at s' u" by (auto simp: fifo_at_def u)
  then show ?thesis by (rule fifo_local [OF inv]) (auto simp: u)
qed (use step in \<open>auto intro!: fifo_cong [OF inv] split: sender_pc.splits if_splits\<close>)

section \<open>Reachable states\<close>

definition sched_inv :: "'L sched \<Rightarrow> bool" where
  "sched_inv s \<longleftrightarrow> token_inv s \<and> wakeup_inv s \<and> fifo_inv s"

interpretation scheduler: step_system "\<lambda>s. s = sched_init" sched_step sched_inv
proof
  fix s :: "'L sched" assume "s = sched_init"
  then show "sched_inv s"
    by (simp add: sched_inv_def token_inv_def wakeup_inv_def fifo_inv_def sched_init_def busy_def)
next
  fix s t :: "'L sched" assume inv: "sched_inv s" and step: "sched_step s t"
  from step obtain a where a: "act a s = Some t" by cases
  show "sched_inv t"
  proof (cases a)
    case (Spawn u L)
    then have sp: "spawn u L s = Some t" using a by (simp split: if_splits)
    then have "fifo_inv t" using inv by (auto simp: spawn_def sched_inv_def intro!: fifo_cong [of s] split: if_splits)
    with sp inv show ?thesis unfolding sched_inv_def by (blast intro: token_spawn wakeup_spawn)
  next
    case (Sender x i)
    then have "sender_act x i s = Some t" using a by (simp split: if_splits)
    with inv show ?thesis unfolding sched_inv_def by (blast intro: token_sender wakeup_sender fifo_sender)
  next
    case (Worker x j)
    then have "worker_act x j s = Some t" using a by (simp split: if_splits)
    with inv show ?thesis unfolding sched_inv_def by (blast intro: token_worker wakeup_worker fifo_worker)
  qed
qed


section \<open>Schedules\<close>

text \<open>Running a given sequence of steps.\<close>

fun run_schedule :: "'L action list \<Rightarrow> 'L sched \<Rightarrow> 'L sched option" where
  "run_schedule [] s = Some s"
| "run_schedule (a # as) s = Option.bind (act a s) (run_schedule as)"

lemma run_schedule_reach: "run_schedule as s = Some s' \<Longrightarrow> sched_step\<^sup>*\<^sup>* s s'"
proof (induction as arbitrary: s)
  case Nil
  then show ?case by simp
next
  case (Cons a as)
  then obtain s1 where s1: "act a s = Some s1" "run_schedule as s1 = Some s'"
    by (auto simp del: act.simps simp: bind_eq_Some_conv)
  from s1(1) have "sched_step s s1" by (rule sched_step.act)
  then show ?case using Cons.IH [OF s1(2)] by (rule converse_rtranclp_into_rtranclp)
qed

lemma run_schedule_append: "run_schedule (as @ bs) s = Option.bind (run_schedule as s) (run_schedule bs)"
  by (induction as arbitrary: s) (auto simp del: act.simps split: Option.bind_split)

abbreviation no_state :: "unit lua_state" where
  "no_state \<equiv> \<lparr>vm = (), mailbox_key = None, parent_mailbox_key = None, current_message_key = None\<rparr>"

text \<open>A worker loads the new task 1.\<close>

definition load_task :: "unit action list" where
  "load_task = [Spawn 1 no_state, Worker Pop 0, Worker Begin 0, Worker Load 0]"

lemmas schedule_defs = sched_init_def goto_sender_def goto_worker_def mark_def notify_def
  process_notify_task_def spawn_def load_task_def

text \<open>A task that is gone answers nothing any more.\<close>

lemma gone_step:
  assumes step: "sched_step s s'" and inv: "sched_inv s" and gone: "s_tasks s t = None" "t \<in> s_used s"
  shows "s_tasks s' t = None \<and> t \<in> s_used s' \<and> s_handled s' t = s_handled s t"
proof -
  have none: "\<not> owns (s_workers s j) t" for j
    using token_atD(5) [of s t] inv gone by (auto simp: sched_inv_def busy_def)
  have mark: "s_tasks (mark s u st) t = None" "s_used (mark s u st) = s_used s" for u st
    using gone by (auto simp: mark_def split: option.splits)
  have notify: "s_tasks (notify s u) t = None" "s_used (notify s u) = s_used s" for u
    using gone by (cases rule: notify_cases [of s u]; auto)+
  from step obtain a where a: "act a s = Some s'" by cases
  show ?thesis
  proof (cases a)
    case (Spawn u L)
    with a gone show ?thesis by (auto simp: spawn_def split: if_splits)
  next
    case (Sender x i)
    then show ?thesis using a gone notify
      by (cases x) (auto split: if_splits sender_pc.splits)
  next
    case (Worker x j)
    then have st: "worker_act x j s = Some s'" using a by (simp split: if_splits)
    show ?thesis
    proof (cases x)
      case Pop
      with st gone show ?thesis by (cases "s_queue s") (auto split: if_splits)
    qed (use st gone none [of j] mark notify in
        \<open>auto split: worker_pc.splits option.splits if_splits list.splits\<close>)
  qed
qed

lemma gone_forever:
  assumes "sched_step\<^sup>*\<^sup>* s s'" and "sched_inv s" and "s_tasks s t = None" and "t \<in> s_used s"
  shows "s_handled s' t = s_handled s t"
proof -
  have "sched_inv s' \<and> s_tasks s' t = None \<and> t \<in> s_used s' \<and> s_handled s' t = s_handled s t"
    using assms
  proof (induction rule: rtranclp_induct)
    case (step y z)
    then have "sched_inv y" "sched_inv z" by (auto intro: scheduler.inv_step)
    with step gone_step [OF step.hyps(2)] show ?case by simp
  qed simp
  then show ?thesis by simp
qed

section \<open>Properties\<close>

text \<open>The worker that runs a task, or peeks at its mailbox, reads the task's Lua state.\<close>

definition reads_state :: "worker_pc \<Rightarrow> ptr \<Rightarrow> bool" where
  "reads_state pc t \<longleftrightarrow> owns pc t \<or> pc = W_Peek t"

text \<open>C27. A task is run by at most one worker: in every reachable state a task is either queued once and
  owned by no worker, or not queued and owned by exactly one, or idle or gone and neither; so every task
  that is not idle makes progress when its thread runs. Two workers that both read the Lua state of a
  task do so only because one of them peeks at the mailbox, after it marked the task idle.\<close>

theorem lua_state_exclusive:
  assumes "sched_step\<^sup>*\<^sup>* sched_init s"
  shows "distinct (s_queue s) \<and>
    (if busy s t then
       (t \<in> set (s_queue s) \<and> (\<forall>j. \<not> owns (s_workers s j) t)) \<or>
       (t \<notin> set (s_queue s) \<and> (\<exists>!j. owns (s_workers s j) t))
     else t \<notin> set (s_queue s) \<and> (\<forall>j. \<not> owns (s_workers s j) t)) \<and>
    (\<forall>j k. reads_state (s_workers s j) t \<and> reads_state (s_workers s k) t \<longrightarrow>
       j = k \<or> s_workers s j = W_Peek t \<or> s_workers s k = W_Peek t)"
proof -
  have inv: "token_inv s" using scheduler.inv_reachable [OF refl assms] by (simp add: sched_inv_def)
  then have "j = k" if "owns (s_workers s j) t" "owns (s_workers s k) t" for j k
    using that unfolding token_inv_def by blast
  then have "\<forall>j k. reads_state (s_workers s j) t \<and> reads_state (s_workers s k) t \<longrightarrow>
       j = k \<or> s_workers s j = W_Peek t \<or> s_workers s k = W_Peek t" by (auto simp: reads_state_def)
  with inv show ?thesis unfolding token_inv_at token_at_def by metis
qed

theorem lua_state_exclusive_witness:
  "\<exists>s :: unit sched. sched_step\<^sup>*\<^sup>* sched_init s \<and> busy s 1 \<and> (\<exists>!j. owns (s_workers s j) 1)"
proof -
  have "\<exists>s. run_schedule load_task sched_init = Some s \<and> busy s 1 \<and> 1 \<notin> set (s_queue s)"
    by (simp add: schedule_defs busy_def)
  then obtain s :: "unit sched" where s: "sched_step\<^sup>*\<^sup>* sched_init s" "busy s 1" "1 \<notin> set (s_queue s)"
    using run_schedule_reach by blast
  with lua_state_exclusive [OF s(1), of 1] show ?thesis by auto
qed

text \<open>The worker \<open>j\<close> loads the new task \<open>t\<close>, marks it idle, and sees the message \<open>p\<close> of the sender \<open>i\<close>.\<close>

definition peeked :: "ptr \<Rightarrow> ptr \<Rightarrow> nat \<Rightarrow> nat \<Rightarrow> 'L lua_state \<Rightarrow> 'L action list" where
  "peeked t p i j L = [Spawn t L, Worker Pop j, Worker Begin j, Worker Load j, Worker (Decide True) j,
     Sender (Check t p) i, Sender Append i, Sender Notify i, Worker Peek j]"

text \<open>The worker \<open>k\<close> pops the task and answers its message.\<close>

definition answers :: "nat \<Rightarrow> 'L action list" where
  "answers k = map (\<lambda>a. Worker a k) [Pop, Begin, Receive, Answer]"

lemmas race_defs = schedule_defs peeked_def answers_def

text \<open>C28. The peek after a run reads freed memory: for any two workers, one can mark a task idle and, before it
  peeks, the other can run the task to its end and free it; the peek is then the step that faults,
  with no other thread in the way and no earlier fault.\<close>

theorem peek_race_use_after_free:
  assumes "j \<noteq> k"
  shows "\<exists>s s' :: 'L sched. sched_step\<^sup>*\<^sup>* sched_init s \<and> s_fault s = None \<and> s_workers s j = W_Peek t \<and> s_tasks s t = None \<and>
    (\<forall>i. s_senders s i = S_Idle) \<and> s_workers s k = W_Wait \<and> s_sent s t = [p] \<and> s_handled s t = [p] \<and>
    act (Worker Peek j) s = Some s' \<and> s_fault s' = Some Use_After_Free"
proof -
  fix L :: "'L lua_state" and i :: nat
  let ?before = "[Spawn t L, Worker Pop j, Worker Begin j, Worker Load j, Worker (Decide True) j,
     Sender (Check t p) i, Sender Append i, Sender Notify i]"
  have "\<exists>s. run_schedule (?before @ answers k @ map (\<lambda>a. Worker a k) [Decide False, Drain, Close, Free]) sched_init = Some s \<and>
      s_fault s = None \<and> s_workers s j = W_Peek t \<and> s_tasks s t = None \<and> (\<forall>i. s_senders s i = S_Idle) \<and>
      s_workers s k = W_Wait \<and> s_sent s t = [p] \<and> s_handled s t = [p]"
    using assms by (simp add: race_defs)
  then obtain s :: "'L sched" where s: "sched_step\<^sup>*\<^sup>* sched_init s" "s_fault s = None" "s_workers s j = W_Peek t" "s_tasks s t = None"
    "\<forall>i. s_senders s i = S_Idle" "s_workers s k = W_Wait" "s_sent s t = [p]" "s_handled s t = [p]" using run_schedule_reach by blast
  moreover have "act (Worker Peek j) s = Some (s\<lparr>s_fault := Some Use_After_Free\<rparr>)" using s(2-4) by simp
  ultimately show ?thesis by (intro exI [of _ s] exI [of _ "s\<lparr>s_fault := Some Use_After_Free\<rparr>"]) simp
qed

theorem peek_race_use_after_free_witness:
  "\<exists>s s' :: unit sched. sched_step\<^sup>*\<^sup>* sched_init s \<and> s_fault s = None \<and> s_workers s 0 = W_Peek 1 \<and> s_tasks s 1 = None \<and>
    (\<forall>i. s_senders s i = S_Idle) \<and> s_workers s 1 = W_Wait \<and> s_sent s 1 = [50] \<and> s_handled s 1 = [50] \<and>
    act (Worker Peek 0) s = Some s' \<and> s_fault s' = Some Use_After_Free"
  by (rule peek_race_use_after_free) simp

text \<open>C29. No wake-up is lost: in every reachable state, a task that sleeps although its mailbox has
  messages is about to be notified by the thread that sent one or by the worker that put it to
  sleep; and a notification of an idle task queues it.\<close>

theorem no_lost_wakeup:
  assumes "sched_step\<^sup>*\<^sup>* sched_init s"
    and "s_tasks s t = Some task" and "task_state task = TASK_IDLE" and "s_mail s t \<noteq> []"
  shows "((\<exists>i. s_senders s i = S_Notify t) \<or> (\<exists>j. s_workers s j = W_Peek t \<or> s_workers s j = W_Renotify t)) \<and>
    t \<in> set (s_queue (notify s t))"
proof -
  have "wakeup_inv s" using scheduler.inv_reachable [OF refl assms(1)] by (simp add: sched_inv_def)
  with assms(2-4) show ?thesis
    by (auto simp: wakeup_inv_def notify_def process_notify_task_idle)
qed

theorem no_lost_wakeup_witness:
  "\<exists>s :: unit sched. sched_step\<^sup>*\<^sup>* sched_init s \<and> s_mail s 1 = [50] \<and> 1 \<in> set (s_queue (notify s 1))"
proof -
  have "\<exists>s task. run_schedule (load_task @ [Worker (Decide True) 0, Sender (Check 1 50) 0, Sender Append 0]) sched_init = Some s \<and>
      s_tasks s 1 = Some task \<and> task_state task = TASK_IDLE \<and> s_mail s 1 = [50]"
    by (simp add: schedule_defs)
  then obtain s :: "unit sched" and task where s: "sched_step\<^sup>*\<^sup>* sched_init s" "s_tasks s 1 = Some task"
    "task_state task = TASK_IDLE" "s_mail s 1 = [50]"
    using run_schedule_reach by blast
  with no_lost_wakeup [OF s(1-3)] show ?thesis by auto
qed

text \<open>C30. Messages are answered in the order in which they were sent, each exactly once: in every
  reachable state the messages ever appended to a mailbox are those answered, then the one a
  worker has in hand, then those still queued.\<close>

theorem messages_answered_in_order:
  assumes "sched_step\<^sup>*\<^sup>* sched_init s"
  shows "s_sent s t = s_handled s t @ s_mail s t \<and> (\<forall>j p. s_workers s j \<noteq> W_Running t (Some p)) \<or>
    (\<exists>j p. s_workers s j = W_Running t (Some p) \<and> s_sent s t = s_handled s t @ p # s_mail s t)"
proof -
  have "fifo_inv s" using scheduler.inv_reachable [OF refl assms] by (simp add: sched_inv_def)
  then show ?thesis unfolding fifo_inv_def by blast
qed


theorem messages_answered_in_order_witness:
  "\<exists>s :: unit sched. sched_step\<^sup>*\<^sup>* sched_init s \<and> s_handled s 1 = [50] \<and> s_mail s 1 = [51] \<and> s_sent s 1 = [50, 51]"
proof -
  have "\<exists>s. run_schedule (load_task @ [Sender (Check 1 50) 0, Sender Append 0, Sender (Check 1 51) 1, Sender Append 1,
      Worker (Decide False) 0, Worker Drain 0]) sched_init = Some s \<and>
      s_handled s 1 = [50] \<and> s_mail s 1 = [51] \<and> s_workers s 0 = W_Dying 1 \<and> (\<forall>j. j \<noteq> 0 \<longrightarrow> s_workers s j = W_Wait)"
    by (simp add: schedule_defs)
  then obtain s :: "unit sched" where s: "sched_step\<^sup>*\<^sup>* sched_init s" "s_handled s 1 = [50]" "s_mail s 1 = [51]"
    "s_workers s 0 = W_Dying 1" "\<forall>j. j \<noteq> 0 \<longrightarrow> s_workers s j = W_Wait"
    using run_schedule_reach by blast
  have "s_workers s j \<noteq> W_Running 1 (Some p)" for j p using s(4,5) by (cases "j = 0") auto
  with messages_answered_in_order [OF s(1), of 1] s show ?thesis by auto
qed

text \<open>C33. The peek after a run and the notification are not one step. For any two workers, one can see a message
  and, before it notifies the task, the other can take that message, answer it and mark the task idle,
  with no sender at work; the notification then queues a task with an empty mailbox, and the worker that
  pops it writes the answer through NULL.\<close>

theorem renotify_race_crashes:
  assumes "j \<noteq> k"
  shows "\<exists>s s' :: 'L sched. sched_step\<^sup>*\<^sup>* sched_init s \<and> s_fault s = None \<and> s_workers s j = W_Renotify t \<and>
    s_workers s k = W_Peek t \<and> (\<forall>i. s_senders s i = S_Idle) \<and> s_queue s = [] \<and>
    s_sent s t = [p] \<and> s_handled s t = [p] \<and> s_mail s t = [] \<and>
    run_schedule (Worker Renotify j # answers j) s = Some s' \<and> s_fault s' = Some Null_Deref"
proof -
  fix L :: "'L lua_state" and i :: nat
  have "\<exists>s s'. run_schedule (peeked t p i j L @ answers k @ [Worker (Decide True) k]) sched_init = Some s \<and> s_fault s = None \<and>
      s_workers s j = W_Renotify t \<and> s_workers s k = W_Peek t \<and> (\<forall>i. s_senders s i = S_Idle) \<and> s_queue s = [] \<and>
      s_sent s t = [p] \<and> s_handled s t = [p] \<and> s_mail s t = [] \<and>
      run_schedule (Worker Renotify j # answers j) s = Some s' \<and> s_fault s' = Some Null_Deref"
    using assms by (simp add: race_defs)
  then show ?thesis using run_schedule_reach by blast
qed

theorem renotify_race_crashes_witness:
  "\<exists>s s' :: unit sched. sched_step\<^sup>*\<^sup>* sched_init s \<and> s_fault s = None \<and> s_workers s 0 = W_Renotify 1 \<and>
    s_workers s 1 = W_Peek 1 \<and> (\<forall>i. s_senders s i = S_Idle) \<and> s_queue s = [] \<and>
    s_sent s 1 = [50] \<and> s_handled s 1 = [50] \<and> s_mail s 1 = [] \<and>
    run_schedule (Worker Renotify 0 # answers 0) s = Some s' \<and> s_fault s' = Some Null_Deref"
  by (rule renotify_race_crashes) simp

text \<open>C34. A sender can notify a freed task. For any sender and worker, between the append and
  \<open>process_notify_task\<close> the dying task can answer the message as a dead letter and be freed: every
  worker is then back at its wait, and the step that faults is the sender's, which locks a mutex in
  freed memory.\<close>

theorem notify_race_use_after_free:
  "\<exists>s s' :: 'L sched. sched_step\<^sup>*\<^sup>* sched_init s \<and> s_fault s = None \<and> s_senders s i = S_Notify t \<and> s_tasks s t = None \<and>
    (\<forall>j. s_workers s j = W_Wait) \<and> s_sent s t = [p] \<and> s_handled s t = [p] \<and>
    act (Sender Notify i) s = Some s' \<and> s_fault s' = Some Use_After_Free"
proof -
  fix L :: "'L lua_state" and j :: nat
  have "\<exists>s s'. run_schedule [Spawn t L, Worker Pop j, Worker Begin j, Worker Load j, Sender (Check t p) i, Sender Append i,
        Worker (Decide False) j, Worker Drain j, Worker Drain j, Worker Close j, Worker Free j] sched_init = Some s \<and>
      s_fault s = None \<and> s_senders s i = S_Notify t \<and> s_tasks s t = None \<and> (\<forall>j. s_workers s j = W_Wait) \<and>
      s_sent s t = [p] \<and> s_handled s t = [p] \<and> act (Sender Notify i) s = Some s' \<and> s_fault s' = Some Use_After_Free"
    by (simp add: schedule_defs)
  then show ?thesis using run_schedule_reach by blast
qed

text \<open>C35. A message can be lost for good: a sender that tested the mailbox before it was marked dead can
  append after the dying task drained it. The task is gone, and in no later state has the message
  been answered, so that a \<open>get\<close> on it blocks for ever.\<close>

theorem late_message_never_answered:
  "\<exists>s :: unit sched. sched_step\<^sup>*\<^sup>* sched_init s \<and> s_fault s = None \<and> s_sent s 1 = [50] \<and>
     \<not> (\<exists>s'. sched_step\<^sup>*\<^sup>* s s' \<and> s_handled s' 1 \<noteq> [])"
proof -
  have "\<exists>s. run_schedule (load_task @ [Sender (Check 1 50) 0, Worker (Decide False) 0, Worker Drain 0,
      Sender Append 0, Worker Close 0, Worker Free 0]) sched_init = Some s \<and>
      s_fault s = None \<and> s_sent s 1 = [50] \<and> s_tasks s 1 = None \<and> 1 \<in> s_used s \<and> s_handled s 1 = []"
    by (simp add: schedule_defs)
  then obtain s :: "unit sched" where s: "sched_step\<^sup>*\<^sup>* sched_init s" "s_fault s = None" "s_sent s 1 = [50]" "s_tasks s 1 = None" "1 \<in> s_used s"
    "s_handled s 1 = []"
    using run_schedule_reach by blast
  have "sched_inv s" using scheduler.inv_reachable [OF refl s(1)] .
  with s gone_forever [of s _ 1] show ?thesis by (intro exI [of _ s]) simp
qed

end
