(* ===== verification/Scheduler_Refines.thy ===== *)
theory Scheduler_Refines
  imports Scheduler
begin

text \<open>
  The functions of the theories \<open>Mailbox\<close> and \<open>Process\<close>, each run without interruption, are runs of the
  interleaving model: \<open>mailbox_send\<close> (\<^verbatim>\<open>src/blocks/mailbox.c\<close>) is the schedule of its three sections,
  and a round of \<open>worker\<close> (\<^verbatim>\<open>src/blocks/process.c\<close>) in which the task survives is that of the worker's
  sections. So the steps of \<open>Scheduler\<close>, whose invariants cover every interleaving, are the code's.
\<close>

section \<open>The abstraction\<close>

text \<open>
  The interleaving model forgets the Lua states, the linked lists and the contents of messages. The
  mailbox of a task is the one its Lua state names and that names the task.
\<close>

definition task_view :: "'L task \<Rightarrow> bool \<times> task_state" where
  "task_view task = (is_loaded task, task_state task)"

definition home :: "'L world \<Rightarrow> ptr \<Rightarrow> ptr \<Rightarrow> mailbox \<Rightarrow> bool" where
  "home w t b mb \<longleftrightarrow> (\<exists>task. w_tasks w t = Some task \<and> mailbox_key (task_L task) = Some b) \<and> w_boxes w b = Some mb \<and> mb_task mb = Some t"

definition same_tasks :: "(ptr \<Rightarrow> 'L task option) \<Rightarrow> (ptr \<Rightarrow> 'L task option) \<Rightarrow> bool" where
  "same_tasks ts ts' \<longleftrightarrow> (\<forall>t. map_option task_view (ts t) = map_option task_view (ts' t))"

definition view :: "'L world \<Rightarrow> 'L sched \<Rightarrow> bool" where
  "view w s \<longleftrightarrow> s_fault s = None \<and> s_queue s = w_queue w \<and> same_tasks (s_tasks s) (w_tasks w) \<and>
     (\<forall>t b mb. home w t b mb \<longrightarrow> s_mail s t = mail_of w b \<and> (s_alive s t \<longleftrightarrow> mb_state mb = MBOX_ALIVE))"

lemma same_tasks_Some:
  "same_tasks ts ts' \<Longrightarrow> ts' t = Some task' \<Longrightarrow>
   \<exists>task. ts t = Some task \<and> task_state task = task_state task' \<and> is_loaded task = is_loaded task'"
  unfolding same_tasks_def by (drule spec [of _ t], cases "ts t") (auto simp: task_view_def)

lemma same_tasks_upd: "same_tasks ts ts' \<Longrightarrow> task_view task = task_view task' \<Longrightarrow> same_tasks (ts(t \<mapsto> task)) (ts'(t \<mapsto> task'))"
  by (simp add: same_tasks_def)

lemma notify_same:
  assumes "same_tasks (s_tasks s) ts" and "s_queue s = q" and "process_notify_task ts q t = Inr (ts', q')"
  shows "\<exists>sts. notify s t = s\<lparr>s_tasks := sts, s_queue := q'\<rparr> \<and> same_tasks sts ts'"
proof -
  from assms(3) obtain task' where task': "ts t = Some task'" by (auto simp: process_notify_task_def split: option.splits)
  from same_tasks_Some [OF assms(1) this] obtain task where task: "s_tasks s t = Some task"
    "task_state task = task_state task'" "is_loaded task = is_loaded task'" by blast
  show ?thesis
  proof (cases "task_state task' = TASK_IDLE")
    case True
    then have "ts' = ts(t \<mapsto> task'\<lparr>task_state := TASK_WAITING\<rparr>)" "q' = q @ [t]"
      using assms(3) process_notify_task_idle [of ts t task' q] task' by auto
    moreover have "same_tasks ((s_tasks s)(t \<mapsto> task\<lparr>task_state := TASK_WAITING\<rparr>)) (ts(t \<mapsto> task'\<lparr>task_state := TASK_WAITING\<rparr>))"
      using task by (intro same_tasks_upd [OF assms(1)]) (simp add: task_view_def)
    moreover have "notify s t = s\<lparr>s_tasks := (s_tasks s)(t \<mapsto> task\<lparr>task_state := TASK_WAITING\<rparr>), s_queue := s_queue s @ [t]\<rparr>"
      using process_notify_task_idle [of "s_tasks s" t task "s_queue s"] task True by (simp add: notify_def)
    ultimately show ?thesis using assms(2) by auto
  next
    case False
    then have "ts' = ts" "q' = q" using assms(3) process_notify_task_busy [of ts t task' q] task' by auto
    moreover have "notify s t = s"
      using process_notify_task_busy [of "s_tasks s" t task "s_queue s"] task False by (simp add: notify_def)
    ultimately show ?thesis using assms(1,2) by (intro exI [of _ "s_tasks s"]) simp
  qed
qed

text \<open>A step at the task \<open>t\<close> and its mailbox \<open>b\<close> that leaves the other mailboxes alone.\<close>

lemma view_step:
  assumes "view w s" and "home w t b mb" and "s_fault s' = None" and "s_queue s' = w_queue w'"
    and "same_tasks (s_tasks s') (w_tasks w')" and "s_alive s' = s_alive s" and "s_mail s' = (s_mail s)(t := mail_of w' b)"
    and "w_boxes w' = (w_boxes w)(b \<mapsto> mb')" and "mb_task mb' = mb_task mb" and "mb_state mb' = mb_state mb"
    and "\<forall>b'. b' \<noteq> b \<longrightarrow> mail_of w' b' = mail_of w b'"
    and "\<And>t'. map_option (mailbox_key \<circ> task_L) (w_tasks w' t') = map_option (mailbox_key \<circ> task_L) (w_tasks w t')"
  shows "view w' s'"
proof -
  have "s_mail s' t' = mail_of w' b' \<and> (s_alive s' t' \<longleftrightarrow> mb_state mb2 = MBOX_ALIVE)" if h: "home w' t' b' mb2" for t' b' mb2
  proof -
    from h obtain task2 where "w_tasks w' t' = Some task2" "mailbox_key (task_L task2) = Some b'" by (auto simp: home_def)
    with assms(12) [of t'] obtain task3 where t3: "w_tasks w t' = Some task3" "mailbox_key (task_L task3) = Some b'"
      by (cases "w_tasks w t'") auto
    have ht: "\<exists>task. w_tasks w t = Some task \<and> mailbox_key (task_L task) = Some b" "w_boxes w b = Some mb" "mb_task mb = Some t"
      using assms(2) by (auto simp: home_def)
    show ?thesis
    proof (cases "b' = b")
      case True
      then have "mb2 = mb'" "t' = t" using h assms(8,9) ht by (auto simp: home_def)
      then show ?thesis using True assms(1,2,6,7,10) by (auto simp: view_def)
    next
      case False
      then have "home w t' b' mb2" "t' \<noteq> t" using h assms(8) t3 ht(1) by (auto simp: home_def)
      then show ?thesis using False assms(1,6,7,11) by (auto simp: view_def)
    qed
  qed
  with assms(3-5) show ?thesis by (simp add: view_def)
qed

section \<open>Sending\<close>

lemma append_frame: "mailbox_append (ms, mb) p = Inr (ms', mb') \<Longrightarrow> mb_task mb' = mb_task mb \<and> mb_state mb' = mb_state mb"
  by (auto simp: mailbox_append_def bind_res_Inr_iff split: if_splits option.splits)

text \<open>What \<open>mailbox_send\<close> leaves alone, and the notification it ends with.\<close>

lemma send_frame:
  assumes "mailbox_send w sender rcpt content p = Inr (w', Some p)" and "w_boxes w rcpt = Some mb" and "mb_task mb = Some t"
  shows "\<exists>mb'. w_boxes w' = (w_boxes w)(rcpt \<mapsto> mb') \<and> mb_task mb' = mb_task mb \<and> mb_state mb' = mb_state mb \<and>
    process_notify_task (w_tasks w) (w_queue w) t = Inr (w_tasks w', w_queue w')"
  using assms
  by (auto simp: mailbox_send_def the_box_def Let_def bind_res_Inr_iff split: if_splits option.splits dest!: append_frame)
    (intro exI conjI, rule refl, simp_all)

lemma notify_keeps_L:
  "process_notify_task ts q t = Inr (ts', q') \<Longrightarrow> map_option task_L (ts' t') = map_option task_L (ts t')"
  by (auto simp: process_notify_task_def Let_def split: option.splits if_splits)

text \<open>C31. An uninterrupted \<open>mailbox_send\<close> to a live mailbox is the schedule of its three locked sections: it ends
  in the state of the interleaving model that stands for the memory it leaves.\<close>

theorem mailbox_send_refines:
  assumes "view w s" and "world_ok w" and "home w t rcpt mb" and "mb_state mb = MBOX_ALIVE" and "w_msgs w p = None"
    and "length (mail_of w rcpt) < 2 ^ 32 - 1" and "s_senders s i = S_Idle"
  shows "\<exists>w' s'. mailbox_send w sender rcpt content p = Inr (w', Some p) \<and>
    run_schedule [Sender (Check t p) i, Sender Append i, Sender Notify i] s = Some s' \<and> view w' s' \<and> world_ok w'"
proof -
  from assms(3) obtain task where task: "w_tasks w t = Some task" "mailbox_key (task_L task) = Some rcpt"
    and box: "w_boxes w rcpt = Some mb" "mb_task mb = Some t" by (auto simp: home_def)
  from mailbox_send_spec [OF assms(2) box(1) assms(4) box(2) task(1) assms(5,6)] obtain w' where
    w': "mailbox_send w sender rcpt content p = Inr (w', Some p)" "mail_of w' rcpt = mail_of w rcpt @ [p]"
      "\<forall>b. b \<noteq> rcpt \<longrightarrow> mail_of w' b = mail_of w b" "world_ok w'" by blast
  from send_frame [OF w'(1) box] obtain mb' where
    fr: "w_boxes w' = (w_boxes w)(rcpt \<mapsto> mb')" "mb_task mb' = mb_task mb" "mb_state mb' = mb_state mb"
      "process_notify_task (w_tasks w) (w_queue w) t = Inr (w_tasks w', w_queue w')" by blast
  have v: "s_fault s = None" "s_queue s = w_queue w" "same_tasks (s_tasks s) (w_tasks w)" "s_alive s t" "s_mail s t = mail_of w rcpt"
    using assms(1,3,4) by (auto simp: view_def)
  let ?s1 = "goto_sender (s\<lparr>s_mail := (s_mail s)(t := s_mail s t @ [p]), s_sent := (s_sent s)(t := s_sent s t @ [p])\<rparr>) i (S_Notify t)"
  obtain sts where sts: "notify ?s1 t = ?s1\<lparr>s_tasks := sts, s_queue := w_queue w'\<rparr>" "same_tasks sts (w_tasks w')"
    using notify_same [of ?s1 "w_tasks w" "w_queue w" t "w_tasks w'" "w_queue w'"] v(2,3) fr(4) by auto
  let ?s2 = "goto_sender (?s1\<lparr>s_tasks := sts, s_queue := w_queue w'\<rparr>) i S_Idle"
  have "run_schedule [Sender (Check t p) i, Sender Append i, Sender Notify i] s = Some ?s2"
    using v(1,4) assms(7) sts(1) by (simp add: goto_sender_def)
  moreover have "view w' ?s2"
  proof (rule view_step [OF assms(1,3) _ _ _ _ _ fr(1-3) w'(3)])
    show "map_option (mailbox_key \<circ> task_L) (w_tasks w' t') = map_option (mailbox_key \<circ> task_L) (w_tasks w t')" for t'
      using notify_keeps_L [OF fr(4), of t'] by (cases "w_tasks w' t'"; cases "w_tasks w t'") auto
  qed (use v sts(2) w'(2) in simp_all)
  ultimately show ?thesis using w'(1,4) by blast
qed

text \<open>Concrete states of the interleaving model: idle threads, and the tasks and the queue of a memory.\<close>

definition idle_sched :: "'L world \<Rightarrow> ptr list \<Rightarrow> 'L sched" where
  "idle_sched w ps = sched_init\<lparr>s_tasks := w_tasks w, s_queue := w_queue w, s_alive := (\<lambda>_. True), s_mail := (\<lambda>_. ps)\<rparr>"

lemma idle_sched_view:
  assumes "w_boxes w = [b \<mapsto> mb]" and "mail_of w b = ps" and "mb_state mb = MBOX_ALIVE"
  shows "view w (idle_sched w ps)"
proof -
  have "mail_of w b' = ps \<and> mb_state mb' = MBOX_ALIVE" if "home w t b' mb'" for t b' mb'
  proof -
    have "w_boxes w b' = Some mb'" using that by (simp add: home_def)
    then have "b' = b" "mb' = mb" using assms(1) by (simp_all split: if_splits)
    then show ?thesis using assms(2,3) by (simp del: mail_of_box)
  qed
  then show ?thesis by (simp add: view_def idle_sched_def sched_init_def same_tasks_def del: mail_of_box)
qed

theorem mailbox_send_refines_witness:
  "\<exists>w' s'. mailbox_send sample_world None 2 None 50 = Inr (w', Some 50) \<and>
    run_schedule [Sender (Check 9 50) 0, Sender Append 0, Sender Notify 0] (idle_sched sample_world []) = Some s' \<and> view w' s'"
proof -
  have v: "view sample_world (idle_sched sample_world [])"
    by (rule idle_sched_view [where b = 2 and mb = sample_box]) (simp_all add: sample_world_ok sample_simps del: mail_of_box,
        simp add: sample_world_def)
  have h: "home sample_world 9 2 sample_box" by (simp add: home_def sample_simps) (simp add: sample_task_def)
  have m: "length (mail_of sample_world 2) < 2 ^ 32 - 1" by (simp add: sample_world_ok del: mail_of_box)
  have i: "s_senders (idle_sched sample_world []) 0 = S_Idle" by (simp add: idle_sched_def sched_init_def)
  from mailbox_send_refines [OF v sample_world_ok(1) h sample_simps(5,3) m i] show ?thesis by blast
qed

section \<open>Spawning\<close>

text \<open>
  \<open>process_spawn\<close> is the one step \<open>Spawn\<close>: a task at a new address with an empty mailbox, queued. The
  new task has the state that holds the copied function and arguments.
\<close>

theorem process_spawn_refines:
  assumes "lua_laws (rt_api R) stk" and "copy_laws (rt_copy R) stk enc dumpable" and "0 < rt_fuel R"
    and "stk (vm parent) = VFun f # args" and "\<And>v. v \<in> set (VFun f # args) \<Longrightarrow> flat dumpable v"
    and "mailbox_key parent = Some pb" and "world_ok w" and "w_boxes w b = None"
    and "view w s" and "t \<notin> s_used s" and "s_mail s t = []"
  shows "\<exists>w' parent' L s'. process_spawn R w parent t b = Inr (w', parent', b) \<and>
    stk (vm L) = VFun load_string_id # map copied args \<and>
    run_schedule [Spawn t L] s = Some s' \<and> view w' s' \<and> world_ok w'"
proof -
  from process_spawn_spec [OF assms(1-8), of t] obtain w' task parent' where w':
    "process_spawn R w parent t b = Inr (w', parent', b)" "w_tasks w' = (w_tasks w)(t \<mapsto> task)"
    "task_state task = TASK_INIT" "\<not> is_loaded task" "stk (vm (task_L task)) = VFun load_string_id # map copied args"
    "mailbox_key (task_L task) = Some b" "w_boxes w' = (w_boxes w)(b \<mapsto> new_mailbox\<lparr>mb_task := Some t\<rparr>)"
    "mail_of w' b = []" "\<forall>b'. b' \<noteq> b \<longrightarrow> mail_of w' b' = mail_of w b'" "world_ok w'" "w_queue w' = w_queue w @ [t]"
    by blast
  let ?new = "\<lparr>task_L = task_L task, is_loaded = False, task_state = TASK_INIT\<rparr>"
  let ?s = "s\<lparr>s_tasks := (s_tasks s)(t \<mapsto> ?new), s_queue := push_task (s_queue s) t, s_alive := (s_alive s)(t := True),
      s_used := insert t (s_used s)\<rparr>"
  have v: "s_fault s = None" "s_queue s = w_queue w" "same_tasks (s_tasks s) (w_tasks w)"
    using assms(9) by (auto simp: view_def)
  have run: "run_schedule [Spawn t (task_L task)] s = Some ?s"
    using v(1) assms(10) by (simp add: spawn_def)
  have same: "same_tasks (s_tasks ?s) (w_tasks w')"
    unfolding w'(2) using same_tasks_upd [OF v(3), of ?new task t] w'(3,4) by (simp add: task_view_def)
  have "s_mail ?s t' = mail_of w' b' \<and> (s_alive ?s t' \<longleftrightarrow> mb_state mb = MBOX_ALIVE)" if h: "home w' t' b' mb" for t' b' mb
  proof (cases "t' = t")
    case True
    then have "b' = b" "mb = new_mailbox\<lparr>mb_task := Some t\<rparr>" using h w'(2,6,7) by (auto simp: home_def)
    then show ?thesis using True assms(11) w'(8) by (simp add: new_mailbox_def)
  next
    case False
    then have "b' \<noteq> b" "home w t' b' mb" using h w'(2,7) by (auto simp: home_def split: if_splits)
    then show ?thesis using False assms(9) w'(9) by (simp add: view_def del: mail_of_box)
  qed
  then have "view w' ?s" using v same w'(11) by (simp add: view_def push_task_eq)
  with run w'(1,5,10) show ?thesis by blast
qed

section \<open>A round of the worker\<close>

text \<open>
  What a round in which the task survives leaves: one message less in the mailbox, and the task
  idle or, when messages are left, queued again. No other thread acts during the evaluation.
\<close>

lemma worker_round:
  assumes "world_ok w" and "w_queue w = t # q" and "w_tasks w t = Some task" and "is_loaded task"
    and "mailbox_key (task_L task) = Some b" and "w_boxes w b = Some mb" and "mail_of w b = p # ps"
    and "w_msgs w p = Some m" and "rt_during R = id"
    and "lua_message_push (rt_api R) (vm (task_L task)) (msg_content m) = Inr (L1, argc)"
    and "lua_eval (rt_api R) L1 = Inr (L2, ret)"
    and "lua_message_pop (rt_api R) (rt_junk R) (rt_base R) (rt_len_first R) L2 0 = Inr reply"
    and "lua_isfunction (rt_api R) L2 1"
  shows "\<exists>w' task' mb'. worker R w = Inr w' \<and> world_ok w' \<and> w_tasks w' = (w_tasks w)(t \<mapsto> task') \<and>
    mailbox_key (task_L task') = Some b \<and> is_loaded task' \<and>
    task_state task' = (if ps = [] then TASK_IDLE else TASK_WAITING) \<and> w_queue w' = (if ps = [] then q else q @ [t]) \<and>
    w_boxes w' = (w_boxes w)(b \<mapsto> mb') \<and> mb_task mb' = mb_task mb \<and> mb_state mb' = mb_state mb \<and>
    mail_of w' b = ps \<and> (\<forall>b'. b' \<noteq> b \<longrightarrow> mail_of w' b' = mail_of w b')"
proof -
  let ?task = "task\<lparr>task_state := TASK_PROCESSING\<rparr>"
  let ?w = "set_task (w\<lparr>w_queue := q\<rparr>) t ?task"
  have start: "worker R w = bind_res (run_message R ?w t b) (\<lambda>w2. after_run R w2 t (Some b))"
    using assms(2-5) by (simp add: worker_def task_access mailbox_get_def)
  have "world_ok ?w" "w_tasks ?w t = Some ?task" "w_boxes ?w b = Some mb" "mail_of ?w b = p # ps" "w_msgs ?w p = Some m"
    using assms by (simp_all del: mail_of_box)
  moreover have "lua_message_push (rt_api R) (vm (task_L ?task)) (msg_content m) = Inr (L1, argc)"
    using assms(10) by simp
  ultimately obtain w1 task' mb' task1 where run: "run_message R ?w t b = answer_message R (set_task w1 t task') t (Some p)"
    and w1: "w_msgs w1 = (w_msgs w)(p \<mapsto> m\<lparr>msg_content := None\<rparr>)" "mail_of w1 b = ps" "w_queue w1 = q"
      "w_boxes w1 = (w_boxes w)(b \<mapsto> mb')" "mb_task mb' = mb_task mb" "mb_state mb' = mb_state mb"
      "w_tasks w1 = (w_tasks w)(t \<mapsto> task1)" "\<forall>b'. b' \<noteq> b \<longrightarrow> mail_of w1 b' = mail_of w b'"
    and hand: "in_hand w1 t b p" and task': "vm (task_L task') = L2" "is_loaded task'" "mailbox_key (task_L task') = Some b"
    using run_message_evals [of ?w t ?task b mb p ps m R L1 argc L2 ret] assms(4,5,9,11) by (auto simp: calm_id simp del: mail_of_box)
  obtain m' where m': "w_msgs w1 p = Some m'" using hand by (auto simp: in_hand_def)
  let ?w3 = "set_task w1 t task'"
  let ?w4 = "?w3\<lparr>w_msgs := (w_msgs ?w3)(p := released False (m'\<lparr>msg_content := reply\<rparr>))\<rparr>"
  have ans: "answer_message R ?w3 t (Some p) = Inr ?w4 \<and> world_ok ?w4 \<and> (\<forall>b'. mail_of ?w4 b' = mail_of ?w3 b')"
    by (rule answer_message_ok [where b = b and task = task']) (use hand m' task' assms(12) in simp_all)
  have "w_tasks ?w4 t = Some task'" "w_boxes ?w4 b = Some mb'" by (simp_all add: w1(4))
  from after_run_survives [OF this(1) _ _ this(2), of R] ans assms(13) task'(1) obtain w5 task5 where w5:
    "after_run R ?w4 t (Some b) = Inr w5" "w_tasks w5 = (w_tasks ?w4)(t \<mapsto> task5)" "task_L task5 = task_L task'"
    "is_loaded task5 = is_loaded task'"
    "w_msgs w5 = w_msgs ?w4" "w_boxes w5 = w_boxes ?w4"
    "if ps = [] then task_state task5 = TASK_IDLE \<and> w_queue w5 = w_queue ?w4
     else task_state task5 = TASK_WAITING \<and> w_queue w5 = w_queue ?w4 @ [t]" using w1(2) by auto
  have m4: "mail_of w5 = mail_of ?w4" by (simp add: mail_of_def fun_eq_iff w5(5,6) split: option.splits)
  then have mail5: "mail_of w5 b' = mail_of w1 b'" for b' using ans by simp
  have "world_ok w5 = world_ok ?w4" unfolding world_ok_def m4 w5(5,6) ..
  with ans have "world_ok w5" by blast
  then show ?thesis
    using start run ans w5 w1 mail5 task'
    by (intro exI [of _ w5] exI [of _ task5] exI [of _ mb']) (auto split: if_splits)
qed

text \<open>The steps of that round.\<close>

definition round_schedule :: "nat \<Rightarrow> bool \<Rightarrow> 'L action list" where
  "round_schedule j left = map (\<lambda>a. Worker a j) ([Pop, Begin, Receive, Answer, Decide True, Peek] @ (if left then [Renotify] else []))"

lemma round_schedule_run:
  assumes "s_fault s = None" and "s_workers s j = W_Wait" and "s_queue s = t # q" and "s_tasks s t = Some task"
    and "is_loaded task" and "s_mail s t = p # ps"
  shows "run_schedule (round_schedule j (ps \<noteq> [])) s = Some (s\<lparr>
    s_tasks := (s_tasks s)(t \<mapsto> task\<lparr>task_state := if ps = [] then TASK_IDLE else TASK_WAITING\<rparr>),
    s_queue := (if ps = [] then q else q @ [t]), s_mail := (s_mail s)(t := ps),
    s_handled := (s_handled s)(t := s_handled s t @ [p]), s_workers := (s_workers s)(j := W_Wait)\<rparr>)"
  using assms
  by (simp add: round_schedule_def mark_def goto_worker_def notify_def process_notify_task_def push_task_eq)

text \<open>C32. A round of \<open>worker\<close> that no other thread disturbs and in which the task survives is the
  schedule of the worker's sections: the message is received, answered and released, the task is
  marked idle and, when messages are left, notified.\<close>

theorem worker_round_refines:
  assumes "view w s" and "world_ok w" and "w_queue w = t # q" and "w_tasks w t = Some task" and "is_loaded task"
    and "mailbox_key (task_L task) = Some b" and "w_boxes w b = Some mb" and "mb_task mb = Some t"
    and "mail_of w b = p # ps" and "w_msgs w p = Some m" and "rt_during R = id"
    and "lua_message_push (rt_api R) (vm (task_L task)) (msg_content m) = Inr (L1, argc)"
    and "lua_eval (rt_api R) L1 = Inr (L2, ret)"
    and "lua_message_pop (rt_api R) (rt_junk R) (rt_base R) (rt_len_first R) L2 0 = Inr reply"
    and "lua_isfunction (rt_api R) L2 1" and "s_workers s j = W_Wait"
  shows "\<exists>w' s'. worker R w = Inr w' \<and> run_schedule (round_schedule j (ps \<noteq> [])) s = Some s' \<and> view w' s' \<and> world_ok w'"
proof -
  have h: "home w t b mb" using assms(4,6-8) by (simp add: home_def)
  obtain w' task' mb' where w': "worker R w = Inr w'" "world_ok w'" "w_tasks w' = (w_tasks w)(t \<mapsto> task')"
    "mailbox_key (task_L task') = Some b" "is_loaded task'" "task_state task' = (if ps = [] then TASK_IDLE else TASK_WAITING)"
    "w_queue w' = (if ps = [] then q else q @ [t])" "w_boxes w' = (w_boxes w)(b \<mapsto> mb')" "mb_task mb' = mb_task mb"
    "mb_state mb' = mb_state mb" "mail_of w' b = ps" "\<forall>b'. b' \<noteq> b \<longrightarrow> mail_of w' b' = mail_of w b'"
    using worker_round [OF assms(2-7,9-15)] by blast
  have v: "s_fault s = None" "s_queue s = t # q" "same_tasks (s_tasks s) (w_tasks w)" "s_mail s t = p # ps"
    using assms(1,3,9) h by (auto simp: view_def simp del: mail_of_box)
  from same_tasks_Some [OF v(3) assms(4)] assms(5) obtain stask where st: "s_tasks s t = Some stask" "is_loaded stask" by blast
  note run = round_schedule_run [OF v(1) assms(16) v(2) st v(4)]
  have same: "same_tasks ((s_tasks s)(t \<mapsto> stask\<lparr>task_state := if ps = [] then TASK_IDLE else TASK_WAITING\<rparr>)) (w_tasks w')"
    unfolding w'(3) by (intro same_tasks_upd [OF v(3)]) (simp add: task_view_def st(2) w'(5,6))
  have "view w' (the (run_schedule (round_schedule j (ps \<noteq> [])) s))"
    unfolding run by (rule view_step [OF assms(1) h _ _ _ _ _ w'(8-10,12)])
      (use v(1) same w'(3,4,7,11) assms(4,6) in \<open>simp_all del: mail_of_box\<close>)
  with run w'(1,2) show ?thesis by simp
qed

theorem worker_round_refines_witness:
  "\<exists>w' s'. worker (list_runtime (\<lambda>f args. Inr [VFun 3])) (demo_world True TASK_WAITING [VFun 3]) = Inr w' \<and>
    run_schedule (round_schedule 0 False) (idle_sched (demo_world True TASK_WAITING [VFun 3]) [50]) = Some s' \<and> view w' s'"
proof -
  let ?R = "list_runtime (\<lambda>f args. Inr [VFun 3])" and ?w = "demo_world True TASK_WAITING [VFun 3]"
  have "\<exists>c. lua_message_pop (rt_api ?R) (rt_junk ?R) (rt_base ?R) (rt_len_first ?R) [VFun 3] (int (length ([] :: lua_value list))) = Inr (Some c) \<and>
      length (message c) = 16 * length [VFun 3] + 260"
    by (rule lua_message_pop_small [where stk = id]) (simp_all add: list_api_laws benign_def)
  then obtain c where pop: "lua_message_pop (rt_api ?R) (rt_junk ?R) (rt_base ?R) (rt_len_first ?R) [VFun 3] 0 = Inr (Some c)"
    by auto
  have mail: "mail_of ?w 2 = 50 # []" by (simp add: demo_world_ok del: mail_of_box)
  have v: "view ?w (idle_sched ?w [50])"
    by (rule idle_sched_view [where b = 2 and mb = "demo_box True"]) (simp_all add: demo_world_ok del: mail_of_box,
        simp add: demo_world_def)
  have push: "lua_message_push (rt_api ?R) (vm (task_L (demo_task TASK_WAITING [VFun 3]))) (msg_content demo_message) = Inr ([VFun 3], 0)"
    by (simp add: demo_push)
  have ev: "lua_eval (rt_api ?R) [VFun 3] = Inr ([VFun 3], LUA_OK)" by (simp add: demo_eval)
  have fn: "lua_isfunction (rt_api ?R) [VFun 3] 1" by (simp add: lua_isfunction_def list_api_def slot_def)
  have box: "mb_task (demo_box True) = Some 9" by (simp add: demo_box_def)
  have idle: "s_workers (idle_sched ?w [50]) 0 = W_Wait" by (simp add: idle_sched_def sched_init_def)
  from worker_round_refines [OF v demo_world_ok(1) demo_simps(2,1,5,6,4) box mail demo_simps(3) list_runtime_simps(3)
      push ev pop fn idle]
  show ?thesis by fastforce
qed

end
