(* ===== verification/Message_Wait.thy ===== *)
theory Message_Wait
  imports Mailbox
begin

text \<open>
  The condition variable of a message (\<^verbatim>\<open>src/blocks/mailbox.c\<close>). \<open>mailbox_wait_for_reply\<close> tests the
  state of the message under its lock and sleeps on the condition \<open>ready\<close> while there is no reply;
  \<open>mailbox_message_reply\<close> stores the reply's state and signals the condition, under the same lock.
  A step of the model is one section under the lock, or one between two of them, of one thread.
\<close>

section \<open>Threads and the condition\<close>

text \<open>
  Where a thread is: before the test, asleep in \<open>pthread_cond_wait\<close>, woken (it has yet to take the
  lock and to repeat the test), or past the call.
\<close>

datatype wait_pc = Before | Blocked | Woken | Returned

record 'L waiting =
  wt_world :: "'L world"
  wt_pc :: "nat \<Rightarrow> wait_pc"

text \<open>\<open>pthread_cond_signal\<close> wakes one thread that sleeps; if none does the signal is lost.\<close>

inductive cond_signal :: "(nat \<Rightarrow> wait_pc) \<Rightarrow> (nat \<Rightarrow> wait_pc) \<Rightarrow> bool" where
  wake: "pcs i = Blocked \<Longrightarrow> cond_signal pcs (pcs(i := Woken))"
| lost: "(\<And>i. pcs i \<noteq> Blocked) \<Longrightarrow> cond_signal pcs pcs"

text \<open>
  \<open>W\<close> are the threads that wait for the message \<open>p\<close>. POSIX lets a thread wake up without a signal
  (\<open>spurious\<close>). \<open>elsewhere\<close> is whatever other threads do that is not a reply to \<open>p\<close>: storing the
  content, mail to other tasks; the waiting thread holds a reference, so that \<open>p\<close> stays allocated.
\<close>

inductive wait_step :: "ptr \<Rightarrow> nat set \<Rightarrow> 'L waiting \<Rightarrow> 'L waiting \<Rightarrow> bool" for p W where
  test: "i \<in> W \<Longrightarrow> wt_pc s i \<in> {Before, Woken} \<Longrightarrow> mailbox_wait_for_reply (wt_world s) p = Inr r \<Longrightarrow>
     wait_step p W s (s\<lparr>wt_pc := (wt_pc s)(i := (case r of None \<Rightarrow> Blocked | Some q \<Rightarrow> Returned))\<rparr>)"
| spurious: "wt_pc s i = Blocked \<Longrightarrow> wait_step p W s (s\<lparr>wt_pc := (wt_pc s)(i := Woken)\<rparr>)"
| reply: "mailbox_message_reply (wt_world s) p dead = Inr w' \<Longrightarrow> cond_signal (wt_pc s) pcs \<Longrightarrow>
     wait_step p W s \<lparr>wt_world = w', wt_pc = pcs\<rparr>"
| elsewhere: "map_option msg_state (w_msgs w' p) = map_option msg_state (w_msgs (wt_world s) p) \<Longrightarrow>
     wait_step p W s (s\<lparr>wt_world := w'\<rparr>)"

definition answered :: "'L world \<Rightarrow> ptr \<Rightarrow> bool" where
  "answered w p \<longleftrightarrow> map_option msg_state (w_msgs w p) \<in> {Some MSG_READY, Some MSG_DEAD}"

definition wait_init :: "ptr \<Rightarrow> 'L waiting \<Rightarrow> bool" where
  "wait_init p s \<longleftrightarrow> w_msgs (wt_world s) p \<noteq> None \<and> wt_pc s = (\<lambda>i. Before)"

section \<open>The invariant\<close>

text \<open>With one waiting thread: it sleeps only on a message without a reply, and returns only with one.\<close>

definition wait_inv :: "ptr \<Rightarrow> nat \<Rightarrow> 'L waiting \<Rightarrow> bool" where
  "wait_inv p i s \<longleftrightarrow> w_msgs (wt_world s) p \<noteq> None \<and> (\<forall>j. j \<noteq> i \<longrightarrow> wt_pc s j = Before) \<and>
     (wt_pc s i = Blocked \<longrightarrow> \<not> answered (wt_world s) p) \<and> (wt_pc s i = Returned \<longrightarrow> answered (wt_world s) p)"

lemma wait_test:
  "mailbox_wait_for_reply w p = Inr r \<longleftrightarrow> w_msgs w p \<noteq> None \<and> r = (if answered w p then Some p else None)"
  by (auto simp: mailbox_wait_for_reply_def the_msg_def answered_def split: option.splits) (metis message_state.exhaust)+

lemma reply_answers:
  "mailbox_message_reply w p dead = Inr w' \<Longrightarrow> w_msgs w' p \<noteq> None \<and> answered w' p"
  by (auto simp: mailbox_message_reply_def the_msg_def set_msg_def answered_def split: option.splits)

interpretation waiter: step_system "wait_init p" "wait_step p {i}" "wait_inv p i" for p i
proof
  show "wait_inv p i s" if "wait_init p s" for s :: "'L waiting"
    using that by (simp add: wait_init_def wait_inv_def)
next
  fix s t :: "'L waiting"
  assume inv: "wait_inv p i s" and step: "wait_step p {i} s t"
  from step show "wait_inv p i t"
  proof cases
    case (test j r)
    with inv show ?thesis by (auto simp: wait_inv_def wait_test)
  next
    case (spurious j)
    with inv show ?thesis by (auto simp: wait_inv_def)
  next
    case (reply dead w' pcs)
    from reply(3) inv have "(\<forall>j. j \<noteq> i \<longrightarrow> pcs j = Before) \<and> pcs i \<noteq> Blocked"
      by cases (auto simp: wait_inv_def)
    then show ?thesis using reply(1) reply_answers [OF reply(2)] by (simp add: wait_inv_def)
  next
    case (elsewhere w')
    then have "answered w' p = answered (wt_world s) p" "w_msgs w' p = None \<longleftrightarrow> w_msgs (wt_world s) p = None"
      by (simp_all add: answered_def) (cases "w_msgs w' p"; cases "w_msgs (wt_world s) p"; simp)
    with elsewhere(1) inv show ?thesis by (simp add: wait_inv_def)
  qed
qed

section \<open>Property\<close>

text \<open>C17. A reply releases the thread that waits for it: in whatever order the one thread that waits tests,
  sleeps and wakes up (also without a signal), somebody replies, and others act, the thread never
  sleeps on a message that has its reply; when it has, the thread has returned or its next test
  returns; and it never returns before the reply. So the signal is never missed between the
  test and the sleep.\<close>

theorem reply_releases_waiter:
  assumes "wait_init p s" and "(wait_step p {i})\<^sup>*\<^sup>* s t"
  shows "(answered (wt_world t) p \<longrightarrow> wt_pc t i \<noteq> Blocked \<and>
      (wt_pc t i \<noteq> Returned \<longrightarrow> wait_step p {i} t (t\<lparr>wt_pc := (wt_pc t)(i := Returned)\<rparr>))) \<and>
    (wt_pc t i = Returned \<longrightarrow> answered (wt_world t) p)"
proof -
  have inv: "wait_inv p i t" using waiter.inv_reachable [OF assms] .
  have "wait_step p {i} t (t\<lparr>wt_pc := (wt_pc t)(i := Returned)\<rparr>)"
    if "answered (wt_world t) p" "wt_pc t i \<noteq> Returned"
  proof -
    have "wt_pc t i \<in> {Before, Woken}" using that inv by (cases "wt_pc t i") (auto simp: wait_inv_def)
    moreover have "mailbox_wait_for_reply (wt_world t) p = Inr (Some p)" using that inv by (simp add: wait_test wait_inv_def)
    ultimately show ?thesis using wait_step.test [of i "{i}" t p "Some p"] by simp
  qed
  with inv show ?thesis by (auto simp: wait_inv_def)
qed

text \<open>For the witness: the thread goes to sleep on a message without a reply, and a reply follows.\<close>

definition asked_world :: "unit world" where
  "asked_world = set_msg sample_world 50 \<lparr>msg_content = None, msg_sender = None, msg_mailbox = 2, msg_next = None,
     msg_state = MSG_WAITING, ref_count = 2\<rparr>"

theorem reply_releases_waiter_witness:
  "\<exists>t. (wait_step 50 {1})\<^sup>*\<^sup>* \<lparr>wt_world = asked_world, wt_pc = (\<lambda>i. Before)\<rparr> t \<and> answered (wt_world t) 50 \<and>
    wt_pc t 1 = Woken \<and> wait_step 50 {1} t (t\<lparr>wt_pc := (wt_pc t)(1 := Returned)\<rparr>)"
proof -
  let ?s = "\<lparr>wt_world = asked_world, wt_pc = (\<lambda>i. Before)\<rparr>" and ?b = "\<lparr>wt_world = asked_world, wt_pc = (\<lambda>i. Before)(1 := Blocked)\<rparr>"
  have init: "wait_init 50 ?s" by (simp add: wait_init_def asked_world_def set_msg_def)
  have "mailbox_wait_for_reply asked_world 50 = Inr None"
    by (simp add: mailbox_wait_for_reply_def asked_world_def set_msg_def the_msg_def)
  with wait_step.test [of 1 "{1}" ?s 50 None] have sleep: "wait_step 50 {1} ?s ?b" by simp
  obtain w' where w': "mailbox_message_reply asked_world 50 False = Inr w'"
    by (simp add: mailbox_message_reply_def the_msg_def asked_world_def set_msg_def)
  let ?t = "\<lparr>wt_world = w', wt_pc = (\<lambda>i. Before)(1 := Blocked, 1 := Woken)\<rparr>"
  have "cond_signal (wt_pc ?b) (wt_pc ?t)" using cond_signal.wake [of "(\<lambda>i. Before)(1 := Blocked)" 1] by simp
  with w' have "wait_step 50 {1} ?b ?t" by (intro wait_step.reply) simp_all
  with sleep have run: "(wait_step 50 {1})\<^sup>*\<^sup>* ?s ?t" by simp
  have "answered (wt_world ?t) 50" using reply_answers [OF w'] by simp
  moreover have "wait_step 50 {1} ?t (?t\<lparr>wt_pc := (wt_pc ?t)(1 := Returned)\<rparr>)"
    using reply_releases_waiter [OF init run] calculation by simp
  ultimately show ?thesis using run by (intro exI [of _ ?t]) simp
qed

end
