(* ===== verification/Http_Parser.thy ===== *)
theory Http_Parser
  imports Prelude
begin

text \<open>
  \<^verbatim>\<open>src/3rd-party/http-parser/http_parser.c\<close>, built with \<open>HTTP_PARSER_STRICT\<close> 0 as the Makefile does:
  the state machine that turns the bytes of a connection into the callbacks of the server. One
  character is one step; each group of cases of the source's \<open>switch\<close> is one function here. The
  callbacks are parameters: they see the parser and change its \<open>data\<close>. A failing assertion and a
  read past the end of a string constant are faults.
\<close>

section \<open>Data\<close>

datatype http_method =
    HTTP_DELETE | HTTP_GET | HTTP_HEAD | HTTP_POST | HTTP_PUT | HTTP_CONNECT | HTTP_OPTIONS | HTTP_TRACE
  | HTTP_COPY | HTTP_LOCK | HTTP_MKCOL | HTTP_MOVE | HTTP_PROPFIND | HTTP_PROPPATCH | HTTP_UNLOCK
  | HTTP_REPORT | HTTP_MKACTIVITY | HTTP_CHECKOUT | HTTP_MERGE | HTTP_MSEARCH | HTTP_NOTIFY
  | HTTP_SUBSCRIBE | HTTP_UNSUBSCRIBE | HTTP_PATCH

datatype http_parser_type = HTTP_REQUEST | HTTP_RESPONSE | HTTP_BOTH

datatype http_flag =
    F_CHUNKED | F_CONNECTION_KEEP_ALIVE | F_CONNECTION_CLOSE | F_TRAILING | F_UPGRADE | F_SKIPBODY

datatype http_errno =
    HPE_CB_message_begin | HPE_CB_path | HPE_CB_query_string | HPE_CB_url | HPE_CB_fragment
  | HPE_CB_header_field | HPE_CB_header_value | HPE_CB_headers_complete | HPE_CB_body | HPE_CB_message_complete
  | HPE_INVALID_EOF_STATE | HPE_HEADER_OVERFLOW | HPE_CLOSED_CONNECTION | HPE_INVALID_VERSION
  | HPE_INVALID_STATUS | HPE_INVALID_METHOD | HPE_INVALID_URL | HPE_INVALID_HOST | HPE_INVALID_PORT
  | HPE_INVALID_PATH | HPE_INVALID_QUERY_STRING | HPE_INVALID_FRAGMENT | HPE_LF_EXPECTED
  | HPE_INVALID_HEADER_TOKEN | HPE_INVALID_CONTENT_LENGTH | HPE_INVALID_CHUNK_SIZE | HPE_INVALID_CONSTANT
  | HPE_INVALID_INTERNAL_STATE | HPE_STRICT | HPE_UNKNOWN

datatype state =
    s_dead | s_start_req_or_res | s_res_or_resp_H | s_start_res | s_res_H | s_res_HT | s_res_HTT | s_res_HTTP
  | s_res_first_http_major | s_res_http_major | s_res_first_http_minor | s_res_http_minor
  | s_res_first_status_code | s_res_status_code | s_res_status | s_res_line_almost_done
  | s_start_req | s_req_method | s_req_spaces_before_url | s_req_schema | s_req_schema_slash
  | s_req_schema_slash_slash | s_req_host | s_req_port | s_req_path | s_req_query_string_start
  | s_req_query_string | s_req_fragment_start | s_req_fragment | s_req_http_start | s_req_http_H
  | s_req_http_HT | s_req_http_HTT | s_req_http_HTTP | s_req_first_http_major | s_req_http_major
  | s_req_first_http_minor | s_req_http_minor | s_req_line_almost_done
  | s_header_field_start | s_header_field | s_header_value_start | s_header_value | s_header_value_lws
  | s_header_almost_done | s_chunk_size_start | s_chunk_size | s_chunk_parameters | s_chunk_size_almost_done
  | s_headers_almost_done | s_chunk_data | s_chunk_data_almost_done | s_chunk_data_done
  | s_body_identity | s_body_identity_eof

text \<open>All states up to \<open>s_headers_almost_done\<close> are header states.\<close>

definition PARSING_HEADER :: "state \<Rightarrow> bool" where
  "PARSING_HEADER st \<longleftrightarrow>
     st \<notin> {s_chunk_data, s_chunk_data_almost_done, s_chunk_data_done, s_body_identity, s_body_identity_eof}"

datatype header_states =
    h_general | h_C | h_CO | h_CON | h_matching_connection | h_matching_proxy_connection
  | h_matching_content_length | h_matching_transfer_encoding | h_matching_upgrade
  | h_connection | h_content_length | h_transfer_encoding | h_upgrade
  | h_matching_transfer_encoding_chunked | h_matching_connection_keep_alive | h_matching_connection_close
  | h_transfer_encoding_chunked | h_connection_keep_alive | h_connection_close

fun method_strings :: "http_method \<Rightarrow> string" where
  "method_strings HTTP_DELETE = ''DELETE''"
| "method_strings HTTP_GET = ''GET''"
| "method_strings HTTP_HEAD = ''HEAD''"
| "method_strings HTTP_POST = ''POST''"
| "method_strings HTTP_PUT = ''PUT''"
| "method_strings HTTP_CONNECT = ''CONNECT''"
| "method_strings HTTP_OPTIONS = ''OPTIONS''"
| "method_strings HTTP_TRACE = ''TRACE''"
| "method_strings HTTP_COPY = ''COPY''"
| "method_strings HTTP_LOCK = ''LOCK''"
| "method_strings HTTP_MKCOL = ''MKCOL''"
| "method_strings HTTP_MOVE = ''MOVE''"
| "method_strings HTTP_PROPFIND = ''PROPFIND''"
| "method_strings HTTP_PROPPATCH = ''PROPPATCH''"
| "method_strings HTTP_UNLOCK = ''UNLOCK''"
| "method_strings HTTP_REPORT = ''REPORT''"
| "method_strings HTTP_MKACTIVITY = ''MKACTIVITY''"
| "method_strings HTTP_CHECKOUT = ''CHECKOUT''"
| "method_strings HTTP_MERGE = ''MERGE''"
| "method_strings HTTP_MSEARCH = ''M-SEARCH''"
| "method_strings HTTP_NOTIFY = ''NOTIFY''"
| "method_strings HTTP_SUBSCRIBE = ''SUBSCRIBE''"
| "method_strings HTTP_UNSUBSCRIBE = ''UNSUBSCRIBE''"
| "method_strings HTTP_PATCH = ''PATCH''"

text \<open>The field \<open>state\<close> of the parser holds a state, or \<open>0x80\<close> and an error number.\<close>

datatype stored_state = Running state | Failed http_errno

record 'u http_parser =
  type :: http_parser_type
  flags :: "http_flag set"
  p_state :: stored_state
  p_header_state :: header_states
  p_index :: nat
  p_nread :: nat
  content_length :: int
  http_major :: nat
  http_minor :: nat
  status_code :: nat
  p_method :: http_method
  upgrade :: bool
  p_data :: 'u

text \<open>A callback returns the new data and its result; a missing one is \<open>None\<close>.\<close>

record 'u http_parser_settings =
  on_message_begin :: "('u http_parser \<Rightarrow> 'u \<times> int) option"
  on_path :: "('u http_parser \<Rightarrow> string \<Rightarrow> 'u \<times> int) option"
  on_query_string :: "('u http_parser \<Rightarrow> string \<Rightarrow> 'u \<times> int) option"
  on_url :: "('u http_parser \<Rightarrow> string \<Rightarrow> 'u \<times> int) option"
  on_fragment :: "('u http_parser \<Rightarrow> string \<Rightarrow> 'u \<times> int) option"
  on_header_field :: "('u http_parser \<Rightarrow> string \<Rightarrow> 'u \<times> int) option"
  on_header_value :: "('u http_parser \<Rightarrow> string \<Rightarrow> 'u \<times> int) option"
  on_headers_complete :: "('u http_parser \<Rightarrow> 'u \<times> int) option"
  on_body :: "('u http_parser \<Rightarrow> string \<Rightarrow> 'u \<times> int) option"
  on_message_complete :: "('u http_parser \<Rightarrow> 'u \<times> int) option"

definition HTTP_MAX_HEADER_SIZE :: nat where
  "HTTP_MAX_HEADER_SIZE = 80 * 1024"

section \<open>Characters\<close>

abbreviation CR :: char where "CR \<equiv> CHR 0x0D"
abbreviation LF :: char where "LF \<equiv> CHR 0x0A"
abbreviation SP :: char where "SP \<equiv> CHR '' ''"
abbreviation TAB :: char where "TAB \<equiv> CHR 0x09"

definition code :: "char \<Rightarrow> nat" where
  "code c = of_char c"

definition LOWER :: "char \<Rightarrow> char" where
  "LOWER c = (if (code c div 32) mod 2 = 1 then c else char_of (code c + 32))"

definition IS_ALPHA :: "char \<Rightarrow> bool" where
  "IS_ALPHA c \<longleftrightarrow> 97 \<le> code (LOWER c) \<and> code (LOWER c) \<le> 122"

definition IS_NUM :: "char \<Rightarrow> bool" where
  "IS_NUM c \<longleftrightarrow> 48 \<le> code c \<and> code c \<le> 57"

definition IS_ALPHANUM :: "char \<Rightarrow> bool" where
  "IS_ALPHANUM c \<longleftrightarrow> IS_ALPHA c \<or> IS_NUM c"

definition digit :: "char \<Rightarrow> nat" where
  "digit c = code c - 48"

text \<open>The table \<open>tokens\<close>: the lower-case token character, NUL for no token.\<close>

definition TOKEN :: "char \<Rightarrow> char" where
  "TOKEN c =
     (let n = code c in
      if 65 \<le> n \<and> n \<le> 90 then char_of (n + 32)
      else if n \<in> {32, 33, 34, 35, 36, 37, 38, 39, 42, 43, 45, 46, 47} \<or> (48 \<le> n \<and> n \<le> 57) \<or>
              (94 \<le> n \<and> n \<le> 122) \<or> n \<in> {124, 125, 126} then c
      else NUL)"

text \<open>The table \<open>unhex\<close> has 256 entries and 128 initialisers: the others are 0.\<close>

definition unhex :: "char \<Rightarrow> int" where
  "unhex c =
     (let n = code c in
      if 48 \<le> n \<and> n \<le> 57 then int n - 48
      else if 65 \<le> n \<and> n \<le> 70 then int n - 55
      else if 97 \<le> n \<and> n \<le> 102 then int n - 87
      else if n < 128 then -1
      else 0)"

definition normal_url_char :: "char \<Rightarrow> bool" where
  "normal_url_char c \<longleftrightarrow> 33 \<le> code c \<and> code c \<le> 126 \<and> code c \<noteq> 35 \<and> code c \<noteq> 63"

definition IS_URL_CHAR :: "char \<Rightarrow> bool" where
  "IS_URL_CHAR c \<longleftrightarrow> normal_url_char c \<or> 128 \<le> code c"

definition IS_HOST_CHAR :: "char \<Rightarrow> bool" where
  "IS_HOST_CHAR c \<longleftrightarrow> IS_ALPHANUM c \<or> c = CHR ''.'' \<or> c = CHR ''-'' \<or> c = CHR ''_''"

text \<open>Arithmetic on the \<open>int64_t\<close> content length wraps.\<close>

definition c_int64 :: "int \<Rightarrow> int" where
  "c_int64 x = signed_take_bit 63 x"

section \<open>The step\<close>

text \<open>
  The local variables of \<open>http_parser_execute\<close>: \<open>x_data\<close> and \<open>x_p\<close> are the buffer and the position,
  the marks are positions in the buffer.
\<close>

record 'u exec =
  x_parser :: "'u http_parser"
  x_state :: state
  x_hstate :: header_states
  x_index :: nat
  x_nread :: nat
  x_data :: string
  x_p :: nat
  field_mark :: "nat option"
  value_mark :: "nat option"
  fragment_mark :: "nat option"
  query_mark :: "nat option"
  path_mark :: "nat option"
  url_mark :: "nat option"

text \<open>How the code leaves a case: \<open>break\<close>, \<open>return n\<close>, \<open>goto error\<close>, or a fault.\<close>

datatype 'u outcome = Next "'u exec" | Return "'u exec" nat | Error "'u exec" | Fault fault

fun and_then :: "'u outcome \<Rightarrow> ('u exec \<Rightarrow> 'u outcome) \<Rightarrow> 'u outcome" where
  "and_then (Next x) f = f x"
| "and_then (Return x n) f = Return x n"
| "and_then (Error x) f = Error x"
| "and_then (Fault e) f = Fault e"

definition set_errno :: "'u exec \<Rightarrow> http_errno \<Rightarrow> 'u exec" where
  "set_errno x e = x\<lparr>x_parser := (x_parser x)\<lparr>p_state := Failed e\<rparr>\<rparr>"

definition fail :: "'u exec \<Rightarrow> http_errno \<Rightarrow> 'u outcome" where
  "fail x e = Error (set_errno x e)"

definition goto_state :: "'u exec \<Rightarrow> state \<Rightarrow> 'u outcome" where
  "goto_state x st = Next (x\<lparr>x_state := st\<rparr>)"

definition upd_parser :: "'u exec \<Rightarrow> ('u http_parser \<Rightarrow> 'u http_parser) \<Rightarrow> 'u exec" where
  "upd_parser x f = x\<lparr>x_parser := f (x_parser x)\<rparr>"

text \<open>\<open>CALLBACK2\<close> and \<open>CALLBACK_NOCLEAR\<close>; \<open>CALLBACK\<close> also clears the mark.\<close>

definition callback2 :: "('u http_parser \<Rightarrow> 'u \<times> int) option \<Rightarrow> http_errno \<Rightarrow> 'u exec \<Rightarrow> 'u outcome" where
  "callback2 cb e x =
     (case cb of
        None \<Rightarrow> Next x
      | Some f \<Rightarrow>
          (case f (x_parser x) of (d, ret) \<Rightarrow>
             let x1 = upd_parser x (\<lambda>p. p\<lparr>p_data := d\<rparr>) in
             if ret \<noteq> 0 then Return (set_errno x1 e) (x_p x1) else Next x1))"

definition callback_noclear ::
    "('u http_parser \<Rightarrow> string \<Rightarrow> 'u \<times> int) option \<Rightarrow> nat option \<Rightarrow> http_errno \<Rightarrow> 'u exec \<Rightarrow> 'u outcome" where
  "callback_noclear cb mark e x =
     (case mark of
        None \<Rightarrow> Next x
      | Some m \<Rightarrow>
          (case cb of
             None \<Rightarrow> Next x
           | Some f \<Rightarrow>
               (case f (x_parser x) (take (x_p x - m) (drop m (x_data x))) of (d, ret) \<Rightarrow>
                  let x1 = upd_parser x (\<lambda>p. p\<lparr>p_data := d\<rparr>) in
                  if ret \<noteq> 0 then Return (set_errno x1 e) (x_p x1) else Next x1)))"

definition callback_url :: "'u http_parser_settings \<Rightarrow> 'u exec \<Rightarrow> 'u outcome" where
  "callback_url S x = and_then (callback_noclear (on_url S) (url_mark x) HPE_CB_url x) (\<lambda>x. Next (x\<lparr>url_mark := None\<rparr>))"

definition callback_path :: "'u http_parser_settings \<Rightarrow> 'u exec \<Rightarrow> 'u outcome" where
  "callback_path S x = and_then (callback_noclear (on_path S) (path_mark x) HPE_CB_path x) (\<lambda>x. Next (x\<lparr>path_mark := None\<rparr>))"

definition callback_query :: "'u http_parser_settings \<Rightarrow> 'u exec \<Rightarrow> 'u outcome" where
  "callback_query S x =
     and_then (callback_noclear (on_query_string S) (query_mark x) HPE_CB_query_string x) (\<lambda>x. Next (x\<lparr>query_mark := None\<rparr>))"

definition callback_fragment :: "'u http_parser_settings \<Rightarrow> 'u exec \<Rightarrow> 'u outcome" where
  "callback_fragment S x =
     and_then (callback_noclear (on_fragment S) (fragment_mark x) HPE_CB_fragment x) (\<lambda>x. Next (x\<lparr>fragment_mark := None\<rparr>))"

definition callback_field :: "'u http_parser_settings \<Rightarrow> 'u exec \<Rightarrow> 'u outcome" where
  "callback_field S x =
     and_then (callback_noclear (on_header_field S) (field_mark x) HPE_CB_header_field x) (\<lambda>x. Next (x\<lparr>field_mark := None\<rparr>))"

definition callback_value :: "'u http_parser_settings \<Rightarrow> 'u exec \<Rightarrow> 'u outcome" where
  "callback_value S x =
     and_then (callback_noclear (on_header_value S) (value_mark x) HPE_CB_header_value x) (\<lambda>x. Next (x\<lparr>value_mark := None\<rparr>))"

definition message_complete :: "'u http_parser_settings \<Rightarrow> 'u exec \<Rightarrow> 'u outcome" where
  "message_complete S = callback2 (on_message_complete S) HPE_CB_message_complete"

definition start_state :: "'u exec \<Rightarrow> state" where
  "start_state x = (if type (x_parser x) = HTTP_REQUEST then s_start_req else s_start_res)"

definition http_should_keep_alive :: "'u http_parser \<Rightarrow> bool" where
  "http_should_keep_alive p =
     (if http_major p > 0 \<and> http_minor p > 0 then F_CONNECTION_CLOSE \<notin> flags p
      else F_CONNECTION_KEEP_ALIVE \<in> flags p)"

end
