(* ===== verification/Http_Steps.thy ===== *)
theory Http_Steps
  imports Http_Parser
begin

text \<open>
  The cases of the \<open>switch\<close> in \<open>http_parser_execute\<close>
  (\<^verbatim>\<open>src/3rd-party/http-parser/http_parser.c\<close>), one function for each label, named after it. Each
  takes the byte \<open>ch\<close> at the current position; \<open>Next\<close> is the \<open>break\<close> out of the switch. With
  \<open>HTTP_PARSER_STRICT\<close> 0 the \<open>STRICT_CHECK\<close>s are empty, and the states that only check advance on
  any byte.
\<close>

section \<open>The start of a message\<close>

definition new_message :: "'u exec \<Rightarrow> 'u exec" where
  "new_message x = upd_parser x (\<lambda>p. p\<lparr>flags := {}, content_length := -1\<rparr>)"

definition message_begin :: "'u http_parser_settings \<Rightarrow> 'u exec \<Rightarrow> 'u outcome" where
  "message_begin S = callback2 (on_message_begin S) HPE_CB_message_begin"

text \<open>The label \<open>start_req_method_assign\<close>; an unknown letter leaves the method 0, \<open>DELETE\<close>.\<close>

definition first_letter :: "char \<Rightarrow> http_method option" where
  "first_letter ch =
     (if ch = CHR ''C'' then Some HTTP_CONNECT
      else if ch = CHR ''D'' then Some HTTP_DELETE
      else if ch = CHR ''G'' then Some HTTP_GET
      else if ch = CHR ''H'' then Some HTTP_HEAD
      else if ch = CHR ''L'' then Some HTTP_LOCK
      else if ch = CHR ''M'' then Some HTTP_MKCOL
      else if ch = CHR ''N'' then Some HTTP_NOTIFY
      else if ch = CHR ''O'' then Some HTTP_OPTIONS
      else if ch = CHR ''P'' then Some HTTP_POST
      else if ch = CHR ''R'' then Some HTTP_REPORT
      else if ch = CHR ''S'' then Some HTTP_SUBSCRIBE
      else if ch = CHR ''T'' then Some HTTP_TRACE
      else if ch = CHR ''U'' then Some HTTP_UNLOCK
      else None)"

definition start_req_method_assign :: "char \<Rightarrow> 'u exec \<Rightarrow> 'u outcome" where
  "start_req_method_assign ch x =
     (case first_letter ch of
        None \<Rightarrow> fail (upd_parser (x\<lparr>x_index := 1\<rparr>) (\<lambda>p. p\<lparr>p_method := HTTP_DELETE\<rparr>)) HPE_INVALID_METHOD
      | Some m \<Rightarrow> goto_state (upd_parser (x\<lparr>x_index := 1\<rparr>) (\<lambda>p. p\<lparr>p_method := m\<rparr>)) s_req_method)"

definition at_start_req_or_res :: "'u http_parser_settings \<Rightarrow> char \<Rightarrow> 'u exec \<Rightarrow> 'u outcome" where
  "at_start_req_or_res S ch x =
     (if ch = CR \<or> ch = LF then Next x
      else
        and_then (message_begin S (new_message x)) (\<lambda>x.
          if ch = CHR ''H'' then goto_state x s_res_or_resp_H
          else start_req_method_assign ch (upd_parser x (\<lambda>p. p\<lparr>type := HTTP_REQUEST\<rparr>))))"

definition at_res_or_resp_H :: "char \<Rightarrow> 'u exec \<Rightarrow> 'u outcome" where
  "at_res_or_resp_H ch x =
     (if ch = CHR ''T'' then goto_state (upd_parser x (\<lambda>p. p\<lparr>type := HTTP_RESPONSE\<rparr>)) s_res_HT
      else if ch \<noteq> CHR ''E'' then fail x HPE_INVALID_CONSTANT
      else goto_state (upd_parser (x\<lparr>x_index := 2\<rparr>) (\<lambda>p. p\<lparr>type := HTTP_REQUEST, p_method := HTTP_HEAD\<rparr>)) s_req_method)"

definition at_start_res :: "'u http_parser_settings \<Rightarrow> char \<Rightarrow> 'u exec \<Rightarrow> 'u outcome" where
  "at_start_res S ch x =
     and_then (message_begin S (new_message x)) (\<lambda>x.
       if ch = CHR ''H'' then goto_state x s_res_H
       else if ch = CR \<or> ch = LF then Next x
       else fail x HPE_INVALID_CONSTANT)"

definition at_start_req :: "'u http_parser_settings \<Rightarrow> char \<Rightarrow> 'u exec \<Rightarrow> 'u outcome" where
  "at_start_req S ch x =
     (if ch = CR \<or> ch = LF then Next x
      else
        and_then (message_begin S (new_message x)) (\<lambda>x.
          if \<not> IS_ALPHA ch then fail x HPE_INVALID_METHOD else start_req_method_assign ch x))"

section \<open>The HTTP version and the status line\<close>

text \<open>
  The version is parsed in the same way in responses and requests. The numbers stay below 10000
  (they are checked after every digit), so that the \<open>unsigned short\<close> fields do not wrap.
\<close>

definition first_http_major :: "state \<Rightarrow> char \<Rightarrow> 'u exec \<Rightarrow> 'u outcome" where
  "first_http_major next ch x =
     (if code ch < 49 \<or> code ch > 57 then fail x HPE_INVALID_VERSION
      else goto_state (upd_parser x (\<lambda>p. p\<lparr>http_major := digit ch\<rparr>)) next)"

definition next_http_major :: "state \<Rightarrow> char \<Rightarrow> 'u exec \<Rightarrow> 'u outcome" where
  "next_http_major next ch x =
     (if ch = CHR ''.'' then goto_state x next
      else if \<not> IS_NUM ch then fail x HPE_INVALID_VERSION
      else
        let x1 = upd_parser x (\<lambda>p. p\<lparr>http_major := http_major p * 10 + digit ch\<rparr>) in
        if http_major (x_parser x1) > 999 then fail x1 HPE_INVALID_VERSION else Next x1)"

definition first_http_minor :: "state \<Rightarrow> char \<Rightarrow> 'u exec \<Rightarrow> 'u outcome" where
  "first_http_minor next ch x =
     (if \<not> IS_NUM ch then fail x HPE_INVALID_VERSION
      else goto_state (upd_parser x (\<lambda>p. p\<lparr>http_minor := digit ch\<rparr>)) next)"

definition next_http_minor :: "char \<Rightarrow> 'u exec \<Rightarrow> 'u outcome" where
  "next_http_minor ch x =
     (if \<not> IS_NUM ch then fail x HPE_INVALID_VERSION
      else
        let x1 = upd_parser x (\<lambda>p. p\<lparr>http_minor := http_minor p * 10 + digit ch\<rparr>) in
        if http_minor (x_parser x1) > 999 then fail x1 HPE_INVALID_VERSION else Next x1)"

definition at_res_http_minor :: "char \<Rightarrow> 'u exec \<Rightarrow> 'u outcome" where
  "at_res_http_minor ch x = (if ch = SP then goto_state x s_res_first_status_code else next_http_minor ch x)"

definition at_req_http_minor :: "char \<Rightarrow> 'u exec \<Rightarrow> 'u outcome" where
  "at_req_http_minor ch x =
     (if ch = CR then goto_state x s_req_line_almost_done
      else if ch = LF then goto_state x s_header_field_start
      else next_http_minor ch x)"

definition at_res_first_status_code :: "char \<Rightarrow> 'u exec \<Rightarrow> 'u outcome" where
  "at_res_first_status_code ch x =
     (if \<not> IS_NUM ch then (if ch = SP then Next x else fail x HPE_INVALID_STATUS)
      else goto_state (upd_parser x (\<lambda>p. p\<lparr>status_code := digit ch\<rparr>)) s_res_status_code)"

definition at_res_status_code :: "char \<Rightarrow> 'u exec \<Rightarrow> 'u outcome" where
  "at_res_status_code ch x =
     (if \<not> IS_NUM ch then
        (if ch = SP then goto_state x s_res_status
         else if ch = CR then goto_state x s_res_line_almost_done
         else if ch = LF then goto_state x s_header_field_start
         else fail x HPE_INVALID_STATUS)
      else
        let x1 = upd_parser x (\<lambda>p. p\<lparr>status_code := status_code p * 10 + digit ch\<rparr>) in
        if status_code (x_parser x1) > 999 then fail x1 HPE_INVALID_STATUS else Next x1)"

definition at_res_status :: "char \<Rightarrow> 'u exec \<Rightarrow> 'u outcome" where
  "at_res_status ch x =
     (if ch = CR then goto_state x s_res_line_almost_done
      else if ch = LF then goto_state x s_header_field_start
      else Next x)"

definition at_req_http_start :: "char \<Rightarrow> 'u exec \<Rightarrow> 'u outcome" where
  "at_req_http_start ch x =
     (if ch = CHR ''H'' then goto_state x s_req_http_H
      else if ch = SP then Next x
      else fail x HPE_INVALID_CONSTANT)"

definition at_req_line_almost_done :: "char \<Rightarrow> 'u exec \<Rightarrow> 'u outcome" where
  "at_req_line_almost_done ch x =
     (if ch \<noteq> LF then fail x HPE_LF_EXPECTED else goto_state x s_header_field_start)"

section \<open>The method\<close>

text \<open>
  The name in \<open>method_strings\<close> is compared byte by byte. Where it differs, some methods turn into
  another one with the same beginning; \<open>other_method\<close> is that part of the cascade, and \<open>None\<close> its
  jumps to \<open>error\<close>, with \<open>True\<close> where the code sets \<open>HPE_INVALID_METHOD\<close> first.
\<close>

definition other_method :: "http_method \<Rightarrow> nat \<Rightarrow> char \<Rightarrow> bool + http_method" where
  "other_method m index ch =
     (if m = HTTP_CONNECT then
        (if index = 1 \<and> ch = CHR ''H'' then Inr HTTP_CHECKOUT
         else if index = 2 \<and> ch = CHR ''P'' then Inr HTTP_COPY
         else Inl False)
      else if m = HTTP_MKCOL then
        (if index = 1 \<and> ch = CHR ''O'' then Inr HTTP_MOVE
         else if index = 1 \<and> ch = CHR ''E'' then Inr HTTP_MERGE
         else if index = 1 \<and> ch = CHR ''-'' then Inr HTTP_MSEARCH
         else if index = 2 \<and> ch = CHR ''A'' then Inr HTTP_MKACTIVITY
         else Inl False)
      else if index = 1 \<and> m = HTTP_POST then
        (if ch = CHR ''R'' then Inr HTTP_PROPFIND
         else if ch = CHR ''U'' then Inr HTTP_PUT
         else if ch = CHR ''A'' then Inr HTTP_PATCH
         else Inl False)
      else if index = 2 \<and> m = HTTP_UNLOCK \<and> ch = CHR ''S'' then Inr HTTP_UNSUBSCRIBE
      else if index = 4 \<and> m = HTTP_PROPFIND \<and> ch = CHR ''P'' then Inr HTTP_PROPPATCH
      else Inl True)"

definition at_req_method :: "char \<Rightarrow> 'u exec \<Rightarrow> 'u outcome" where
  "at_req_method ch x =
     (if ch = NUL then fail x HPE_INVALID_METHOD
      else
        (let m = p_method (x_parser x); index = x_index x; x' = x\<lparr>x_index := index + 1\<rparr> in
         (case arr_read (method_strings m @ [NUL]) index of
            Inl e \<Rightarrow> Fault e
          | Inr matcher \<Rightarrow>
              if ch = SP \<and> matcher = NUL then goto_state x' s_req_spaces_before_url
              else if ch = matcher then Next x'
              else
                (case other_method m index ch of
                   Inr m' \<Rightarrow> Next (upd_parser x' (\<lambda>p. p\<lparr>p_method := m'\<rparr>))
                 | Inl True \<Rightarrow> fail x HPE_INVALID_METHOD
                 | Inl False \<Rightarrow> Error x))))"

section \<open>The URL\<close>

definition mark_url :: "'u exec \<Rightarrow> 'u exec" where "mark_url x = x\<lparr>url_mark := Some (x_p x)\<rparr>"
definition mark_path :: "'u exec \<Rightarrow> 'u exec" where "mark_path x = x\<lparr>path_mark := Some (x_p x)\<rparr>"
definition mark_query :: "'u exec \<Rightarrow> 'u exec" where "mark_query x = x\<lparr>query_mark := Some (x_p x)\<rparr>"
definition mark_fragment :: "'u exec \<Rightarrow> 'u exec" where "mark_fragment x = x\<lparr>fragment_mark := Some (x_p x)\<rparr>"
definition mark_field :: "'u exec \<Rightarrow> 'u exec" where "mark_field x = x\<lparr>field_mark := Some (x_p x)\<rparr>"
definition mark_value :: "'u exec \<Rightarrow> 'u exec" where "mark_value x = x\<lparr>value_mark := Some (x_p x)\<rparr>"

text \<open>A request line that ends after the URL is HTTP 0.9.\<close>

definition http_0_9 :: "state \<Rightarrow> 'u exec \<Rightarrow> 'u outcome" where
  "http_0_9 next x = goto_state (upd_parser x (\<lambda>p. p\<lparr>http_major := 0, http_minor := 9\<rparr>)) next"

definition at_req_spaces_before_url :: "char \<Rightarrow> 'u exec \<Rightarrow> 'u outcome" where
  "at_req_spaces_before_url ch x =
     (if ch = SP then Next x
      else if ch = CHR ''/'' \<or> ch = CHR ''*'' then goto_state (mark_path (mark_url x)) s_req_path
      else if IS_ALPHA ch \<or> (p_method (x_parser x) = HTTP_CONNECT \<and> IS_NUM ch) then
        goto_state (mark_url x) (if p_method (x_parser x) = HTTP_CONNECT then s_req_host else s_req_schema)
      else fail x HPE_INVALID_URL)"

definition at_req_schema :: "char \<Rightarrow> 'u exec \<Rightarrow> 'u outcome" where
  "at_req_schema ch x =
     (if IS_ALPHA ch then Next x
      else if ch = CHR '':'' then goto_state x s_req_schema_slash
      else fail x HPE_INVALID_URL)"

definition at_req_host :: "'u http_parser_settings \<Rightarrow> char \<Rightarrow> 'u exec \<Rightarrow> 'u outcome" where
  "at_req_host S ch x =
     (if IS_HOST_CHAR ch then Next x
      else if ch = CHR '':'' then goto_state x s_req_port
      else if ch = CHR ''/'' then goto_state (mark_path x) s_req_path
      else if ch = SP then and_then (callback_url S x) (\<lambda>x. goto_state x s_req_http_start)
      else if ch = CHR ''?'' then goto_state x s_req_query_string_start
      else fail x HPE_INVALID_HOST)"

definition at_req_port :: "'u http_parser_settings \<Rightarrow> char \<Rightarrow> 'u exec \<Rightarrow> 'u outcome" where
  "at_req_port S ch x =
     (if IS_NUM ch then Next x
      else if ch = CHR ''/'' then goto_state (mark_path x) s_req_path
      else if ch = SP then and_then (callback_url S x) (\<lambda>x. goto_state x s_req_http_start)
      else if ch = CHR ''?'' then goto_state x s_req_query_string_start
      else fail x HPE_INVALID_PORT)"

definition at_req_path :: "'u http_parser_settings \<Rightarrow> char \<Rightarrow> 'u exec \<Rightarrow> 'u outcome" where
  "at_req_path S ch x =
     (if IS_URL_CHAR ch then Next x
      else if ch = SP then
        and_then (callback_url S x) (\<lambda>x. and_then (callback_path S x) (\<lambda>x. goto_state x s_req_http_start))
      else if ch = CR then
        and_then (callback_url S x) (\<lambda>x. and_then (callback_path S x) (http_0_9 s_req_line_almost_done))
      else if ch = LF then
        and_then (callback_url S x) (\<lambda>x. and_then (callback_path S x) (http_0_9 s_header_field_start))
      else if ch = CHR ''?'' then and_then (callback_path S x) (\<lambda>x. goto_state x s_req_query_string_start)
      else if ch = CHR ''#'' then and_then (callback_path S x) (\<lambda>x. goto_state x s_req_fragment_start)
      else fail x HPE_INVALID_PATH)"

definition at_req_query_string_start :: "'u http_parser_settings \<Rightarrow> char \<Rightarrow> 'u exec \<Rightarrow> 'u outcome" where
  "at_req_query_string_start S ch x =
     (if IS_URL_CHAR ch then goto_state (mark_query x) s_req_query_string
      else if ch = CHR ''?'' then Next x
      else if ch = SP then and_then (callback_url S x) (\<lambda>x. goto_state x s_req_http_start)
      else if ch = CR then and_then (callback_url S x) (http_0_9 s_req_line_almost_done)
      else if ch = LF then and_then (callback_url S x) (http_0_9 s_header_field_start)
      else if ch = CHR ''#'' then goto_state x s_req_fragment_start
      else fail x HPE_INVALID_QUERY_STRING)"

definition at_req_query_string :: "'u http_parser_settings \<Rightarrow> char \<Rightarrow> 'u exec \<Rightarrow> 'u outcome" where
  "at_req_query_string S ch x =
     (if IS_URL_CHAR ch then Next x
      else if ch = CHR ''?'' then Next x
      else if ch = SP then
        and_then (callback_url S x) (\<lambda>x. and_then (callback_query S x) (\<lambda>x. goto_state x s_req_http_start))
      else if ch = CR then
        and_then (callback_url S x) (\<lambda>x. and_then (callback_query S x) (http_0_9 s_req_line_almost_done))
      else if ch = LF then
        and_then (callback_url S x) (\<lambda>x. and_then (callback_query S x) (http_0_9 s_header_field_start))
      else if ch = CHR ''#'' then and_then (callback_query S x) (\<lambda>x. goto_state x s_req_fragment_start)
      else fail x HPE_INVALID_QUERY_STRING)"

definition at_req_fragment_start :: "'u http_parser_settings \<Rightarrow> char \<Rightarrow> 'u exec \<Rightarrow> 'u outcome" where
  "at_req_fragment_start S ch x =
     (if IS_URL_CHAR ch then goto_state (mark_fragment x) s_req_fragment
      else if ch = SP then and_then (callback_url S x) (\<lambda>x. goto_state x s_req_http_start)
      else if ch = CR then and_then (callback_url S x) (http_0_9 s_req_line_almost_done)
      else if ch = LF then and_then (callback_url S x) (http_0_9 s_header_field_start)
      else if ch = CHR ''?'' then goto_state (mark_fragment x) s_req_fragment
      else if ch = CHR ''#'' then Next x
      else fail x HPE_INVALID_FRAGMENT)"

definition at_req_fragment :: "'u http_parser_settings \<Rightarrow> char \<Rightarrow> 'u exec \<Rightarrow> 'u outcome" where
  "at_req_fragment S ch x =
     (if IS_URL_CHAR ch then Next x
      else if ch = SP then
        and_then (callback_url S x) (\<lambda>x. and_then (callback_fragment S x) (\<lambda>x. goto_state x s_req_http_start))
      else if ch = CR then
        and_then (callback_url S x) (\<lambda>x. and_then (callback_fragment S x) (http_0_9 s_req_line_almost_done))
      else if ch = LF then
        and_then (callback_url S x) (\<lambda>x. and_then (callback_fragment S x) (http_0_9 s_header_field_start))
      else if ch = CHR ''?'' \<or> ch = CHR ''#'' then Next x
      else fail x HPE_INVALID_FRAGMENT)"

section \<open>Header fields\<close>

definition field_header_state :: "char \<Rightarrow> header_states" where
  "field_header_state c =
     (if c = CHR ''c'' then h_C
      else if c = CHR ''p'' then h_matching_proxy_connection
      else if c = CHR ''t'' then h_matching_transfer_encoding
      else if c = CHR ''u'' then h_matching_upgrade
      else h_general)"

text \<open>
  The end of the header (label \<open>headers_almost_done\<close>). The result of \<open>on_headers_complete\<close> is not an
  error when it is 1: the message then has no body. With \<open>upgrade\<close> the function returns without
  storing its state.
\<close>

definition complete_and_restart :: "'u http_parser_settings \<Rightarrow> 'u exec \<Rightarrow> 'u outcome" where
  "complete_and_restart S x = and_then (message_complete S x) (\<lambda>x. goto_state x (start_state x))"

definition headers_complete :: "'u http_parser_settings \<Rightarrow> 'u exec \<Rightarrow> 'u outcome" where
  "headers_complete S x =
     (case on_headers_complete S of
        None \<Rightarrow> Next x
      | Some f \<Rightarrow>
          (case f (x_parser x) of (d, ret) \<Rightarrow>
             let x1 = upd_parser x (\<lambda>p. p\<lparr>p_data := d\<rparr>) in
             if ret = 0 then Next x1
             else if ret = 1 then Next (upd_parser x1 (\<lambda>p. p\<lparr>flags := insert F_SKIPBODY (flags p)\<rparr>))
             else Return (set_errno x1 HPE_CB_headers_complete) (x_p x1)))"

definition body_or_end :: "'u http_parser_settings \<Rightarrow> 'u exec \<Rightarrow> 'u outcome" where
  "body_or_end S x =
     (let p = x_parser x in
      if F_SKIPBODY \<in> flags p then complete_and_restart S x
      else if F_CHUNKED \<in> flags p then goto_state x s_chunk_size_start
      else if content_length p = 0 then complete_and_restart S x
      else if content_length p > 0 then goto_state x s_body_identity
      else if type p = HTTP_REQUEST \<or> http_should_keep_alive p then complete_and_restart S x
      else goto_state x s_body_identity_eof)"

definition headers_almost_done :: "'u http_parser_settings \<Rightarrow> 'u exec \<Rightarrow> 'u outcome" where
  "headers_almost_done S x =
     (if F_TRAILING \<in> flags (x_parser x) then complete_and_restart S x
      else
        (let x0 = x\<lparr>x_nread := 0\<rparr>;
             x1 = (if F_UPGRADE \<in> flags (x_parser x0) \<or> p_method (x_parser x0) = HTTP_CONNECT
                   then upd_parser x0 (\<lambda>p. p\<lparr>upgrade := True\<rparr>) else x0)
         in and_then (headers_complete S x1) (\<lambda>x.
              if upgrade (x_parser x) then and_then (message_complete S x) (\<lambda>x. Return x (x_p x + 1))
              else body_or_end S x)))"

text \<open>The label \<open>header_field_start\<close>.\<close>

definition header_field_start :: "'u http_parser_settings \<Rightarrow> char \<Rightarrow> 'u exec \<Rightarrow> 'u outcome" where
  "header_field_start S ch x =
     (if ch = CR then goto_state x s_headers_almost_done
      else if ch = LF then headers_almost_done S (x\<lparr>x_state := s_headers_almost_done\<rparr>)
      else
        (let c = TOKEN ch in
         if c = NUL then fail x HPE_INVALID_HEADER_TOKEN
         else goto_state ((mark_field x)\<lparr>x_index := 0, x_hstate := field_header_state c\<rparr>) s_header_field))"

text \<open>
  Comparing the next byte with a header name or value: the read \<open>str[index]\<close> comes after the test
  \<open>index > sizeof (str) - 1\<close>; \<open>sizeof\<close> counts the terminator.
\<close>

definition match_next :: "string \<Rightarrow> header_states \<Rightarrow> char \<Rightarrow> 'u exec \<Rightarrow> 'u exec" where
  "match_next str matched c x =
     (let i = x_index x + 1 in
      if i > length str \<or> c \<noteq> (str @ [NUL]) ! i then x\<lparr>x_index := i, x_hstate := h_general\<rparr>
      else if i = length str - 1 then x\<lparr>x_index := i, x_hstate := matched\<rparr>
      else x\<lparr>x_index := i\<rparr>)"

definition field_char :: "char \<Rightarrow> char \<Rightarrow> 'u exec \<Rightarrow> 'u outcome" where
  "field_char ch c x =
     (let step = (\<lambda>h. Next (x\<lparr>x_index := x_index x + 1, x_hstate := h\<rparr>)) in
      (case x_hstate x of
         h_general \<Rightarrow> Next x
       | h_C \<Rightarrow> step (if c = CHR ''o'' then h_CO else h_general)
       | h_CO \<Rightarrow> step (if c = CHR ''n'' then h_CON else h_general)
       | h_CON \<Rightarrow>
           step (if c = CHR ''n'' then h_matching_connection
                 else if c = CHR ''t'' then h_matching_content_length
                 else h_general)
       | h_matching_connection \<Rightarrow> Next (match_next ''connection'' h_connection c x)
       | h_matching_proxy_connection \<Rightarrow> Next (match_next ''proxy-connection'' h_connection c x)
       | h_matching_content_length \<Rightarrow> Next (match_next ''content-length'' h_content_length c x)
       | h_matching_transfer_encoding \<Rightarrow> Next (match_next ''transfer-encoding'' h_transfer_encoding c x)
       | h_matching_upgrade \<Rightarrow> Next (match_next ''upgrade'' h_upgrade c x)
       | h_connection \<Rightarrow> Next (if ch \<noteq> SP then x\<lparr>x_hstate := h_general\<rparr> else x)
       | h_content_length \<Rightarrow> Next (if ch \<noteq> SP then x\<lparr>x_hstate := h_general\<rparr> else x)
       | h_transfer_encoding \<Rightarrow> Next (if ch \<noteq> SP then x\<lparr>x_hstate := h_general\<rparr> else x)
       | h_upgrade \<Rightarrow> Next (if ch \<noteq> SP then x\<lparr>x_hstate := h_general\<rparr> else x)
       | _ \<Rightarrow> Fault Assert_Failed))"

definition at_header_field :: "'u http_parser_settings \<Rightarrow> char \<Rightarrow> 'u exec \<Rightarrow> 'u outcome" where
  "at_header_field S ch x =
     (let c = TOKEN ch in
      if c \<noteq> NUL then field_char ch c x
      else if ch = CHR '':'' then and_then (callback_field S x) (\<lambda>x. goto_state x s_header_value_start)
      else if ch = CR then callback_field S (x\<lparr>x_state := s_header_almost_done\<rparr>)
      else if ch = LF then and_then (callback_field S x) (\<lambda>x. goto_state x s_header_field_start)
      else fail x HPE_INVALID_HEADER_TOKEN)"

section \<open>Header values\<close>

definition first_value_char :: "char \<Rightarrow> 'u exec \<Rightarrow> 'u outcome" where
  "first_value_char ch x =
     (let c = LOWER ch in
      (case x_hstate x of
         h_upgrade \<Rightarrow> Next (upd_parser (x\<lparr>x_hstate := h_general\<rparr>) (\<lambda>p. p\<lparr>flags := insert F_UPGRADE (flags p)\<rparr>))
       | h_transfer_encoding \<Rightarrow>
           Next (x\<lparr>x_hstate := (if c = CHR ''c'' then h_matching_transfer_encoding_chunked else h_general)\<rparr>)
       | h_content_length \<Rightarrow>
           if \<not> IS_NUM ch then fail x HPE_INVALID_CONTENT_LENGTH
           else Next (upd_parser x (\<lambda>p. p\<lparr>content_length := int (digit ch)\<rparr>))
       | h_connection \<Rightarrow>
           Next (x\<lparr>x_hstate := (if c = CHR ''k'' then h_matching_connection_keep_alive
                                 else if c = CHR ''c'' then h_matching_connection_close
                                 else h_general)\<rparr>)
       | _ \<Rightarrow> Next (x\<lparr>x_hstate := h_general\<rparr>)))"

definition at_header_value_start :: "'u http_parser_settings \<Rightarrow> char \<Rightarrow> 'u exec \<Rightarrow> 'u outcome" where
  "at_header_value_start S ch x =
     (if ch = SP \<or> ch = TAB then Next x
      else
        (let x1 = (mark_value x)\<lparr>x_state := s_header_value, x_index := 0\<rparr> in
         if ch = CR then
           and_then (callback_value S x1) (\<lambda>x. goto_state (x\<lparr>x_hstate := h_general\<rparr>) s_header_almost_done)
         else if ch = LF then and_then (callback_value S x1) (\<lambda>x. goto_state x s_header_field_start)
         else first_value_char ch x1))"

text \<open>The label \<open>header_almost_done\<close>: what the value meant becomes a flag.\<close>

definition header_almost_done :: "'u exec \<Rightarrow> 'u outcome" where
  "header_almost_done x =
     (let add = (\<lambda>f. upd_parser x (\<lambda>p. p\<lparr>flags := insert f (flags p)\<rparr>)) in
      goto_state
        (case x_hstate x of
           h_connection_keep_alive \<Rightarrow> add F_CONNECTION_KEEP_ALIVE
         | h_connection_close \<Rightarrow> add F_CONNECTION_CLOSE
         | h_transfer_encoding_chunked \<Rightarrow> add F_CHUNKED
         | _ \<Rightarrow> x)
        s_header_value_lws)"

text \<open>\<open>content_length\<close> is an \<open>int64_t\<close>; the overflow of its arithmetic is taken to wrap around.\<close>

definition value_char :: "char \<Rightarrow> 'u exec \<Rightarrow> 'u outcome" where
  "value_char ch x =
     (let c = LOWER ch in
      (case x_hstate x of
         h_general \<Rightarrow> Next x
       | h_connection \<Rightarrow> Fault Assert_Failed
       | h_transfer_encoding \<Rightarrow> Fault Assert_Failed
       | h_content_length \<Rightarrow>
           if ch = SP then Next x
           else if \<not> IS_NUM ch then fail x HPE_INVALID_CONTENT_LENGTH
           else Next (upd_parser x (\<lambda>p. p\<lparr>content_length :=
                  c_int64 (c_int64 (content_length p * 10) + int (digit ch))\<rparr>))
       | h_matching_transfer_encoding_chunked \<Rightarrow> Next (match_next ''chunked'' h_transfer_encoding_chunked c x)
       | h_matching_connection_keep_alive \<Rightarrow> Next (match_next ''keep-alive'' h_connection_keep_alive c x)
       | h_matching_connection_close \<Rightarrow> Next (match_next ''close'' h_connection_close c x)
       | h_transfer_encoding_chunked \<Rightarrow> Next (if ch \<noteq> SP then x\<lparr>x_hstate := h_general\<rparr> else x)
       | h_connection_keep_alive \<Rightarrow> Next (if ch \<noteq> SP then x\<lparr>x_hstate := h_general\<rparr> else x)
       | h_connection_close \<Rightarrow> Next (if ch \<noteq> SP then x\<lparr>x_hstate := h_general\<rparr> else x)
       | _ \<Rightarrow> Next (x\<lparr>x_state := s_header_value, x_hstate := h_general\<rparr>)))"

definition at_header_value :: "'u http_parser_settings \<Rightarrow> char \<Rightarrow> 'u exec \<Rightarrow> 'u outcome" where
  "at_header_value S ch x =
     (if ch = CR then and_then (callback_value S x) (\<lambda>x. goto_state x s_header_almost_done)
      else if ch = LF then and_then (callback_value S x) header_almost_done
      else value_char ch x)"

definition at_header_value_lws :: "'u http_parser_settings \<Rightarrow> char \<Rightarrow> 'u exec \<Rightarrow> 'u outcome" where
  "at_header_value_lws S ch x =
     (if ch = SP \<or> ch = TAB then goto_state x s_header_value_start
      else header_field_start S ch (x\<lparr>x_state := s_header_field_start\<rparr>))"

section \<open>The body\<close>

text \<open>
  \<open>on_body\<close> gets \<open>to_read\<close> bytes from the current position; its result is ignored. \<open>skip_body\<close> is
  that call and \<open>p += to_read - 1\<close>.
\<close>

definition remaining :: "'u exec \<Rightarrow> int" where
  "remaining x = int (length (x_data x)) - int (x_p x)"

definition skip_body :: "'u http_parser_settings \<Rightarrow> int \<Rightarrow> 'u exec \<Rightarrow> 'u exec" where
  "skip_body S to_read x =
     (let x1 =
        (case on_body S of
           None \<Rightarrow> x
         | Some f \<Rightarrow> upd_parser x (\<lambda>p. p\<lparr>p_data := fst (f p (take (nat to_read) (drop (x_p x) (x_data x))))\<rparr>))
      in x1\<lparr>x_p := x_p x1 + nat to_read - 1\<rparr>)"

definition at_body_identity :: "'u http_parser_settings \<Rightarrow> 'u exec \<Rightarrow> 'u outcome" where
  "at_body_identity S x =
     (let to_read = min (remaining x) (content_length (x_parser x)) in
      if to_read > 0 then
        (let x1 = upd_parser (skip_body S to_read x) (\<lambda>p. p\<lparr>content_length := content_length p - to_read\<rparr>) in
         if content_length (x_parser x1) = 0 then complete_and_restart S x1 else Next x1)
      else Next x)"

definition at_body_identity_eof :: "'u http_parser_settings \<Rightarrow> 'u exec \<Rightarrow> 'u outcome" where
  "at_body_identity_eof S x =
     (let to_read = remaining x in if to_read > 0 then Next (skip_body S to_read x) else Next x)"

section \<open>Chunks\<close>

definition assert_chunked :: "'u exec \<Rightarrow> 'u outcome \<Rightarrow> 'u outcome" where
  "assert_chunked x r = (if F_CHUNKED \<in> flags (x_parser x) then r else Fault Assert_Failed)"

definition at_chunk_size_start :: "char \<Rightarrow> 'u exec \<Rightarrow> 'u outcome" where
  "at_chunk_size_start ch x =
     (if x_nread x \<noteq> 1 then Fault Assert_Failed
      else assert_chunked x
        (if unhex ch = -1 then fail x HPE_INVALID_CHUNK_SIZE
         else goto_state (upd_parser x (\<lambda>p. p\<lparr>content_length := unhex ch\<rparr>)) s_chunk_size))"

definition at_chunk_size :: "char \<Rightarrow> 'u exec \<Rightarrow> 'u outcome" where
  "at_chunk_size ch x =
     assert_chunked x
       (if ch = CR then goto_state x s_chunk_size_almost_done
        else if unhex ch = -1 then
          (if ch = CHR '';'' \<or> ch = SP then goto_state x s_chunk_parameters else fail x HPE_INVALID_CHUNK_SIZE)
        else Next (upd_parser x (\<lambda>p. p\<lparr>content_length := c_int64 (c_int64 (content_length p * 16) + unhex ch)\<rparr>)))"

definition at_chunk_parameters :: "char \<Rightarrow> 'u exec \<Rightarrow> 'u outcome" where
  "at_chunk_parameters ch x =
     assert_chunked x (if ch = CR then goto_state x s_chunk_size_almost_done else Next x)"

definition at_chunk_size_almost_done :: "'u exec \<Rightarrow> 'u outcome" where
  "at_chunk_size_almost_done x =
     assert_chunked x
       (let x1 = x\<lparr>x_nread := 0\<rparr> in
        if content_length (x_parser x1) = 0 then
          goto_state (upd_parser x1 (\<lambda>p. p\<lparr>flags := insert F_TRAILING (flags p)\<rparr>)) s_header_field_start
        else goto_state x1 s_chunk_data)"

definition at_chunk_data :: "'u http_parser_settings \<Rightarrow> 'u exec \<Rightarrow> 'u outcome" where
  "at_chunk_data S x =
     assert_chunked x
       (let to_read = min (remaining x) (content_length (x_parser x));
            x1 = (if to_read > 0 then skip_body S to_read x else x);
            x2 = (if to_read = content_length (x_parser x1) then x1\<lparr>x_state := s_chunk_data_almost_done\<rparr> else x1)
        in Next (upd_parser x2 (\<lambda>p. p\<lparr>content_length := content_length p - to_read\<rparr>)))"

end
