(* ===== verification/Http_Execute.thy ===== *)
theory Http_Execute
  imports Http_Steps "HOL-Library.Code_Target_Nat"
begin

text \<open>
  \<open>http_parser_execute\<close> and \<open>http_parser_init\<close>
  (\<^verbatim>\<open>src/3rd-party/http-parser/http_parser.c\<close>): the loop over the bytes of a buffer, what happens
  at its end, and the invariant that keeps the parser away from its assertions and from reads
  outside its tables.
\<close>

section \<open>The loop\<close>

text \<open>The \<open>switch\<close>. The states that only a \<open>STRICT_CHECK\<close> guards advance on any byte.\<close>

primrec step :: "state \<Rightarrow> 'u http_parser_settings \<Rightarrow> char \<Rightarrow> 'u exec \<Rightarrow> 'u outcome" where
  "step s_dead S ch x = fail x HPE_CLOSED_CONNECTION"
| "step s_start_req_or_res S ch x = at_start_req_or_res S ch x"
| "step s_res_or_resp_H S ch x = at_res_or_resp_H ch x"
| "step s_start_res S ch x = at_start_res S ch x"
| "step s_res_H S ch x = goto_state x s_res_HT"
| "step s_res_HT S ch x = goto_state x s_res_HTT"
| "step s_res_HTT S ch x = goto_state x s_res_HTTP"
| "step s_res_HTTP S ch x = goto_state x s_res_first_http_major"
| "step s_res_first_http_major S ch x = first_http_major s_res_http_major ch x"
| "step s_res_http_major S ch x = next_http_major s_res_first_http_minor ch x"
| "step s_res_first_http_minor S ch x = first_http_minor s_res_http_minor ch x"
| "step s_res_http_minor S ch x = at_res_http_minor ch x"
| "step s_res_first_status_code S ch x = at_res_first_status_code ch x"
| "step s_res_status_code S ch x = at_res_status_code ch x"
| "step s_res_status S ch x = at_res_status ch x"
| "step s_res_line_almost_done S ch x = goto_state x s_header_field_start"
| "step s_start_req S ch x = at_start_req S ch x"
| "step s_req_method S ch x = at_req_method ch x"
| "step s_req_spaces_before_url S ch x = at_req_spaces_before_url ch x"
| "step s_req_schema S ch x = at_req_schema ch x"
| "step s_req_schema_slash S ch x = goto_state x s_req_schema_slash_slash"
| "step s_req_schema_slash_slash S ch x = goto_state x s_req_host"
| "step s_req_host S ch x = at_req_host S ch x"
| "step s_req_port S ch x = at_req_port S ch x"
| "step s_req_path S ch x = at_req_path S ch x"
| "step s_req_query_string_start S ch x = at_req_query_string_start S ch x"
| "step s_req_query_string S ch x = at_req_query_string S ch x"
| "step s_req_fragment_start S ch x = at_req_fragment_start S ch x"
| "step s_req_fragment S ch x = at_req_fragment S ch x"
| "step s_req_http_start S ch x = at_req_http_start ch x"
| "step s_req_http_H S ch x = goto_state x s_req_http_HT"
| "step s_req_http_HT S ch x = goto_state x s_req_http_HTT"
| "step s_req_http_HTT S ch x = goto_state x s_req_http_HTTP"
| "step s_req_http_HTTP S ch x = goto_state x s_req_first_http_major"
| "step s_req_first_http_major S ch x = first_http_major s_req_http_major ch x"
| "step s_req_http_major S ch x = next_http_major s_req_first_http_minor ch x"
| "step s_req_first_http_minor S ch x = first_http_minor s_req_http_minor ch x"
| "step s_req_http_minor S ch x = at_req_http_minor ch x"
| "step s_req_line_almost_done S ch x = at_req_line_almost_done ch x"
| "step s_header_field_start S ch x = header_field_start S ch x"
| "step s_header_field S ch x = at_header_field S ch x"
| "step s_header_value_start S ch x = at_header_value_start S ch x"
| "step s_header_value S ch x = at_header_value S ch x"
| "step s_header_value_lws S ch x = at_header_value_lws S ch x"
| "step s_header_almost_done S ch x = header_almost_done x"
| "step s_chunk_size_start S ch x = at_chunk_size_start ch x"
| "step s_chunk_size S ch x = at_chunk_size ch x"
| "step s_chunk_parameters S ch x = at_chunk_parameters ch x"
| "step s_chunk_size_almost_done S ch x = at_chunk_size_almost_done x"
| "step s_headers_almost_done S ch x = headers_almost_done S x"
| "step s_chunk_data S ch x = at_chunk_data S x"
| "step s_chunk_data_almost_done S ch x = assert_chunked x (goto_state x s_chunk_data_done)"
| "step s_chunk_data_done S ch x = assert_chunked x (goto_state x s_chunk_size_start)"
| "step s_body_identity S ch x = at_body_identity S x"
| "step s_body_identity_eof S ch x = at_body_identity_eof S x"

text \<open>One round of the loop: the bytes of a header are counted.\<close>

definition exec_byte :: "'u http_parser_settings \<Rightarrow> char \<Rightarrow> 'u exec \<Rightarrow> 'u outcome" where
  "exec_byte S ch x =
     (if PARSING_HEADER (x_state x) then
        (let x1 = x\<lparr>x_nread := x_nread x + 1\<rparr> in
         if x_nread x1 > HTTP_MAX_HEADER_SIZE then fail x1 HPE_HEADER_OVERFLOW
         else step (x_state x1) S ch x1)
      else step (x_state x) S ch x)"

section \<open>The invariant\<close>

text \<open>
  While a name or value is being matched, the index is within the constant it is compared with.
\<close>

fun hindex_ok :: "header_states \<Rightarrow> nat \<Rightarrow> bool" where
  "hindex_ok h_C i \<longleftrightarrow> i = 0"
| "hindex_ok h_CO i \<longleftrightarrow> i = 1"
| "hindex_ok h_CON i \<longleftrightarrow> i = 2"
| "hindex_ok h_matching_connection i \<longleftrightarrow> i + 1 < length ''connection''"
| "hindex_ok h_matching_proxy_connection i \<longleftrightarrow> i + 1 < length ''proxy-connection''"
| "hindex_ok h_matching_content_length i \<longleftrightarrow> i + 1 < length ''content-length''"
| "hindex_ok h_matching_transfer_encoding i \<longleftrightarrow> i + 1 < length ''transfer-encoding''"
| "hindex_ok h_matching_upgrade i \<longleftrightarrow> i + 1 < length ''upgrade''"
| "hindex_ok h_matching_transfer_encoding_chunked i \<longleftrightarrow> i + 1 < length ''chunked''"
| "hindex_ok h_matching_connection_keep_alive i \<longleftrightarrow> i + 1 < length ''keep-alive''"
| "hindex_ok h_matching_connection_close i \<longleftrightarrow> i + 1 < length ''close''"
| "hindex_ok h i \<longleftrightarrow> True"

definition field_hstate :: "header_states \<Rightarrow> bool" where
  "field_hstate h \<longleftrightarrow>
     h \<in> {h_general, h_C, h_CO, h_CON, h_matching_connection, h_matching_proxy_connection,
          h_matching_content_length, h_matching_transfer_encoding, h_matching_upgrade,
          h_connection, h_content_length, h_transfer_encoding, h_upgrade}"

definition chunk_state :: "state \<Rightarrow> bool" where
  "chunk_state st \<longleftrightarrow>
     st \<in> {s_chunk_size_start, s_chunk_size, s_chunk_parameters, s_chunk_size_almost_done,
           s_chunk_data, s_chunk_data_almost_done, s_chunk_data_done}"

text \<open>
  \<open>core_ok k\<close> of state, header state, index, count, flags and method; \<open>k\<close> is the count of bytes at
  the start of a chunk size, 0 between two rounds and 1 within.
\<close>

definition core_ok :: "nat \<Rightarrow> state \<Rightarrow> header_states \<Rightarrow> nat \<Rightarrow> nat \<Rightarrow> http_flag set \<Rightarrow> http_method \<Rightarrow> bool" where
  "core_ok k st h i n fl m \<longleftrightarrow>
     n \<le> HTTP_MAX_HEADER_SIZE \<and> i \<le> 255 \<and>
     (st = s_req_method \<longrightarrow> i \<le> length (method_strings m)) \<and>
     (st = s_header_field \<longrightarrow> field_hstate h \<and> hindex_ok h i) \<and>
     (st = s_header_value \<longrightarrow> h \<noteq> h_connection \<and> h \<noteq> h_transfer_encoding \<and> hindex_ok h i) \<and>
     (st = s_chunk_size_start \<longrightarrow> n = k) \<and>
     (st \<in> {s_chunk_data, s_chunk_data_almost_done, s_chunk_data_done} \<longrightarrow> n = 0) \<and>
     (chunk_state st \<longrightarrow> F_CHUNKED \<in> fl)"

definition url_state :: "state \<Rightarrow> bool" where
  "url_state st \<longleftrightarrow>
     st \<in> {s_req_path, s_req_schema, s_req_schema_slash, s_req_schema_slash_slash, s_req_port,
           s_req_query_string_start, s_req_query_string, s_req_host, s_req_fragment_start, s_req_fragment}"

text \<open>A mark is set exactly in the states that collect for it, at or before the position.\<close>

definition mark_ok :: "nat option \<Rightarrow> bool \<Rightarrow> nat \<Rightarrow> bool" where
  "mark_ok mark on p \<longleftrightarrow> (mark \<noteq> None \<longleftrightarrow> on) \<and> (\<forall>m. mark = Some m \<longrightarrow> m \<le> p)"

definition marks_ok :: "state \<Rightarrow> 'u exec \<Rightarrow> bool" where
  "marks_ok st x \<longleftrightarrow>
     mark_ok (field_mark x) (st = s_header_field) (x_p x) \<and>
     mark_ok (value_mark x) (st = s_header_value) (x_p x) \<and>
     mark_ok (fragment_mark x) (st = s_req_fragment) (x_p x) \<and>
     mark_ok (query_mark x) (st = s_req_query_string) (x_p x) \<and>
     mark_ok (path_mark x) (st = s_req_path) (x_p x) \<and>
     mark_ok (url_mark x) (url_state st) (x_p x)"

definition exec_ok :: "nat \<Rightarrow> state \<Rightarrow> 'u exec \<Rightarrow> bool" where
  "exec_ok k st x \<longleftrightarrow>
     core_ok k st (x_hstate x) (x_index x) (x_nread x) (flags (x_parser x)) (p_method (x_parser x)) \<and>
     marks_ok st x"

lemmas inv_defs = exec_ok_def core_ok_def marks_ok_def mark_ok_def chunk_state_def url_state_def field_hstate_def

text \<open>
  What holds of an outcome: \<open>N\<close> after a \<open>break\<close>, \<open>R\<close> after a \<open>return\<close>, \<open>E\<close> after \<open>goto error\<close>, and no
  fault.
\<close>

fun outcome_all :: "('u exec \<Rightarrow> bool) \<Rightarrow> ('u exec \<Rightarrow> nat \<Rightarrow> bool) \<Rightarrow> ('u exec \<Rightarrow> bool) \<Rightarrow> 'u outcome \<Rightarrow> bool" where
  "outcome_all N R E (Next x) \<longleftrightarrow> N x"
| "outcome_all N R E (Return x n) \<longleftrightarrow> R x n"
| "outcome_all N R E (Error x) \<longleftrightarrow> E x"
| "outcome_all N R E (Fault e) \<longleftrightarrow> False"

abbreviation with_data :: "'u exec \<Rightarrow> 'u \<Rightarrow> 'u exec" where
  "with_data x d \<equiv> upd_parser x (\<lambda>p. p\<lparr>p_data := d\<rparr>)"

lemma with_data_same: "with_data x (p_data (x_parser x)) = x"
  by (simp add: upd_parser_def)

lemma outcome_and_then [simp]:
  "outcome_all N R E (and_then r f) \<longleftrightarrow> outcome_all (\<lambda>x. outcome_all N R E (f x)) R E r"
  by (cases r) auto

lemma outcome_callback2:
  assumes "\<And>d. N (with_data x d)" and "\<And>d. R (set_errno (with_data x d) e) (x_p x)"
  shows "outcome_all N R E (callback2 cb e x)"
  using assms assms(1) [of "p_data (x_parser x)"]
  by (cases cb) (auto simp: with_data_same callback2_def Let_def upd_parser_def split: prod.splits)

lemma outcome_callback_noclear:
  assumes "\<And>d. N (with_data x d)" and "\<And>d. R (set_errno (with_data x d) e) (x_p x)"
  shows "outcome_all N R E (callback_noclear cb mark e x)"
  using assms assms(1) [of "p_data (x_parser x)"]
  by (auto simp: with_data_same callback_noclear_def Let_def upd_parser_def split: prod.splits option.splits)

text \<open>The callbacks that clear their mark.\<close>

lemma outcome_callback_url:
  assumes "\<And>d. N ((with_data x d)\<lparr>url_mark := None\<rparr>)" and "\<And>d. R (set_errno (with_data x d) HPE_CB_url) (x_p x)"
  shows "outcome_all N R E (callback_url S x)"
  unfolding callback_url_def outcome_and_then by (rule outcome_callback_noclear) (simp_all add: assms)

lemma outcome_callback_path:
  assumes "\<And>d. N ((with_data x d)\<lparr>path_mark := None\<rparr>)" and "\<And>d. R (set_errno (with_data x d) HPE_CB_path) (x_p x)"
  shows "outcome_all N R E (callback_path S x)"
  unfolding callback_path_def outcome_and_then by (rule outcome_callback_noclear) (simp_all add: assms)

lemma outcome_callback_query:
  assumes "\<And>d. N ((with_data x d)\<lparr>query_mark := None\<rparr>)"
    and "\<And>d. R (set_errno (with_data x d) HPE_CB_query_string) (x_p x)"
  shows "outcome_all N R E (callback_query S x)"
  unfolding callback_query_def outcome_and_then by (rule outcome_callback_noclear) (simp_all add: assms)

lemma outcome_callback_fragment:
  assumes "\<And>d. N ((with_data x d)\<lparr>fragment_mark := None\<rparr>)"
    and "\<And>d. R (set_errno (with_data x d) HPE_CB_fragment) (x_p x)"
  shows "outcome_all N R E (callback_fragment S x)"
  unfolding callback_fragment_def outcome_and_then by (rule outcome_callback_noclear) (simp_all add: assms)

lemma outcome_callback_field:
  assumes "\<And>d. N ((with_data x d)\<lparr>field_mark := None\<rparr>)"
    and "\<And>d. R (set_errno (with_data x d) HPE_CB_header_field) (x_p x)"
  shows "outcome_all N R E (callback_field S x)"
  unfolding callback_field_def outcome_and_then by (rule outcome_callback_noclear) (simp_all add: assms)

lemma outcome_callback_value:
  assumes "\<And>d. N ((with_data x d)\<lparr>value_mark := None\<rparr>)"
    and "\<And>d. R (set_errno (with_data x d) HPE_CB_header_value) (x_p x)"
  shows "outcome_all N R E (callback_value S x)"
  unfolding callback_value_def outcome_and_then by (rule outcome_callback_noclear) (simp_all add: assms)

lemmas outcome_callbacks = outcome_callback2 outcome_callback_url outcome_callback_path outcome_callback_query
  outcome_callback_fragment outcome_callback_field outcome_callback_value

lemma outcome_if: "(c \<Longrightarrow> outcome_all N R E a) \<Longrightarrow> (\<not> c \<Longrightarrow> outcome_all N R E b) \<Longrightarrow> outcome_all N R E (if c then a else b)"
  by simp

lemma outcome_seq: "outcome_all (\<lambda>x. outcome_all N R E (f x)) R E r \<Longrightarrow> outcome_all N R E (and_then r f)"
  by simp

lemma outcome_Next: "N x \<Longrightarrow> outcome_all N R E (Next x)" by simp
lemma outcome_Return: "R x n \<Longrightarrow> outcome_all N R E (Return x n)" by simp
lemma outcome_Error: "E x \<Longrightarrow> outcome_all N R E (Error x)" by simp

lemma outcome_fail: "E (set_errno x e) \<Longrightarrow> outcome_all N R E (fail x e)" by (simp add: fail_def)
lemma outcome_goto: "N (x\<lparr>x_state := st\<rparr>) \<Longrightarrow> outcome_all N R E (goto_state x st)" by (simp add: goto_state_def)

lemmas outcome_rules = outcome_if outcome_seq outcome_Next outcome_Return outcome_Error outcome_fail outcome_goto outcome_callbacks

text \<open>
  The outcome of a step: the invariant, the same buffer and a position not further back; after a
  \<open>return\<close> the parser has failed or been upgraded.
\<close>

definition next_ok :: "string \<Rightarrow> nat \<Rightarrow> 'u exec \<Rightarrow> bool" where
  "next_ok dat q x \<longleftrightarrow> exec_ok 0 (x_state x) x \<and> x_data x = dat \<and> q \<le> x_p x \<and> x_p x < length dat"

definition return_ok :: "string \<Rightarrow> 'u exec \<Rightarrow> nat \<Rightarrow> bool" where
  "return_ok dat x n \<longleftrightarrow> ((\<exists>e. p_state (x_parser x) = Failed e) \<or> upgrade (x_parser x)) \<and> n \<le> length dat"

definition step_ok :: "string \<Rightarrow> nat \<Rightarrow> 'u outcome \<Rightarrow> bool" where
  "step_ok dat q = outcome_all (next_ok dat q) (return_ok dat) (\<lambda>x. x_p x \<le> length dat)"

text \<open>Within a round, in the state \<open>st\<close>, at the position of a byte.\<close>

definition pre_ok :: "state \<Rightarrow> 'u exec \<Rightarrow> bool" where
  "pre_ok st x \<longleftrightarrow> exec_ok 1 st x \<and> x_state x = st \<and> x_p x < length (x_data x)"

definition safe_step :: "state \<Rightarrow> 'u exec \<Rightarrow> 'u outcome \<Rightarrow> bool" where
  "safe_step st x r \<longleftrightarrow> (pre_ok st x \<longrightarrow> step_ok (x_data x) (x_p x) r)"

lemma safe_stepI:
  "(pre_ok st x \<Longrightarrow> outcome_all (next_ok (x_data x) (x_p x)) (return_ok (x_data x)) (\<lambda>y. x_p y \<le> length (x_data x)) r)
    \<Longrightarrow> safe_step st x r"
  by (simp add: safe_step_def step_ok_def)

lemmas outcome_defs = next_ok_def return_ok_def pre_ok_def set_errno_def upd_parser_def

lemma method_string_size: "Suc 0 \<le> length (method_strings m)" "length (method_strings m) \<le> 11"
  by (cases m; simp)+

subsection \<open>One lemma for each group of labels\<close>

lemma safe_start:
  "safe_step s_start_req_or_res x (at_start_req_or_res S ch x)"
  "safe_step s_start_res x (at_start_res S ch x)"
  "safe_step s_start_req x (at_start_req S ch x)"
  "safe_step s_res_or_resp_H x (at_res_or_resp_H ch x)"
  unfolding at_start_req_or_res_def at_start_res_def at_start_req_def at_res_or_resp_H_def
    message_begin_def new_message_def start_req_method_assign_def
  by (rule safe_stepI, intro outcome_rules;
      simp add: outcome_defs inv_defs method_string_size fail_def goto_state_def split: option.splits)+

lemma safe_version:
  "safe_step s_res_first_http_major x (first_http_major s_res_http_major ch x)"
  "safe_step s_res_http_major x (next_http_major s_res_first_http_minor ch x)"
  "safe_step s_res_first_http_minor x (first_http_minor s_res_http_minor ch x)"
  "safe_step s_res_http_minor x (at_res_http_minor ch x)"
  "safe_step s_req_first_http_major x (first_http_major s_req_http_major ch x)"
  "safe_step s_req_http_major x (next_http_major s_req_first_http_minor ch x)"
  "safe_step s_req_first_http_minor x (first_http_minor s_req_http_minor ch x)"
  "safe_step s_req_http_minor x (at_req_http_minor ch x)"
  unfolding first_http_major_def next_http_major_def first_http_minor_def next_http_minor_def
    at_res_http_minor_def at_req_http_minor_def Let_def
  by (rule safe_stepI, intro outcome_rules; simp add: outcome_defs inv_defs)+

lemma safe_line:
  "safe_step s_res_first_status_code x (at_res_first_status_code ch x)"
  "safe_step s_res_status_code x (at_res_status_code ch x)"
  "safe_step s_res_status x (at_res_status ch x)"
  "safe_step s_req_http_start x (at_req_http_start ch x)"
  "safe_step s_req_line_almost_done x (at_req_line_almost_done ch x)"
  unfolding at_res_first_status_code_def at_res_status_code_def at_res_status_def at_req_http_start_def
    at_req_line_almost_done_def Let_def
  by (rule safe_stepI, intro outcome_rules; simp add: outcome_defs inv_defs)+

lemma safe_url:
  "safe_step s_req_spaces_before_url x (at_req_spaces_before_url ch x)"
  "safe_step s_req_schema x (at_req_schema ch x)"
  "safe_step s_req_host x (at_req_host S ch x)"
  "safe_step s_req_port x (at_req_port S ch x)"
  "safe_step s_req_path x (at_req_path S ch x)"
  "safe_step s_req_query_string_start x (at_req_query_string_start S ch x)"
  "safe_step s_req_query_string x (at_req_query_string S ch x)"
  "safe_step s_req_fragment_start x (at_req_fragment_start S ch x)"
  "safe_step s_req_fragment x (at_req_fragment S ch x)"
  unfolding at_req_spaces_before_url_def at_req_schema_def at_req_host_def at_req_port_def at_req_path_def
    at_req_query_string_start_def at_req_query_string_def at_req_fragment_start_def at_req_fragment_def http_0_9_def
    mark_url_def mark_path_def mark_query_def mark_fragment_def
  by (rule safe_stepI, intro outcome_rules; simp add: outcome_defs inv_defs)+

lemma outcome_Fault: "False \<Longrightarrow> outcome_all N R E (Fault e)" by simp

lemma safe_chunk:
  "safe_step s_chunk_size_start x (at_chunk_size_start ch x)"
  "safe_step s_chunk_size x (at_chunk_size ch x)"
  "safe_step s_chunk_parameters x (at_chunk_parameters ch x)"
  "safe_step s_chunk_size_almost_done x (at_chunk_size_almost_done x)"
  "safe_step s_chunk_data_almost_done x (assert_chunked x (goto_state x s_chunk_data_done))"
  "safe_step s_chunk_data_done x (assert_chunked x (goto_state x s_chunk_size_start))"
  unfolding at_chunk_size_start_def at_chunk_size_def at_chunk_parameters_def at_chunk_size_almost_done_def
    assert_chunked_def Let_def
  by (rule safe_stepI, intro outcome_rules outcome_Fault; simp add: outcome_defs inv_defs)+

lemma other_method_size: "other_method m i ch = Inr m' \<Longrightarrow> Suc i \<le> length (method_strings m')"
  by (auto simp: other_method_def split: if_splits)

lemma safe_method: "safe_step s_req_method x (at_req_method ch x)"
proof (rule safe_stepI)
  assume pre: "pre_ok s_req_method x"
  let ?m = "p_method (x_parser x)" and ?i = "x_index x"
  let ?c = "(method_strings ?m @ [NUL]) ! ?i"
  from pre have i: "?i \<le> length (method_strings ?m)" by (simp add: pre_ok_def inv_defs)
  then have read: "arr_read (method_strings ?m @ [NUL]) ?i = Inr ?c" by simp
  have small: "?i < length (method_strings ?m)" if "ch \<noteq> NUL" "ch = ?c"
    using that i by (cases "?i = length (method_strings ?m)") (auto simp: nth_append)
  have "?i \<le> 11" using i method_string_size(2) [of ?m] by simp
  moreover have "Suc ?i \<le> length (method_strings m')" if "other_method ?m ?i ch = Inr m'" for m'
    using that by (rule other_method_size)
  ultimately show "outcome_all (next_ok (x_data x) (x_p x)) (return_ok (x_data x)) (\<lambda>y. x_p y \<le> length (x_data x))
      (at_req_method ch x)"
    unfolding at_req_method_def Let_def read sum.case
    using pre small
    by (intro outcome_rules) (auto simp: outcome_defs inv_defs fail_def split: sum.splits bool.splits)
qed

lemma outcome_headers_complete:
  assumes "\<And>d. N (with_data x d)"
    and "\<And>d. N (upd_parser (with_data x d) (\<lambda>p. p\<lparr>flags := insert F_SKIPBODY (flags p)\<rparr>))"
    and "\<And>d. R (set_errno (with_data x d) HPE_CB_headers_complete) (x_p x)"
  shows "outcome_all N R E (headers_complete S x)"
  using assms assms(1) [of "p_data (x_parser x)"]
  by (cases "on_headers_complete S") (auto simp: with_data_same headers_complete_def Let_def upd_parser_def split: prod.splits)

lemma safe_headers_done: "safe_step s_headers_almost_done x (headers_almost_done S x)"
  unfolding headers_almost_done_def complete_and_restart_def body_or_end_def message_complete_def start_state_def Let_def
  by (rule safe_stepI, intro outcome_rules outcome_headers_complete; simp add: outcome_defs inv_defs)

lemma safe_field_start: "safe_step s_header_field_start x (header_field_start S ch x)"
proof (rule safe_stepI)
  assume pre: "pre_ok s_header_field_start x"
  then have "pre_ok s_headers_almost_done (x\<lparr>x_state := s_headers_almost_done\<rparr>)"
    by (simp add: pre_ok_def inv_defs)
  then have "step_ok (x_data x) (x_p x) (headers_almost_done S (x\<lparr>x_state := s_headers_almost_done\<rparr>))"
    using safe_headers_done [of "x\<lparr>x_state := s_headers_almost_done\<rparr>" S] by (simp add: safe_step_def)
  then show "outcome_all (next_ok (x_data x) (x_p x)) (return_ok (x_data x)) (\<lambda>y. x_p y \<le> length (x_data x))
      (header_field_start S ch x)"
    unfolding header_field_start_def Let_def mark_field_def field_header_state_def step_ok_def
    using pre by (intro outcome_rules) (simp_all add: outcome_defs inv_defs)
qed

lemma safe_lws: "safe_step s_header_value_lws x (at_header_value_lws S ch x)"
proof (rule safe_stepI)
  assume pre: "pre_ok s_header_value_lws x"
  then have "pre_ok s_header_field_start (x\<lparr>x_state := s_header_field_start\<rparr>)"
    by (simp add: pre_ok_def inv_defs)
  then have "step_ok (x_data x) (x_p x) (header_field_start S ch (x\<lparr>x_state := s_header_field_start\<rparr>))"
    using safe_field_start [of "x\<lparr>x_state := s_header_field_start\<rparr>" S] by (simp add: safe_step_def)
  then show "outcome_all (next_ok (x_data x) (x_p x)) (return_ok (x_data x)) (\<lambda>y. x_p y \<le> length (x_data x))
      (at_header_value_lws S ch x)"
    unfolding at_header_value_lws_def step_ok_def
    using pre by (intro outcome_rules) (simp_all add: outcome_defs inv_defs)
qed


lemma safe_field: "safe_step s_header_field x (at_header_field S ch x)"
proof (rule safe_stepI)
  assume pre: "pre_ok s_header_field x"
  have field: "outcome_all (next_ok (x_data x) (x_p x)) (return_ok (x_data x)) (\<lambda>y. x_p y \<le> length (x_data x)) (field_char ch c x)" for c
    using pre unfolding field_char_def Let_def
    by (cases "x_hstate x"; simp add: outcome_defs inv_defs match_next_def Let_def; arith)
  show "outcome_all (next_ok (x_data x) (x_p x)) (return_ok (x_data x)) (\<lambda>y. x_p y \<le> length (x_data x))
      (at_header_field S ch x)"
    unfolding at_header_field_def Let_def
    using pre by (intro outcome_rules field) (simp_all add: outcome_defs inv_defs)
qed

lemma safe_almost_done: "safe_step s_header_almost_done x (header_almost_done x)"
  by (rule safe_stepI) (cases "x_hstate x"; simp add: header_almost_done_def Let_def goto_state_def outcome_defs inv_defs)

lemma safe_value: "safe_step s_header_value x (at_header_value S ch x)"
proof (rule safe_stepI)
  assume pre: "pre_ok s_header_value x"
  let ?ok = "outcome_all (next_ok (x_data x) (x_p x)) (return_ok (x_data x)) (\<lambda>y. x_p y \<le> length (x_data x))"
  have char: "?ok (value_char ch x)"
    using pre unfolding value_char_def Let_def
    by (cases "x_hstate x"; simp add: outcome_defs inv_defs match_next_def Let_def fail_def; arith)
  have almost: "?ok (header_almost_done ((with_data x d)\<lparr>value_mark := None\<rparr>))" for d
    using pre by (cases "x_hstate x"; simp add: header_almost_done_def Let_def goto_state_def outcome_defs inv_defs)
  show "?ok (at_header_value S ch x)"
    unfolding at_header_value_def
    using pre by (intro outcome_rules char almost) (simp_all add: outcome_defs inv_defs)
qed

lemma safe_value_start: "safe_step s_header_value_start x (at_header_value_start S ch x)"
proof (rule safe_stepI)
  assume pre: "pre_ok s_header_value_start x"
  let ?ok = "outcome_all (next_ok (x_data x) (x_p x)) (return_ok (x_data x)) (\<lambda>y. x_p y \<le> length (x_data x))"
  have char: "?ok (first_value_char ch (x\<lparr>value_mark := Some (x_p x), x_state := s_header_value, x_index := 0\<rparr>))"
    using pre unfolding first_value_char_def Let_def
    by (cases "x_hstate x"; simp add: outcome_defs inv_defs fail_def)
  show "?ok (at_header_value_start S ch x)"
    unfolding at_header_value_start_def Let_def mark_value_def
    using pre by (intro outcome_rules char) (simp_all add: outcome_defs inv_defs)
qed

section \<open>The body\<close>

lemma skip_body_simps [simp]:
  "x_state (skip_body S r x) = x_state x" "x_hstate (skip_body S r x) = x_hstate x"
  "x_index (skip_body S r x) = x_index x" "x_nread (skip_body S r x) = x_nread x"
  "x_data (skip_body S r x) = x_data x" "x_p (skip_body S r x) = x_p x + nat r - 1"
  "field_mark (skip_body S r x) = field_mark x" "value_mark (skip_body S r x) = value_mark x"
  "fragment_mark (skip_body S r x) = fragment_mark x" "query_mark (skip_body S r x) = query_mark x"
  "path_mark (skip_body S r x) = path_mark x" "url_mark (skip_body S r x) = url_mark x"
  "flags (x_parser (skip_body S r x)) = flags (x_parser x)" "p_method (x_parser (skip_body S r x)) = p_method (x_parser x)"
  "content_length (x_parser (skip_body S r x)) = content_length (x_parser x)"
  "type (x_parser (skip_body S r x)) = type (x_parser x)" "p_state (x_parser (skip_body S r x)) = p_state (x_parser x)"
  by (simp_all add: skip_body_def upd_parser_def Let_def split: option.splits)

lemma safe_body:
  "safe_step s_body_identity x (at_body_identity S x)"
  "safe_step s_body_identity_eof x (at_body_identity_eof S x)"
  "safe_step s_chunk_data x (at_chunk_data S x)"
  unfolding at_body_identity_def at_body_identity_eof_def at_chunk_data_def complete_and_restart_def message_complete_def
    start_state_def Let_def remaining_def assert_chunked_def
  by (rule safe_stepI, intro outcome_rules outcome_Fault; simp add: outcome_defs inv_defs; linarith?)+

lemmas safe_steps = safe_start safe_version safe_line safe_url safe_chunk safe_method safe_headers_done safe_field_start
  safe_lws safe_field safe_almost_done safe_value safe_value_start safe_body

lemma safe_plain:
  "st' \<notin> {s_req_method, s_header_field, s_header_value, s_req_path, s_req_query_string, s_req_fragment} \<Longrightarrow>
   \<not> chunk_state st \<Longrightarrow> \<not> chunk_state st' \<Longrightarrow> url_state st' = url_state st \<Longrightarrow>
   st \<notin> {s_req_method, s_header_field, s_header_value, s_req_path, s_req_query_string, s_req_fragment} \<Longrightarrow>
   safe_step st x (goto_state x st')"
  by (rule safe_stepI) (simp add: goto_state_def outcome_defs inv_defs)

lemma safe_dead: "safe_step s_dead x (fail x HPE_CLOSED_CONNECTION)"
  by (rule safe_stepI) (simp add: fail_def outcome_defs)

lemma safe_step_all: "safe_step st x (step st S ch x)"
  by (cases st; simp add: safe_steps safe_plain safe_dead chunk_state_def url_state_def)

section \<open>Running a buffer\<close>

lemma core_ok_count:
  "core_ok 0 st h i n fl m \<Longrightarrow> PARSING_HEADER st \<Longrightarrow> Suc n \<le> HTTP_MAX_HEADER_SIZE \<Longrightarrow> core_ok 1 st h i (Suc n) fl m"
  "core_ok 0 st h i n fl m \<Longrightarrow> \<not> PARSING_HEADER st \<Longrightarrow> core_ok 1 st h i n fl m"
  by (cases st; simp add: core_ok_def PARSING_HEADER_def chunk_state_def)+

lemma exec_byte_ok:
  assumes "exec_ok 0 (x_state x) x" and "x_p x < length (x_data x)"
  shows "step_ok (x_data x) (x_p x) (exec_byte S ch x)"
proof (cases "PARSING_HEADER (x_state x)")
  case True
  let ?x = "x\<lparr>x_nread := x_nread x + 1\<rparr>"
  show ?thesis
  proof (cases "x_nread x + 1 > HTTP_MAX_HEADER_SIZE")
    case True
    with \<open>PARSING_HEADER _\<close> assms show ?thesis
      by (simp add: exec_byte_def step_ok_def fail_def set_errno_def upd_parser_def)
  next
    case False
    with True assms have "pre_ok (x_state x) ?x"
      using core_ok_count(1) by (simp add: pre_ok_def exec_ok_def marks_ok_def)
    with safe_step_all [of "x_state x" ?x S ch] have "step_ok (x_data x) (x_p x) (step (x_state x) S ch ?x)"
      by (simp add: safe_step_def)
    with True False show ?thesis by (simp add: exec_byte_def)
  qed
next
  case False
  with assms have "pre_ok (x_state x) x"
    using core_ok_count(2) by (simp add: pre_ok_def exec_ok_def)
  with safe_step_all [of "x_state x" x S ch] have "step_ok (x_data x) (x_p x) (step (x_state x) S ch x)"
    by (simp add: safe_step_def)
  with False show ?thesis by (simp add: exec_byte_def)
qed

text \<open>
  The loop: it ends at the end of the buffer, at a \<open>return\<close> or at an error. \<open>None\<close> would be a loop
  that never ends (a position that jumps over the end).
\<close>

partial_function (option) exec_loop :: "'u http_parser_settings \<Rightarrow> 'u exec \<Rightarrow> 'u outcome option" where
  "exec_loop S x =
     (if x_p x = length (x_data x) then Some (Next x)
      else
        (case arr_read (x_data x) (x_p x) of
           Inl e \<Rightarrow> Some (Fault e)
         | Inr ch \<Rightarrow>
             (case exec_byte S ch x of
                Next x' \<Rightarrow> exec_loop S (x'\<lparr>x_p := x_p x' + 1\<rparr>)
              | Return x' n \<Rightarrow> Some (Return x' n)
              | Error x' \<Rightarrow> Some (Error x')
              | Fault e \<Rightarrow> Some (Fault e))))"

declare exec_loop.simps [code]

text \<open>At the end of the buffer what is marked is handed out, and the marks stay as they are.\<close>

definition exec_end :: "'u http_parser_settings \<Rightarrow> 'u exec \<Rightarrow> 'u outcome" where
  "exec_end S x =
     and_then (callback_noclear (on_header_field S) (field_mark x) HPE_CB_header_field x) (\<lambda>x.
     and_then (callback_noclear (on_header_value S) (value_mark x) HPE_CB_header_value x) (\<lambda>x.
     and_then (callback_noclear (on_fragment S) (fragment_mark x) HPE_CB_fragment x) (\<lambda>x.
     and_then (callback_noclear (on_query_string S) (query_mark x) HPE_CB_query_string x) (\<lambda>x.
     and_then (callback_noclear (on_path S) (path_mark x) HPE_CB_path x) (\<lambda>x.
     callback_noclear (on_url S) (url_mark x) HPE_CB_url x)))))"

text \<open>
  The parser and the value that \<open>http_parser_execute\<close> returns. The index is stored in an
  \<open>unsigned char\<close>, the count in an \<open>uint32_t\<close>. After \<open>goto error\<close> without an error number the number
  is \<open>HPE_UNKNOWN\<close>.
\<close>

fun exec_result :: "'u outcome \<Rightarrow> ('u http_parser \<times> nat) res" where
  "exec_result (Next x) =
     Inr ((x_parser x)\<lparr>p_state := Running (x_state x), p_header_state := x_hstate x,
            p_index := x_index x mod 2 ^ 8, p_nread := x_nread x mod 2 ^ 32\<rparr>, length (x_data x))"
| "exec_result (Return x n) = Inr (x_parser x, n)"
| "exec_result (Error x) =
     Inr ((case p_state (x_parser x) of
             Running st \<Rightarrow> (x_parser x)\<lparr>p_state := Failed HPE_UNKNOWN\<rparr>
           | Failed e \<Rightarrow> x_parser x), x_p x)"
| "exec_result (Fault e) = Inl e"

text \<open>The local variables at the start; a mark is set when the last buffer ended within its part.\<close>

definition exec_init :: "'u http_parser \<Rightarrow> state \<Rightarrow> string \<Rightarrow> 'u exec" where
  "exec_init p st dat =
     (let at_start = (\<lambda>b. if b then Some 0 else None) in
      \<lparr>x_parser = p, x_state = st, x_hstate = p_header_state p, x_index = p_index p, x_nread = p_nread p,
       x_data = dat, x_p = 0,
       field_mark = at_start (st = s_header_field), value_mark = at_start (st = s_header_value),
       fragment_mark = at_start (st = s_req_fragment), query_mark = at_start (st = s_req_query_string),
       path_mark = at_start (st = s_req_path), url_mark = at_start (url_state st)\<rparr>)"

text \<open>An empty buffer is the end of the connection.\<close>

definition exec_eof :: "'u http_parser_settings \<Rightarrow> 'u http_parser \<Rightarrow> state \<Rightarrow> ('u http_parser \<times> nat) res" where
  "exec_eof S p st =
     (if st = s_body_identity_eof then
        (case message_complete S (exec_init p st []) of
           Next x \<Rightarrow> Inr (x_parser x, 0)
         | r \<Rightarrow> exec_result r)
      else if st \<in> {s_dead, s_start_req_or_res, s_start_res, s_start_req} then Inr (p, 0)
      else Inr (p\<lparr>p_state := Failed HPE_INVALID_EOF_STATE\<rparr>, 1))"

definition http_parser_execute ::
    "'u http_parser_settings \<Rightarrow> 'u http_parser \<Rightarrow> string \<Rightarrow> ('u http_parser \<times> nat) res" where
  "http_parser_execute S p dat =
     (case p_state p of
        Failed e \<Rightarrow> Inr (p, 0)
      | Running st \<Rightarrow>
          if dat = [] then exec_eof S p st
          else
            (case exec_loop S (exec_init p st dat) of
               None \<Rightarrow> Inl Diverges
             | Some r \<Rightarrow> exec_result (and_then r (exec_end S))))"

definition http_parser_init :: "'u http_parser \<Rightarrow> http_parser_type \<Rightarrow> 'u http_parser" where
  "http_parser_init p t =
     p\<lparr>type := t,
       p_state := Running (if t = HTTP_REQUEST then s_start_req
                           else if t = HTTP_RESPONSE then s_start_res else s_start_req_or_res),
       p_nread := 0, upgrade := False, flags := {}, p_method := HTTP_DELETE\<rparr>"

section \<open>Safety\<close>

definition parser_ok :: "'u http_parser \<Rightarrow> bool" where
  "parser_ok p \<longleftrightarrow>
     (case p_state p of
        Failed e \<Rightarrow> True
      | Running st \<Rightarrow>
          core_ok 0 st (p_header_state p) (p_index p) (p_nread p) (flags p) (p_method p))"

text \<open>\<open>http_parser_init\<close> does not set the index, which is an \<open>unsigned char\<close>.\<close>

lemma parser_ok_init: "p_index p < 2 ^ 8 \<Longrightarrow> parser_ok (http_parser_init p t)"
  by (simp add: parser_ok_def http_parser_init_def core_ok_def chunk_state_def)

lemma exec_init_ok:
  "parser_ok p \<Longrightarrow> p_state p = Running st \<Longrightarrow> exec_ok 0 st (exec_init p st dat)"
  by (simp add: parser_ok_def exec_ok_def exec_init_def marks_ok_def mark_ok_def Let_def)

lemma marks_ok_step: "marks_ok st x \<Longrightarrow> marks_ok st (x\<lparr>x_p := x_p x + 1\<rparr>)"
proof -
  have "mark_ok m b q \<Longrightarrow> mark_ok m b (q + 1)" for m b q by (auto simp: mark_ok_def)
  then show "marks_ok st x \<Longrightarrow> marks_ok st (x\<lparr>x_p := x_p x + 1\<rparr>)" by (simp add: marks_ok_def)
qed

definition loop_ok :: "string \<Rightarrow> 'u exec \<Rightarrow> bool" where
  "loop_ok dat x \<longleftrightarrow> exec_ok 0 (x_state x) x \<and> x_data x = dat \<and> x_p x \<le> length dat"

lemma exec_byte_loop_ok:
  assumes "loop_ok dat x" and "x_p x < length dat" and "exec_byte S ch x = Next x'"
  shows "loop_ok dat (x'\<lparr>x_p := x_p x' + 1\<rparr>)" "x_p x \<le> x_p x'" "x_p x' < length dat"
proof -
  have "step_ok dat (x_p x) (exec_byte S ch x)"
    using exec_byte_ok [of x S ch] assms(1,2) by (simp add: loop_ok_def)
  with assms(3) show "loop_ok dat (x'\<lparr>x_p := x_p x' + 1\<rparr>)" "x_p x \<le> x_p x'" "x_p x' < length dat"
    using marks_ok_step [of "x_state x'" x'] by (simp_all add: step_ok_def next_ok_def loop_ok_def exec_ok_def)
qed

lemma exec_loop_ok:
  "loop_ok dat x \<Longrightarrow> \<exists>r. exec_loop S x = Some r \<and>
     outcome_all (\<lambda>y. loop_ok dat y \<and> x_p y = length dat) (return_ok dat) (\<lambda>y. x_p y \<le> length dat) r"
proof (induction "length dat - x_p x" arbitrary: x rule: less_induct)
  case less
  show ?case
  proof (cases "x_p x = length dat")
    case True
    with less.prems show ?thesis by (simp add: exec_loop.simps loop_ok_def)
  next
    case False
    with less.prems have at: "x_p x < length (x_data x)" "x_data x = dat" "exec_ok 0 (x_state x) x"
      by (auto simp: loop_ok_def)
    let ?r = "exec_byte S (dat ! x_p x) x"
    from at have eq: "exec_loop S x = (case ?r of Next x' \<Rightarrow> exec_loop S (x'\<lparr>x_p := x_p x' + 1\<rparr>)
        | Return x' n \<Rightarrow> Some (Return x' n) | Error x' \<Rightarrow> Some (Error x') | Fault e \<Rightarrow> Some (Fault e))"
      by (subst exec_loop.simps) (simp add: arr_read_ok)
    have ok: "step_ok dat (x_p x) ?r"
      using exec_byte_ok [OF at(3) at(1)] at(2) by simp
    show ?thesis
    proof (cases ?r)
      case (Next x')
      let ?y = "x'\<lparr>x_p := x_p x' + 1\<rparr>"
      from less.prems at(1,2) Next have "loop_ok dat ?y" and p: "x_p x \<le> x_p x'" "x_p x' < length dat"
        using exec_byte_loop_ok [of dat x S _ x'] by auto
      moreover have "length dat - x_p ?y < length dat - x_p x" using p by simp
      ultimately show ?thesis using less.hyps [of ?y] Next eq by simp
    qed (use ok eq in \<open>simp_all add: step_ok_def\<close>)
  qed
qed


lemma exec_end_ok:
  assumes "loop_ok dat x" and "x_p x = length dat"
  shows "outcome_all (\<lambda>y. loop_ok dat y) (return_ok dat) (\<lambda>y. x_p y \<le> length dat) (exec_end S x)"
  unfolding exec_end_def
  by (intro outcome_seq outcome_callback_noclear;
      use assms in \<open>simp add: loop_ok_def exec_ok_def marks_ok_def return_ok_def set_errno_def upd_parser_def\<close>)

lemma exec_result_ok:
  assumes "outcome_all (\<lambda>y. loop_ok dat y) (return_ok dat) (\<lambda>y. x_p y \<le> length dat) r"
  shows "\<exists>p' n. exec_result r = Inr (p', n) \<and> n \<le> length dat \<and> (parser_ok p' \<or> upgrade p')"
proof (cases r)
  case (Next x)
  with assms have "exec_ok 0 (x_state x) x" "x_data x = dat" by (simp_all add: loop_ok_def)
  moreover from this have "x_index x < 2 ^ 8" "x_nread x < 2 ^ 32"
    by (simp_all add: exec_ok_def core_ok_def HTTP_MAX_HEADER_SIZE_def)
  ultimately show ?thesis using Next by (simp add: parser_ok_def exec_ok_def)
next
  case (Return x n)
  with assms show ?thesis by (auto simp: return_ok_def parser_ok_def)
next
  case (Error x)
  with assms show ?thesis by (auto simp: parser_ok_def split: stored_state.split)
qed (use assms in simp)

lemma exec_eof_ok:
  "parser_ok p \<Longrightarrow> p_state p = Running st \<Longrightarrow>
   \<exists>p' n. exec_eof S p st = Inr (p', n) \<and> n \<le> 1 \<and> parser_ok p'"
  by (cases "on_message_complete S")
    (auto simp: exec_eof_def message_complete_def callback2_def Let_def upd_parser_def set_errno_def parser_ok_def
      exec_init_def split: prod.splits)

lemma http_parser_execute_spec:
  assumes "parser_ok p"
  shows "\<exists>p' n. http_parser_execute S p dat = Inr (p', n) \<and> n \<le> max 1 (length dat) \<and> (parser_ok p' \<or> upgrade p')"
proof (cases "p_state p")
  case (Failed e)
  then show ?thesis using assms by (simp add: http_parser_execute_def)
next
  case (Running st)
  show ?thesis
  proof (cases "dat = []")
    case True
    with exec_eof_ok [OF assms Running, of S] Running show ?thesis by (auto simp: http_parser_execute_def)
  next
    case False
    have "loop_ok dat (exec_init p st dat)"
      using exec_init_ok [OF assms Running, of dat] by (simp add: loop_ok_def) (simp add: exec_init_def Let_def)
    then obtain r where r: "exec_loop S (exec_init p st dat) = Some r"
      "outcome_all (\<lambda>y. loop_ok dat y \<and> x_p y = length dat) (return_ok dat) (\<lambda>y. x_p y \<le> length dat) r"
      using exec_loop_ok by blast
    from r(2) have "outcome_all (\<lambda>y. loop_ok dat y) (return_ok dat) (\<lambda>y. x_p y \<le> length dat) (and_then r (exec_end S))"
      by (cases r) (auto intro: exec_end_ok)
    from exec_result_ok [OF this] show ?thesis using r(1) Running False by (auto simp: http_parser_execute_def)
  qed
qed

text \<open>
  Buffers are parsed one after the other as the parser's interface asks for: up to the one that sets
  \<open>upgrade\<close>. \<open>dispatch\<close> of \<^verbatim>\<open>src/http/main.c\<close> does not look at \<open>upgrade\<close>; what parsing on can lead to is
  shown by \<open>data_after_upgrade_aborts\<close> below.
\<close>

fun feed :: "'u http_parser_settings \<Rightarrow> 'u http_parser \<Rightarrow> string list \<Rightarrow> 'u http_parser res" where
  "feed S p [] = Inr p"
| "feed S p (d # ds) =
     bind_res (http_parser_execute S p d) (\<lambda>(p', n). if upgrade p' then Inr p' else feed S p' ds)"

lemma feed_ok: "parser_ok p \<Longrightarrow> \<exists>p'. feed S p ds = Inr p' \<and> (parser_ok p' \<or> upgrade p')"
proof (induction ds arbitrary: p)
  case (Cons d ds)
  obtain p' n where r: "http_parser_execute S p d = Inr (p', n)" "parser_ok p' \<or> upgrade p'"
    using http_parser_execute_spec [OF Cons.prems] by blast
  with Cons.IH [of p'] show ?case by (cases "upgrade p'") auto
qed simp

section \<open>Properties\<close>

text \<open>Demonstration parsers and settings: no callbacks; memory as \<open>malloc\<close> may give it.\<close>

definition ignore :: "unit http_parser_settings" where
  "ignore = \<lparr>on_message_begin = None, on_path = None, on_query_string = None, on_url = None, on_fragment = None,
     on_header_field = None, on_header_value = None, on_headers_complete = None, on_body = None,
     on_message_complete = None\<rparr>"

definition raw_parser :: "'u \<Rightarrow> 'u http_parser" where
  "raw_parser d = \<lparr>type = HTTP_BOTH, flags = {}, p_state = Running s_dead, p_header_state = h_general, p_index = 77,
     p_nread = 5, content_length = 0, http_major = 0, http_minor = 0, status_code = 0, p_method = HTTP_PATCH,
     upgrade = True, p_data = d\<rparr>"

definition crlf :: "string list \<Rightarrow> string" where
  "crlf ls = concat (map (\<lambda>l. l @ [CR, LF]) ls)"

text \<open>C11. Robustness of the parser: an initialised parser, of any type, fed any sequence of buffers with any
  callbacks, up to the one that sets \<open>upgrade\<close>, never fails an assertion, never reads outside a method
  name, a header constant or the buffer, and never loops. After all of them the parser has failed, has
  set \<open>upgrade\<close>, or has counted at most 80 KB of header; and as long as it has not set \<open>upgrade\<close> it takes
  any further buffer without a fault and consumes no more than it was given (one at the end of the
  connection).\<close>

theorem parser_never_faults:
  fixes S :: "'u http_parser_settings"
  assumes "p_index p < 2 ^ 8"
  shows "\<exists>p'. feed S (http_parser_init p t) ds = Inr p' \<and>
    (upgrade p' \<or> (\<exists>e. p_state p' = Failed e) \<or> p_nread p' \<le> 80 * 1024) \<and>
    (\<not> upgrade p' \<longrightarrow> (\<exists>p'' n. http_parser_execute S p' d = Inr (p'', n) \<and> n \<le> max 1 (length d)))"
proof -
  have ok: "parser_ok (http_parser_init p t)" using assms by (rule parser_ok_init)
  have nread: "(\<exists>e. p_state q = Failed e) \<or> p_nread q \<le> 80 * 1024" if "parser_ok q" for q :: "'u http_parser"
    using that by (cases "p_state q") (simp_all add: parser_ok_def core_ok_def HTTP_MAX_HEADER_SIZE_def)
  obtain p' where p': "feed S (http_parser_init p t) ds = Inr p'" "parser_ok p' \<or> upgrade p'"
    using feed_ok [OF ok, of S ds] by blast
  then show ?thesis using nread [of p'] http_parser_execute_spec [of p' S d] by blast
qed

theorem parser_never_faults_witness:
  "\<exists>p'. feed ignore (http_parser_init (raw_parser ()) HTTP_REQUEST) [''GET /'', '' HTTP/1.1''] = Inr p' \<and>
    (upgrade p' \<or> (\<exists>e. p_state p' = Failed e) \<or> p_nread p' \<le> 80 * 1024) \<and>
    (\<not> upgrade p' \<longrightarrow> (\<exists>p'' n. http_parser_execute ignore p' ''x'' = Inr (p'', n) \<and> n \<le> max 1 (length ''x'')))"
  by (rule parser_never_faults) (simp add: raw_parser_def)

text \<open>The caller must stop when the parser has set \<open>upgrade\<close>: the early return does not store the
  state. Below, the first buffer ends within a chunk size, the second ends that message and holds a
  CONNECT request, after which \<open>upgrade\<close> is set; a third buffer is parsed in the state of the end of
  the first one with the flags of the last request, and the assertion on \<open>F_CHUNKED\<close> aborts the
  program.\<close>

theorem data_after_upgrade_aborts:
  "bind_res (http_parser_execute ignore (http_parser_init (raw_parser ()) HTTP_REQUEST)
       (crlf [''GET /'', ''Transfer-Encoding: chunked'', ''''] @ ''1'')) (\<lambda>(p1, n1).
   bind_res (http_parser_execute ignore p1 (crlf ['''', ''x'', ''0'', '''', ''CONNECT a/'', ''''])) (\<lambda>(p2, n2).
     if upgrade p2 \<and> p_state p2 = Running s_chunk_size then http_parser_execute ignore p2 ''0''
     else Inl Null_Deref)) = Inl Assert_Failed"
  by code_simp

lemma content_length_wraps:
  "bind_res (http_parser_execute ignore (http_parser_init (raw_parser ()) HTTP_REQUEST)
       (crlf [''PUT /'', ''Content-Length: 18446744073709551616'', ''''] @ ''GET /'')) (\<lambda>(p, n).
     Inr (p_state p, p_method p, content_length p)) = Inr (Running s_req_path, HTTP_GET, -1)"
  by code_simp

lemma chunk_size_wraps:
  "bind_res (http_parser_execute ignore (http_parser_init (raw_parser ()) HTTP_REQUEST)
       (crlf [''PUT /'', ''Transfer-Encoding: chunked'', '''', ''8000000000000000'', ''a'', ''0''])) (\<lambda>(p, n).
     Inr (p_state p, content_length p)) = Inr (Running s_header_field_start, 0)"
  by code_simp

text \<open>The arithmetic on lengths is not checked. A Content-Length of 2 to the power 64 is taken for 0, and
  what follows the header for the next request; a chunk size of 2 to the power 63 becomes negative, and the
  chunk empty.\<close>

theorem lengths_wrap_around:
  "bind_res (http_parser_execute ignore (http_parser_init (raw_parser ()) HTTP_REQUEST)
       (crlf [''PUT /'', ''Content-Length: 18446744073709551616'', ''''] @ ''GET /'')) (\<lambda>(p, n).
     Inr (p_state p, p_method p, content_length p)) = Inr (Running s_req_path, HTTP_GET, -1) \<and>
   bind_res (http_parser_execute ignore (http_parser_init (raw_parser ()) HTTP_REQUEST)
       (crlf [''PUT /'', ''Transfer-Encoding: chunked'', '''', ''8000000000000000'', ''a'', ''0''])) (\<lambda>(p, n).
     Inr (p_state p, content_length p)) = Inr (Running s_header_field_start, 0)"
  by (intro conjI content_length_wraps chunk_size_wraps)

end
