(* ===== verification/File_Util.thy ===== *)
theory File_Util
  imports Prelude
begin

text \<open>
  \<^verbatim>\<open>src/http/file_util.c\<close>: the path of a requested file (\<open>get_full_path\<close>) and the copy of a file to
  the client (\<open>send_file\<close>). A \<open>char\<close> buffer is the list of its bytes, of the length it is
  declared with and with whatever contents it has before the call; \<open>size_t\<close> and the loop
  counters are natural numbers, since a path is far shorter than \<^verbatim>\<open>INT_MAX\<close>.
\<close>

section \<open>get_full_path\<close>

text \<open>
  The loop over \<open>newfile = path_buffer + path_length\<close>: it reads \<open>newfile[i+1]\<close> only when
  \<open>newfile[i]\<close> is a dot (the \<open>&&\<close> of the source), and steps over both dots it overwrites.
\<close>

function dotdot_scan :: "nat \<Rightarrow> nat \<Rightarrow> nat \<Rightarrow> nat \<Rightarrow> string \<Rightarrow> string res" where
  "dotdot_scan path_length file_length i depth buf =
     (if i < file_length then
        bind_res (arr_read buf (path_length + i)) (\<lambda>c.
        bind_res (if c = CHR ''.'' then arr_read buf (path_length + i + 1) else Inr NUL) (\<lambda>d.
          if c = CHR ''.'' \<and> d = CHR ''.'' \<and> 0 < depth then
            bind_res (arr_write buf (path_length + i) (CHR ''/'')) (\<lambda>buf1.
            bind_res (arr_write buf1 (path_length + i + 1) (CHR ''/'')) (\<lambda>buf2.
              dotdot_scan path_length file_length (i + 2) depth buf2))
          else if c = CHR ''/'' then dotdot_scan path_length file_length (i + 1) (depth + 1) buf
          else dotdot_scan path_length file_length (i + 1) depth buf))
      else Inr buf)"
  by pat_completeness auto
termination
  by (relation "measure (\<lambda>(pl, fl, i, depth, buf). fl - i)") auto

declare dotdot_scan.simps [simp del]

definition get_full_path ::
    "string \<Rightarrow> string \<Rightarrow> nat \<Rightarrow> string \<Rightarrow> nat \<Rightarrow> string \<Rightarrow> nat \<Rightarrow> string res" where
  "get_full_path path_buffer path path_length default_file default_file_length file file_length =
     bind_res (arr_copy path_buffer 0 (strncpy_bytes path path_length)) (\<lambda>b1.
     bind_res (arr_copy b1 path_length (strncpy_bytes file file_length)) (\<lambda>b2.
     bind_res (dotdot_scan path_length file_length 0 0 b2) (\<lambda>b3.
     bind_res (if 0 < file_length then arr_read b3 (path_length + (file_length - 1)) else Inr NUL) (\<lambda>c.
       if 0 < file_length \<and> c = CHR ''/'' then
         bind_res (arr_copy b3 (path_length + file_length)
                     (strncpy_bytes default_file default_file_length)) (\<lambda>b4.
           arr_write b4 (path_length + file_length + default_file_length) NUL)
       else arr_write b3 (path_length + file_length) NUL))))"

text \<open>A path climbs when two adjacent dots occur in it.\<close>

fun climbs :: "string \<Rightarrow> bool" where
  "climbs (c # d # s) \<longleftrightarrow> (c = CHR ''.'' \<and> d = CHR ''.'') \<or> climbs (d # s)"
| "climbs s \<longleftrightarrow> False"

lemma climbs_Cons: "climbs (c # s) \<longleftrightarrow> (c = CHR ''.'' \<and> s \<noteq> [] \<and> hd s = CHR ''.'') \<or> climbs s"
  by (cases s) auto

lemma climbs_append:
  "climbs (s @ t) \<longleftrightarrow> climbs s \<or> climbs t \<or>
     (s \<noteq> [] \<and> t \<noteq> [] \<and> last s = CHR ''.'' \<and> hd t = CHR ''.'')"
  by (induction s) (auto simp: climbs_Cons)

text \<open>
  Reference definition of the scan once a slash has been seen: on the \<open>n\<close> characters still to
  be scanned, each pair of dots becomes a pair of slashes, from the left.
\<close>

fun scrub :: "nat \<Rightarrow> string \<Rightarrow> string" where
  "scrub 0 xs = xs"
| "scrub (Suc n) [] = []"
| "scrub (Suc n) [c] = [c]"
| "scrub (Suc n) (c # d # xs) =
     (if c = CHR ''.'' \<and> d = CHR ''.'' then CHR ''/'' # CHR ''/'' # scrub (n - 1) xs
      else c # scrub n (d # xs))"

lemma length_scrub [simp, c_length]: "length (scrub n xs) = length xs"
  by (induction n xs rule: scrub.induct) auto

lemma hd_scrub: "xs \<noteq> [] \<Longrightarrow> hd (scrub n xs) = hd xs \<or> hd (scrub n xs) = CHR ''/''"
  by (cases "(n, xs)" rule: scrub.cases) auto

lemma take_scrub_not_climbs: "n \<le> length xs \<Longrightarrow> \<not> climbs (take n (scrub n xs))"
proof (induction n xs rule: scrub.induct)
  case (4 n c d xs)
  show ?case
  proof (cases "c = CHR ''.'' \<and> d = CHR ''.''")
    case True
    with 4 show ?thesis by (cases n) (auto simp: climbs_Cons)
  next
    case False
    with 4 have "\<not> climbs (take n (scrub n (d # xs)))" by simp
    moreover have "c = CHR ''.'' \<Longrightarrow> n \<noteq> 0 \<Longrightarrow> hd (take n (scrub n (d # xs))) \<noteq> CHR ''.''"
      using False hd_scrub [of "d # xs" n] by (cases "scrub n (d # xs)") (auto simp: hd_take)
    ultimately show ?thesis using False by (auto simp: climbs_Cons)
  qed
qed (auto simp: climbs_Cons)

lemma set_take_scrub: "set (take n (scrub n xs)) \<subseteq> insert (CHR ''/'') (set (take n xs))"
proof (induction n xs rule: scrub.induct)
  case (4 n c d xs)
  then show ?case by (cases n) auto
qed auto

lemma dotdot_scan_scrub:
  assumes "pl + fl < length buf" and "0 < depth"
  shows "dotdot_scan pl fl i depth buf =
           Inr (take (pl + i) buf @ scrub (fl - i) (drop (pl + i) buf))"
  using assms
proof (induction pl fl i depth buf rule: dotdot_scan.induct)
  case (1 pl fl i depth buf)
  let ?c = "buf ! (pl + i)" and ?d = "buf ! (pl + i + 1)"
  show ?case
  proof (cases "i < fl")
    case False
    then show ?thesis by (simp add: dotdot_scan.simps [of pl fl i])
  next
    case True
    with "1.prems" have rd: "arr_read buf (pl + i) = Inr ?c" "arr_read buf (pl + i + 1) = Inr ?d"
      by simp_all
    from True "1.prems" have dr: "drop (pl + i) buf = ?c # ?d # drop (pl + i + 2) buf"
      by (simp add: Cons_nth_drop_Suc)
    have tk: "take (Suc (pl + i)) buf = take (pl + i) buf @ [?c]"
      using True "1.prems" by (simp add: take_Suc_conv_app_nth)
    from True have fl: "fl - i = Suc (fl - (i + 1))" by simp
    show ?thesis
    proof (cases "?c = CHR ''.'' \<and> ?d = CHR ''.''")
      case dots: True
      let ?b1 = "buf[pl + i := CHR ''/'']"
      let ?b2 = "?b1[pl + i + 1 := CHR ''/'']"
      have "dotdot_scan pl fl (i + 2) depth ?b2 =
              Inr (take (pl + (i + 2)) ?b2 @ scrub (fl - (i + 2)) (drop (pl + (i + 2)) ?b2))"
        using "1.IH"(1) [OF True rd(1)] dots rd(2) "1.prems" True by simp
      moreover have "take (pl + (i + 2)) ?b2 = take (pl + i) buf @ [CHR ''/'', CHR ''/'']"
        using True "1.prems" by (intro nth_equalityI) (auto simp: nth_append nth_list_update less_Suc_eq)
      moreover have "drop (pl + (i + 2)) ?b2 = drop (pl + i + 2) buf"
        by (simp add: add.assoc)
      ultimately show ?thesis
        using dots rd True "1.prems" dr fl by (simp add: dotdot_scan.simps [of pl fl i])
    next
      case False
      have "dotdot_scan pl fl (i + 1) dp buf =
              Inr (take (pl + (i + 1)) buf @ scrub (fl - (i + 1)) (drop (pl + (i + 1)) buf))"
        if "dp = (if ?c = CHR ''/'' then depth + 1 else depth)" for dp
        using that "1.IH"(2,3) [OF True rd(1), of "if ?c = CHR ''.'' then ?d else NUL"] False rd(2) "1.prems" True
        by auto
      moreover have "drop (pl + (i + 1)) buf = ?d # drop (pl + i + 2) buf"
        using True "1.prems" by (simp add: Cons_nth_drop_Suc)
      ultimately show ?thesis
        using False rd True "1.prems" dr fl
        by (auto simp: dotdot_scan.simps [of pl fl i] tk split: if_splits)
    qed
  qed
qed


text \<open>
  For a path that starts with a slash (what the request parser hands over), the scan of the
  whole file name is the reference definition on everything after that slash.
\<close>

lemma dotdot_scan_slash:
  assumes "length pre = pl" and "0 < fl" and "fl < length xs" and "hd xs = CHR ''/''"
  shows "dotdot_scan pl fl 0 0 (pre @ xs) = Inr (pre @ CHR ''/'' # scrub (fl - 1) (tl xs))"
proof -
  from assms obtain ys where xs: "xs = CHR ''/'' # ys" by (cases xs) auto
  have "dotdot_scan pl fl 0 0 (pre @ xs) = dotdot_scan pl fl 1 1 (pre @ xs)"
    using assms xs by (simp add: dotdot_scan.simps [of pl fl 0] nth_append)
  also have "\<dots> = Inr (take (pl + 1) (pre @ xs) @ scrub (fl - 1) (drop (pl + 1) (pre @ xs)))"
    using assms by (intro dotdot_scan_scrub) auto
  finally show ?thesis using assms(1) xs by simp
qed

text \<open>The file name as the buffer holds it when the loop ends, and the path returned for it.\<close>

definition resolved :: "string \<Rightarrow> string \<Rightarrow> string \<Rightarrow> string" where
  "resolved file rest default_file =
     (let name = take (length file) (CHR ''/'' # scrub (length file - 1) (tl file @ rest))
      in if last name = CHR ''/'' then name @ default_file else name)"

lemma overlay_append: "length pre = off \<Longrightarrow> overlay (pre @ t) off xs = pre @ xs @ drop (length xs) t"
  by (simp add: overlay_def)

lemma get_full_path_eq:
  assumes buf: "length path + length file + length dflt < length buf"
    and nul: "NUL \<notin> set path" "NUL \<notin> set file" "NUL \<notin> set dflt"
    and slash: "file \<noteq> []" "hd file = CHR ''/''"
  shows "\<exists>out. get_full_path buf path (length path) dflt (length dflt) file (length file) = Inr out
     \<and> length out = length buf
     \<and> c_string out = path @ resolved file (drop (length path + length file) buf) dflt"
proof -
  define rest where "rest = drop (length path + length file) buf"
  let ?n = "length file" and ?pl = "length path"
  have rest: "length rest = length buf - (?pl + ?n)" "rest \<noteq> []" "length dflt < length rest"
    using buf by (auto simp: rest_def)
  have b1: "overlay buf 0 path = path @ drop ?pl buf"
    by (simp add: overlay_def)
  have b2: "overlay (path @ drop ?pl buf) ?pl file = path @ file @ rest"
    using buf by (simp add: overlay_def rest_def add.commute)
  let ?s = "CHR ''/'' # scrub (?n - 1) (tl file @ rest)"
  have len_s: "length ?s = ?n + length rest" using slash(1) by (cases "file") auto
  have scan: "dotdot_scan ?pl ?n 0 0 (path @ file @ rest) = Inr (path @ ?s)"
    using dotdot_scan_slash [of path ?pl ?n "file @ rest"] slash rest by simp
  define name where "name = take ?n ?s"
  define tl_s where "tl_s = drop ?n ?s"
  have s: "?s = name @ tl_s" and len_name: "length name = ?n" and len_tl: "length tl_s = length rest"
    using len_s by (simp_all add: name_def tl_s_def)
  have name_ne: "name \<noteq> []" using len_name slash(1) by auto
  have last: "(path @ ?s) ! (?pl + ?n - Suc 0) = last name"
    using name_ne len_name s slash(1) by (cases ?n) (auto simp: nth_append last_conv_nth)
  have "set (take (?n - 1) (scrub (?n - 1) (tl file @ rest))) \<subseteq> insert (CHR ''/'') (set (tl file))"
    using set_take_scrub [of "?n - 1" "tl file @ rest"] by simp
  then have nul_name: "NUL \<notin> set name"
    using nul(2) slash(1) by (cases "file") (auto simp: name_def)
  have res: "resolved file (drop (?pl + ?n) buf) dflt = (if last name = CHR ''/'' then name @ dflt else name)"
    by (simp add: resolved_def Let_def name_def rest_def)
  have step: "get_full_path buf path ?pl dflt (length dflt) file ?n =
      (if last name = CHR ''/'' then
         bind_res (arr_copy (path @ ?s) (?pl + ?n) dflt) (\<lambda>b4. arr_write b4 (?pl + ?n + length dflt) NUL)
       else arr_write (path @ ?s) (?pl + ?n) NUL)"
    using buf nul slash last len_s rest
    by (simp add: get_full_path_def b1 b2 scan del: scrub.simps)
  show ?thesis
  proof (cases "last name = CHR ''/''")
    case True
    have "get_full_path buf path ?pl dflt (length dflt) file ?n =
            Inr ((path @ name @ dflt @ drop (length dflt) tl_s)[?pl + ?n + length dflt := NUL])"
      using step [unfolded s] True rest len_tl len_name by (simp add: overlay_def)
    moreover have "(path @ name @ dflt @ drop (length dflt) tl_s)[?pl + ?n + length dflt := NUL] =
            (path @ name @ dflt) @ NUL # drop (Suc (length dflt)) tl_s"
      using rest len_tl len_name
      by (simp add: list_update_append Cons_nth_drop_Suc [symmetric])
    ultimately show ?thesis
      using True nul nul_name rest len_tl len_name buf
        c_string_append_NUL [of "path @ name @ dflt" "drop (Suc (length dflt)) tl_s"]
      by (auto simp: res)
  next
    case False
    have "get_full_path buf path ?pl dflt (length dflt) file ?n = Inr ((path @ name @ tl_s)[?pl + ?n := NUL])"
      using step [unfolded s] False rest len_tl len_name by simp
    moreover have "(path @ name @ tl_s)[?pl + ?n := NUL] = (path @ name) @ NUL # tl tl_s"
      using rest len_tl len_name by (cases tl_s) (auto simp: list_update_append)
    ultimately show ?thesis
      using False nul nul_name rest len_tl len_name buf c_string_append_NUL [of "path @ name" "tl tl_s"]
      by (auto simp: res)
  qed
qed


section \<open>send_file\<close>

text \<open>
  The file being read is the list of the bytes not read yet; \<open>fread\<close> of \<open>buf_size\<close> bytes takes
  that many or what is left. How many of them \<open>fwrite\<close> accepts is up to the client's connection:
  \<open>accept k n\<close> for the \<open>k\<close>-th call with \<open>n\<close> bytes. The result is the returned count, the bytes
  the client received and whether the warning was logged.
\<close>

definition buf_size :: nat where
  "buf_size = 1024"

record sent =
  w_bytes :: nat
  received :: "byte list"
  warned :: bool

function send_loop :: "(nat \<Rightarrow> nat \<Rightarrow> nat) \<Rightarrow> nat \<Rightarrow> byte list \<Rightarrow> nat \<Rightarrow> byte list \<Rightarrow> sent" where
  "send_loop accept k src w out =
     (let r = take buf_size src in
      if 0 < length r then
        let w' = min (accept k (length r)) (length r) in
        if w' < length r then \<lparr>w_bytes = w', received = out @ take w' r, warned = True\<rparr>
        else send_loop accept (k + 1) (drop buf_size src) w' (out @ r)
      else \<lparr>w_bytes = w, received = out, warned = False\<rparr>)"
  by pat_completeness auto
termination
  by (relation "measure (\<lambda>(accept, k, src, w, out). length src)") (auto simp: buf_size_def)

declare send_loop.simps [simp del]

definition send_file :: "(nat \<Rightarrow> nat \<Rightarrow> nat) \<Rightarrow> byte list \<Rightarrow> sent" where
  "send_file accept src = send_loop accept 0 src 0 []"

lemma send_loop_Nil [simp]: "send_loop accept k [] w out = \<lparr>w_bytes = w, received = out, warned = False\<rparr>"
  by (simp add: send_loop.simps)

lemma send_loop_step:
  "src \<noteq> [] \<Longrightarrow> r = take buf_size src \<Longrightarrow> w' = min (accept k (length r)) (length r) \<Longrightarrow>
   send_loop accept k src w out =
     (if w' < length r then \<lparr>w_bytes = w', received = out @ take w' r, warned = True\<rparr>
      else send_loop accept (k + 1) (drop buf_size src) w' (out @ r))"
  by (subst send_loop.simps) (auto simp: Let_def buf_size_def)

lemma send_loop_complete:
  "(\<And>k n. n \<le> accept k n) \<Longrightarrow>
   send_loop accept k src w out =
     \<lparr>w_bytes = (if src = [] then w else Suc ((length src - 1) mod buf_size)),
      received = out @ src, warned = False\<rparr>"
proof (induction accept k src w out rule: send_loop.induct)
  case (1 accept k src w out)
  show ?case
  proof (cases "src = []")
    case False
    define r where "r = take buf_size src"
    from False have pos: "0 < length r" by (simp add: r_def buf_size_def)
    have full: "min (accept k (length r)) (length r) = length r"
      using "1.prems" [of "length r" k] by simp
    have "send_loop accept k src w out = send_loop accept (k + 1) (drop buf_size src) (length r) (out @ r)"
      using send_loop_step [of src r "length r" accept k w out, OF False r_def full [symmetric]] by simp
    also have "\<dots> = \<lparr>w_bytes = (if drop buf_size src = [] then length r
                    else Suc ((length (drop buf_size src) - 1) mod buf_size)),
         received = (out @ r) @ drop buf_size src, warned = False\<rparr>"
      using "1.IH" [OF r_def pos full [symmetric]] "1.prems" by simp
    finally have eq: "send_loop accept k src w out = \<dots>" .
    have "Suc ((length src - buf_size - 1) mod buf_size) = Suc ((length src - 1) mod buf_size)"
      if "buf_size < length src"
      using that mod_add_self2 [of "length src - buf_size - 1" buf_size] by simp
    moreover have "Suc ((length src - 1) mod buf_size) = length src" if "length src \<le> buf_size"
      using that False by (cases src) (auto simp: buf_size_def)
    ultimately show ?thesis
      using eq False by (auto simp: r_def)
  qed simp
qed

lemma send_loop_prefix: "\<exists>n. received (send_loop accept k src w out) = out @ take n src"
proof (induction accept k src w out rule: send_loop.induct)
  case (1 accept k src w out)
  show ?case
  proof (cases "src = []")
    case False
    define r where "r = take buf_size src"
    define w' where "w' = min (accept k (length r)) (length r)"
    note step = send_loop_step [of src r w' accept k w out, OF False r_def w'_def]
    show ?thesis
    proof (cases "w' < length r")
      case True
      then have "received (send_loop accept k src w out) = out @ take (min w' buf_size) src"
        by (simp add: step r_def min.commute)
      then show ?thesis ..
    next
      case full: False
      have "0 < length r" using False by (simp add: r_def buf_size_def)
      with "1.IH" [OF r_def _ w'_def full] obtain n where
        "received (send_loop accept (k + 1) (drop buf_size src) w' (out @ r)) =
           (out @ r) @ take n (drop buf_size src)"
        by blast
      with full have "received (send_loop accept k src w out) = out @ take (buf_size + n) src"
        by (simp only: step if_False) (simp add: r_def take_add)
      then show ?thesis ..
    qed
  qed simp
qed


section \<open>Properties\<close>

lemma take_scrub_id: "n \<le> length xs \<Longrightarrow> \<not> climbs (take (Suc n) xs) \<Longrightarrow> scrub n xs = xs"
  by (induction n xs rule: scrub.induct) auto

lemma resolved_not_climbs:
  assumes "file \<noteq> []" and "\<not> climbs dflt"
  shows "\<not> climbs (resolved file rest dflt)"
proof -
  let ?n = "length file"
  have "\<not> climbs (take (?n - 1) (scrub (?n - 1) (tl file @ rest)))"
    using assms(1) by (intro take_scrub_not_climbs) (cases "file", auto)
  then have "\<not> climbs (take ?n (CHR ''/'' # scrub (?n - 1) (tl file @ rest)))"
    using assms(1) by (cases "file") (auto simp: climbs_Cons)
  with assms show ?thesis by (auto simp: resolved_def Let_def climbs_append)
qed

text \<open>C5. Path confinement: for every request path that starts with a slash and whatever the
  buffer held before, \<open>get_full_path\<close> succeeds within the buffer, and the path it returns lies
  under the document root and nowhere contains two adjacent dots, so it cannot climb out.\<close>

theorem get_full_path_confined:
  assumes "file \<noteq> []" and "hd file = CHR ''/''" and "NUL \<notin> set file"
    and "NUL \<notin> set path" and "NUL \<notin> set dflt" and "\<not> climbs path" and "\<not> climbs dflt"
    and "length path + length file + length dflt < length buf"
  shows "\<exists>out. get_full_path buf path (length path) dflt (length dflt) file (length file) = Inr out
    \<and> length out = length buf \<and> prefix path (c_string out) \<and> \<not> climbs (c_string out)"
proof -
  obtain out where out:
    "get_full_path buf path (length path) dflt (length dflt) file (length file) = Inr out"
    "length out = length buf"
    "c_string out = path @ resolved file (drop (length path + length file) buf) dflt"
    using get_full_path_eq assms by blast
  have "hd (resolved file (drop (length path + length file) buf) dflt) = CHR ''/''"
    using assms(1) by (cases "file") (auto simp: resolved_def Let_def)
  with out assms resolved_not_climbs show ?thesis by (auto simp: climbs_append)
qed

theorem get_full_path_confined_witness:
  "\<exists>out. get_full_path (replicate 40 (CHR ''.'')) ''./html/'' (length ''./html/'')
      ''index.html'' (length ''index.html'') ''/../../etc/'' (length ''/../../etc/'') = Inr out
    \<and> length out = length (replicate 40 (CHR ''.'')) \<and> prefix ''./html/'' (c_string out) \<and> \<not> climbs (c_string out)"
  by (rule get_full_path_confined) simp_all

text \<open>Paths that need no repair are passed through: without adjacent dots and without a
  trailing dot, the returned path is the document root followed by the request path, with the
  default file name appended exactly when the request path ends in a slash.\<close>

theorem get_full_path_plain:
  assumes "file \<noteq> []" and "hd file = CHR ''/''" and "NUL \<notin> set file"
    and "NUL \<notin> set path" and "NUL \<notin> set dflt" and "\<not> climbs file" and "last file \<noteq> CHR ''.''"
    and "length path + length file + length dflt < length buf"
  shows "\<exists>out. get_full_path buf path (length path) dflt (length dflt) file (length file) = Inr out
    \<and> c_string out = path @ file @ (if last file = CHR ''/'' then dflt else [])"
proof -
  define rest where "rest = drop (length path + length file) buf"
  from assms(8) have "rest \<noteq> []" by (simp add: rest_def)
  with assms(1,6,7) have "\<not> climbs (tl file @ take 1 rest)"
    by (cases "file"; cases rest) (auto simp: climbs_append climbs_Cons)
  then have "scrub (length file - 1) (tl file @ rest) = tl file @ rest"
    using assms(1) by (intro take_scrub_id) (cases "file", auto)+
  then have "resolved file rest dflt = file @ (if last file = CHR ''/'' then dflt else [])"
    using assms(1,2) by (cases "file") (auto simp: resolved_def Let_def)
  moreover have "\<exists>out. get_full_path buf path (length path) dflt (length dflt) file (length file) = Inr out
      \<and> c_string out = path @ resolved file rest dflt"
    unfolding rest_def using get_full_path_eq assms by blast
  ultimately show ?thesis by simp
qed

theorem get_full_path_plain_witness:
  "\<exists>out. get_full_path (replicate 40 (CHR ''x'')) ''./html/'' (length ''./html/'')
      ''index.html'' (length ''index.html'') ''/a/b/'' (length ''/a/b/'') = Inr out
    \<and> c_string out = ''./html/'' @ ''/a/b/'' @ (if last ''/a/b/'' = CHR ''/'' then ''index.html'' else [])"
  by (rule get_full_path_plain) simp_all

text \<open>The scan reads one byte past the copied request path: for the path \<open>/a.\<close> the returned
  file depends on what the caller's uninitialised buffer happened to hold there.\<close>

theorem get_full_path_reads_garbage:
  "map_sum id c_string (get_full_path (replicate 23 (CHR ''x'')) ''./html/'' 7 ''index.html'' 10 ''/a.'' 3) =
     Inr ''./html//a.'' \<and>
   map_sum id c_string (get_full_path (replicate 23 (CHR ''.'')) ''./html/'' 7 ''index.html'' 10 ''/a.'' 3) =
     Inr ''./html//a/index.html''"
  by code_simp

text \<open>File transfer: when the connection takes every byte offered, \<open>send_file\<close> delivers the
  whole file unchanged and without a warning, and what it returns is the size of the last block
  it wrote, not the total.\<close>

theorem send_file_delivers:
  assumes "\<And>k n. n \<le> accept k n"
  shows "send_file accept src =
    \<lparr>w_bytes = (if src = [] then 0 else Suc ((length src - 1) mod 1024)), received = src, warned = False\<rparr>"
  using send_loop_complete [OF assms] by (simp add: send_file_def buf_size_def)

theorem send_file_delivers_witness:
  "send_file (\<lambda>k n. n) (replicate 1500 7) = \<lparr>w_bytes = 476, received = replicate 1500 7, warned = False\<rparr>"
proof -
  have "send_file (\<lambda>k n. n) (replicate 1500 7) = \<lparr>w_bytes = (if replicate 1500 (7 :: byte) = [] then 0
      else Suc ((length (replicate 1500 (7 :: byte)) - 1) mod 1024)), received = replicate 1500 7, warned = False\<rparr>"
    by (rule send_file_delivers) simp
  then show ?thesis by simp
qed

end
