(* ===== verification/Httpd_Conf.thy ===== *)
theory Httpd_Conf
  imports Prelude
begin

text \<open>
  \<^verbatim>\<open>src/http/httpd_conf.c\<close>: the configuration of the HTTP server (\<open>httpd_conf_load\<close>) and its table of
  scripts (\<open>load_scripts\<close>). The Lua tables the configuration file defines are parameters: a table
  is given by what \<open>lua_rawlen\<close> reports and by the entries \<open>lua_next\<close> enumerates, in that order.
  Loading a script gives an interpreter state of an unknown type \<open>'S\<close>, or fails. C strings are
  lists of their bytes without terminator; NULL is \<open>None\<close>.
\<close>

section \<open>Data\<close>

record mimetype =
  postfix :: "string option"
  postfix_size :: int
  mimetype :: string
  mimetype_size :: int

record 'S httpd_lua_state =
  pattern :: "string option"
  pattern_size :: int
  idle_state_top :: int
  idle_stack_size :: int
  idle_states :: "'S option list"
  filename :: string
  script_mimetype :: string

record 'S httpd_conf =
  mimetypes :: "mimetype list"
  default_mimetype :: mimetype
  port :: int
  lua_states :: "'S httpd_lua_state list option"

definition PORT :: int where "PORT = 8888"
definition DEFAULT_STATE_SIZE :: int where "DEFAULT_STATE_SIZE = 3"

definition no_mimetype :: mimetype where
  "no_mimetype = \<lparr>postfix = None, postfix_size = 0, mimetype = [], mimetype_size = 0\<rparr>"

definition mime :: "string \<Rightarrow> string \<Rightarrow> mimetype" where
  "mime p m = \<lparr>postfix = Some p, postfix_size = int (length p), mimetype = m, mimetype_size = int (length m)\<rparr>"

definition default_mimetypes :: "mimetype list" where
  "default_mimetypes =
     [mime ''html'' ''text/html'', mime ''htm'' ''text/html'', mime ''png'' ''image/png'', mime ''gif'' ''image/gif'',
      mime ''jpg'' ''image/jpeg'', mime ''jpeg'' ''image/jpeg'', mime ''css'' ''text/css'',
      mime ''js'' ''text/javascript'', mime ''txt'' ''text/plain'', no_mimetype]"

definition bin_mimetype :: mimetype where
  "bin_mimetype = mime ''bin'' ''application/octet-stream''"

definition json_mimetype :: mimetype where
  "json_mimetype = mime ''json'' ''application/json''"

section \<open>What the configuration file defines\<close>

text \<open>A field of a table as the code looks at it: absent, a string (or a number), or anything else.\<close>

datatype field = F_nil | F_string string | F_other

record script_entry =
  e_pattern :: field
  e_mimetype :: field
  e_script :: field

record 'e lua_table =
  rawlen :: nat
  entries :: "'e list"

record config =
  c_port :: "int option"
  c_mimetypes :: "(string \<times> string) option lua_table option"
  c_scripts :: "script_entry lua_table option"

section \<open>load\_scripts\<close>

text \<open>
  The loop over the table: \<open>states\<close> has room for \<open>rawlen + 1\<close> scripts, \<open>i\<close> is the next free one.
  An entry without pattern or script, or whose script fails, is skipped, and its slot is used
  again. \<open>load\<close> is \<open>luaL_newstate\<close>, \<open>luaL_openlibs\<close>, \<open>luaL_loadfile\<close> and \<open>lua_eval\<close> with a zero result.
\<close>

definition new_script :: "string \<Rightarrow> string \<Rightarrow> string \<Rightarrow> 'S \<Rightarrow> 'S httpd_lua_state" where
  "new_script pat mt file L =
     \<lparr>pattern = Some pat, pattern_size = int (length pat), idle_state_top = 0, idle_stack_size = DEFAULT_STATE_SIZE,
      idle_states = (replicate (nat DEFAULT_STATE_SIZE) None)[0 := Some L], filename = file, script_mimetype = mt\<rparr>"

definition load_entry :: "(string \<Rightarrow> 'S option) \<Rightarrow> script_entry \<Rightarrow> 'S httpd_lua_state option res" where
  "load_entry load e =
     (case e_pattern e of
        F_string pat \<Rightarrow>
          bind_res (case e_mimetype e of
              F_nil \<Rightarrow> Inr (mimetype json_mimetype)
            | F_string m \<Rightarrow> Inr m
            | F_other \<Rightarrow> Inl (Lua_Error ''string expected''))
            (\<lambda>mt. (case e_script e of
               F_string file \<Rightarrow>
                 (case load file of
                    None \<Rightarrow> Inr None
                  | Some L \<Rightarrow> Inr (Some (new_script pat mt file L)))
             | _ \<Rightarrow> Inr None))
      | _ \<Rightarrow> Inr None)"

definition clear_pattern :: "'S httpd_lua_state \<Rightarrow> 'S httpd_lua_state" where
  "clear_pattern st = st\<lparr>pattern := None\<rparr>"

fun load_loop ::
    "(string \<Rightarrow> 'S option) \<Rightarrow> script_entry list \<Rightarrow> nat \<Rightarrow> 'S httpd_lua_state list \<Rightarrow> (nat \<times> 'S httpd_lua_state list) res" where
  "load_loop load [] i states = Inr (i, states)"
| "load_loop load (e # es) i states =
     bind_res (arr_read states i) (\<lambda>st.
     bind_res (arr_write states i (clear_pattern st)) (\<lambda>states1.
     bind_res (load_entry load e) (\<lambda>r.
       (case r of
          None \<Rightarrow> load_loop load es i states1
        | Some st' \<Rightarrow> bind_res (arr_write states1 i st') (\<lambda>states2. load_loop load es (i + 1) states2)))))"

text \<open>\<open>junk\<close> is what \<open>malloc\<close> returned.\<close>

definition load_scripts ::
    "(string \<Rightarrow> 'S option) \<Rightarrow> (nat \<Rightarrow> 'S httpd_lua_state) \<Rightarrow> script_entry lua_table option \<Rightarrow>
     'S httpd_lua_state list option res" where
  "load_scripts load junk scripts =
     (case scripts of
        None \<Rightarrow> Inr None
      | Some t \<Rightarrow>
          bind_res (load_loop load (entries t) 0 (map junk [0..<rawlen t + 1])) (\<lambda>(i, states).
          bind_res (arr_read states i) (\<lambda>st.
          bind_res (arr_write states i (clear_pattern st)) (\<lambda>states'. Inr (Some states')))))"

section \<open>httpd\_conf\_load\<close>

text \<open>At most \<open>rawlen\<close> entries are read; an entry that is not a table with one pair is an error.\<close>

fun mimetype_loop :: "(string \<times> string) option list \<Rightarrow> nat \<Rightarrow> nat \<Rightarrow> mimetype list \<Rightarrow> (nat \<times> mimetype list) res" where
  "mimetype_loop es 0 i ms = Inr (i, ms)"
| "mimetype_loop [] (Suc n) i ms = Inr (i, ms)"
| "mimetype_loop (e # es) (Suc n) i ms =
     (case e of
        None \<Rightarrow> Inl (Lua_Error ''Error while parsing mime-types'')
      | Some (key, value) \<Rightarrow>
          bind_res (arr_write ms i (mime key value)) (\<lambda>ms'. mimetype_loop es n (i + 1) ms'))"

definition httpd_conf_load ::
    "(string \<Rightarrow> 'S option) \<Rightarrow> (nat \<Rightarrow> 'S httpd_lua_state) \<Rightarrow> config \<Rightarrow> 'S httpd_conf res" where
  "httpd_conf_load load junk c =
     bind_res
       (case c_mimetypes c of
          None \<Rightarrow> Inr default_mimetypes
        | Some t \<Rightarrow>
            bind_res (mimetype_loop (entries t) (rawlen t) 0 (replicate (rawlen t + 1) no_mimetype)) (\<lambda>(i, ms).
              arr_write ms i no_mimetype))
       (\<lambda>ms.
     bind_res (load_scripts load junk (c_scripts c)) (\<lambda>states.
       Inr \<lparr>mimetypes = ms, default_mimetype = bin_mimetype,
            port = (case c_port c of Some p \<Rightarrow> c_int p | None \<Rightarrow> PORT), lua_states = states\<rparr>))"

section \<open>Looking things up\<close>

text \<open>
  \<open>strncmp\<close> and \<open>strncasecmp\<close> with a zero result, on strings without NUL. \<open>lower\<close> is \<open>tolower\<close> of the
  C locale.
\<close>

definition strncmp_eq :: "string \<Rightarrow> string \<Rightarrow> int \<Rightarrow> bool" where
  "strncmp_eq a b n \<longleftrightarrow> take (nat n) a = take (nat n) b"

definition lower :: "char \<Rightarrow> char" where
  "lower c = (let n = of_char c :: nat in if 65 \<le> n \<and> n \<le> 90 then char_of (n + 32) else c)"

definition strncasecmp_eq :: "string \<Rightarrow> string \<Rightarrow> int \<Rightarrow> bool" where
  "strncasecmp_eq a b n \<longleftrightarrow> take (nat n) (map lower a) = take (nat n) (map lower b)"

text \<open>\<open>get_script\<close>: the first script whose pattern starts the path; it dereferences the path as soon
  as there is a script. Running past the array is a fault.\<close>

fun get_script_loop :: "'S httpd_lua_state list \<Rightarrow> nat \<Rightarrow> string option \<Rightarrow> nat option res" where
  "get_script_loop [] k path = Inl Out_Of_Bounds"
| "get_script_loop (st # sts) k path =
     (case pattern st of
        None \<Rightarrow> Inr None
      | Some pat \<Rightarrow>
          (case path of
             None \<Rightarrow> Inl Null_Deref
           | Some p \<Rightarrow>
               if strncmp_eq pat p (pattern_size st) then Inr (Some k) else get_script_loop sts (k + 1) path))"

definition get_script :: "'S httpd_conf \<Rightarrow> string option \<Rightarrow> nat option res" where
  "get_script conf path = (case lua_states conf of None \<Rightarrow> Inr None | Some sts \<Rightarrow> get_script_loop sts 0 path)"

text \<open>\<open>get_mimetype\<close>: what follows the last dot of the path is compared with every postfix, up to the
  length of the postfix.\<close>

definition rindex_tail :: "char \<Rightarrow> string \<Rightarrow> string option" where
  "rindex_tail c s = (if c \<in> set s then Some (rev (takeWhile (\<lambda>d. d \<noteq> c) (rev s))) else None)"

fun mimetype_search :: "mimetype list \<Rightarrow> string \<Rightarrow> string option res" where
  "mimetype_search [] tail = Inl Out_Of_Bounds"
| "mimetype_search (t # ts) tail =
     (case postfix t of
        None \<Rightarrow> Inr None
      | Some p \<Rightarrow> if strncasecmp_eq p tail (postfix_size t) then Inr (Some (mimetype t)) else mimetype_search ts tail)"

definition get_mimetype :: "string \<Rightarrow> 'S httpd_conf \<Rightarrow> string res" where
  "get_mimetype path conf =
     (case rindex_tail (CHR ''.'') path of
        None \<Rightarrow> Inr (mimetype (default_mimetype conf))
      | Some tail \<Rightarrow>
          bind_res (mimetype_search (mimetypes conf) tail) (\<lambda>r.
            Inr (case r of Some m \<Rightarrow> m | None \<Rightarrow> mimetype (default_mimetype conf))))"

section \<open>The table of scripts\<close>

text \<open>The scripts that load, in the order of the table.\<close>

definition loads :: "(string \<Rightarrow> 'S option) \<Rightarrow> script_entry list \<Rightarrow> 'S httpd_lua_state list" where
  "loads load es = List.map_filter (\<lambda>e. case load_entry load e of Inr (Some st) \<Rightarrow> Some st | _ \<Rightarrow> None) es"

lemma loads_simps [simp]:
  "loads load [] = []"
  "loads load (e # es) = (case load_entry load e of Inr (Some st) \<Rightarrow> st # loads load es | _ \<Rightarrow> loads load es)"
  by (auto simp: loads_def List.map_filter_def split: sum.splits option.splits)

lemma load_entry_some:
  "load_entry load e = Inr (Some st) \<Longrightarrow> \<exists>pat. pattern st = Some pat \<and> pattern_size st = int (length pat)"
  by (auto simp: load_entry_def new_script_def bind_res_Inr_iff split: field.splits option.splits)

lemma loads_pattern:
  "st \<in> set (loads load es) \<Longrightarrow> \<exists>pat. pattern st = Some pat \<and> pattern_size st = int (length pat)"
  by (induction es) (auto dest: load_entry_some split: sum.splits option.splits)

lemma load_loop_ok:
  assumes "\<And>e. e \<in> set es \<Longrightarrow> \<exists>r. load_entry load e = Inr r" and "i + length (loads load es) < length states"
  shows "\<exists>states'. load_loop load es i states = Inr (i + length (loads load es), states') \<and>
    length states' = length states \<and> take (i + length (loads load es)) states' = take i states @ loads load es"
  using assms
proof (induction es arbitrary: i states)
  case Nil
  then show ?case by simp
next
  case (Cons e es)
  obtain r where r: "load_entry load e = Inr r" using Cons.prems(1) [of e] by auto
  let ?s1 = "states[i := clear_pattern (states ! i)]"
  have i: "i < length states" using Cons.prems(2) by (simp split: sum.splits option.splits)
  show ?case
  proof (cases r)
    case None
    with Cons.IH [of i ?s1] Cons.prems r i show ?thesis by (auto simp del: list_update_overwrite)
  next
    case (Some st)
    let ?s2 = "?s1[i := st]"
    have "take (i + 1) ?s2 = take i states @ [st]" using i by (simp add: take_Suc_conv_app_nth)
    with Cons.IH [of "i + 1" ?s2] Cons.prems r Some i show ?thesis by auto
  qed
qed


lemma load_scripts_ok:
  assumes ok: "\<And>e. e \<in> set (entries t) \<Longrightarrow> \<exists>r. load_entry load e = Inr r"
    and fits: "length (loads load (entries t)) \<le> rawlen t"
  shows "\<exists>states st rest. load_scripts load junk (Some t) = Inr (Some states) \<and>
    states = loads load (entries t) @ st # rest \<and> pattern st = None"
proof -
  let ?n = "length (loads load (entries t))" and ?s0 = "map junk [0..<rawlen t + 1]"
  have "0 + ?n < length ?s0" using fits by simp
  from load_loop_ok [OF ok this] obtain states where st: "load_loop load (entries t) 0 ?s0 = Inr (?n, states)"
    "length states = rawlen t + 1" "take ?n states = loads load (entries t)" by auto
  have n: "?n < length states" using st(2) fits by simp
  have "states[?n := clear_pattern (states ! ?n)] =
      take ?n states @ clear_pattern (states ! ?n) # drop (Suc ?n) states"
    using n by (rule upd_conv_take_nth_drop)
  then show ?thesis
    using st n
    by (intro exI [of _ "states[?n := clear_pattern (states ! ?n)]"] exI [of _ "clear_pattern (states ! ?n)"]
        exI [of _ "drop (Suc ?n) states"]) (simp add: load_scripts_def, simp add: clear_pattern_def)
qed

text \<open>Too many scripts for the block that was allocated for \<open>rawlen\<close> of them.\<close>

lemma load_loop_overflow:
  assumes "\<And>e. e \<in> set es \<Longrightarrow> \<exists>r. load_entry load e = Inr r"
    and "length states \<le> i + length (loads load es)" and "i \<le> length states"
  shows "load_loop load es i states = Inl Out_Of_Bounds \<or> (\<exists>states'. load_loop load es i states = Inr (length states, states') \<and> length states' = length states)"
  using assms
proof (induction es arbitrary: i states)
  case Nil
  then show ?case by simp
next
  case (Cons e es)
  obtain r where r: "load_entry load e = Inr r" using Cons.prems(1) [of e] by auto
  show ?case
  proof (cases "i < length states")
    case False
    then show ?thesis by (simp add: arr_read_def)
  next
    case True
    let ?s1 = "states[i := clear_pattern (states ! i)]"
    show ?thesis
    proof (cases r)
      case None
      with Cons.IH [of ?s1 i] Cons.prems r True show ?thesis by auto
    next
      case (Some st)
      with Cons.IH [of "?s1[i := st]" "i + 1"] Cons.prems r True show ?thesis by auto
    qed
  qed
qed

lemma load_scripts_overflow:
  assumes "\<And>e. e \<in> set (entries t) \<Longrightarrow> \<exists>r. load_entry load e = Inr r" and "rawlen t < length (loads load (entries t))"
  shows "load_scripts load junk (Some t) = Inl Out_Of_Bounds"
proof -
  have "length (map junk [0..<rawlen t + 1]) \<le> 0 + length (loads load (entries t))" using assms(2) by simp
  from load_loop_overflow [OF assms(1) this] show ?thesis
    by (auto simp: load_scripts_def arr_read_def)
qed

lemma strncmp_eq_prefix: "strncmp_eq a b (int (length a)) \<longleftrightarrow> prefix a b"
  by (auto simp: strncmp_eq_def prefix_def) (metis append_take_drop_id)

definition serves :: "'S httpd_lua_state \<Rightarrow> string \<Rightarrow> bool" where
  "serves st p \<longleftrightarrow> (\<exists>pat. pattern st = Some pat \<and> prefix pat p)"

lemma get_script_loop_spec:
  assumes "\<And>st. st \<in> set sts \<Longrightarrow> \<exists>pat. pattern st = Some pat \<and> pattern_size st = int (length pat)" and "pattern end_st = None"
  shows "\<exists>r. get_script_loop (sts @ end_st # rest) k (Some p) = Inr r \<and>
    (case r of None \<Rightarrow> \<forall>st \<in> set sts. \<not> serves st p
     | Some j \<Rightarrow> k \<le> j \<and> j < k + length sts \<and> serves (sts ! (j - k)) p \<and> (\<forall>m < j - k. \<not> serves (sts ! m) p))"
  using assms(1)
proof (induction sts arbitrary: k)
  case Nil
  then show ?case using assms(2) by simp
next
  case (Cons st sts)
  obtain pat where pat: "pattern st = Some pat" "pattern_size st = int (length pat)" using Cons.prems [of st] by auto
  show ?case
  proof (cases "prefix pat p")
    case True
    then show ?thesis using pat by (simp add: strncmp_eq_prefix serves_def)
  next
    case False
    have no: "\<not> serves st p" using False pat by (simp add: serves_def)
    from Cons.IH [of "k + 1"] Cons.prems obtain r where r: "get_script_loop (sts @ end_st # rest) (k + 1) (Some p) = Inr r"
      "case r of None \<Rightarrow> \<forall>st \<in> set sts. \<not> serves st p
       | Some j \<Rightarrow> k + 1 \<le> j \<and> j < k + 1 + length sts \<and> serves (sts ! (j - (k + 1))) p \<and> (\<forall>m < j - (k + 1). \<not> serves (sts ! m) p)"
      by auto
    have run: "get_script_loop ((st # sts) @ end_st # rest) k (Some p) = Inr r"
      using r(1) pat False by (simp add: strncmp_eq_prefix)
    show ?thesis
    proof (cases r)
      case None
      with r(2) run no show ?thesis by auto
    next
      case (Some j)
      with r(2) have j: "k + 1 \<le> j" "j < k + 1 + length sts" "serves (sts ! (j - (k + 1))) p"
        "\<forall>m < j - (k + 1). \<not> serves (sts ! m) p" by auto
      then have jk: "j - k = Suc (j - (k + 1))" by simp
      have "\<forall>m < j - k. \<not> serves ((st # sts) ! m) p"
        using j(4) no jk by (auto simp: nth_Cons split: nat.splits)
      then show ?thesis using run Some j(1-3) jk by (intro exI [of _ r]) simp
    qed
  qed
qed

section \<open>Properties\<close>

text \<open>C37. A request is served by the right script: when the table of scripts is a Lua array, the server
  keeps exactly the entries that have a pattern and a script that loads, in the table's order, and
  \<open>get_script\<close> selects the first of them whose pattern starts the request path, or none.\<close>

theorem get_script_first_match:
  assumes "c_scripts c = Some t" and "\<And>e. e \<in> set (entries t) \<Longrightarrow> \<exists>r. load_entry load e = Inr r"
    and "length (loads load (entries t)) \<le> rawlen t" and "httpd_conf_load load junk c = Inr conf"
  shows "\<exists>r. get_script conf (Some p) = Inr r \<and>
    (case r of None \<Rightarrow> \<forall>st \<in> set (loads load (entries t)). \<not> serves st p
     | Some k \<Rightarrow> k < length (loads load (entries t)) \<and> serves (loads load (entries t) ! k) p \<and>
         (\<forall>m < k. \<not> serves (loads load (entries t) ! m) p))"
proof -
  let ?L = "loads load (entries t)"
  obtain states st rest where s: "load_scripts load junk (Some t) = Inr (Some states)" "states = ?L @ st # rest" "pattern st = None"
    using load_scripts_ok [OF assms(2,3)] by blast
  have conf: "lua_states conf = Some (?L @ st # rest)"
    using assms(1,4) s by (auto simp: httpd_conf_load_def bind_res_Inr_iff)
  have "\<exists>pat. pattern x = Some pat \<and> pattern_size x = int (length pat)" if "x \<in> set ?L" for x
    using that by (rule loads_pattern)
  from get_script_loop_spec [where sts = ?L and k = 0 and p = p and rest = rest, OF this s(3)] show ?thesis
    by (simp add: get_script_def conf cong: option.case_cong)
qed

definition demo_entries :: "script_entry list" where
  "demo_entries =
     [\<lparr>e_pattern = F_string ''/x'', e_mimetype = F_nil, e_script = F_nil\<rparr>,
      \<lparr>e_pattern = F_string ''/app'', e_mimetype = F_nil, e_script = F_string ''app.lua''\<rparr>]"

definition demo_config :: config where
  "demo_config = \<lparr>c_port = None, c_mimetypes = None, c_scripts = Some \<lparr>rawlen = 2, entries = demo_entries\<rparr>\<rparr>"

definition demo_junk :: "nat \<Rightarrow> unit httpd_lua_state" where
  "demo_junk k = \<lparr>pattern = Some ''?'', pattern_size = 1, idle_state_top = 0, idle_stack_size = 0, idle_states = [],
     filename = [], script_mimetype = []\<rparr>"

theorem get_script_first_match_witness:
  "\<exists>conf. httpd_conf_load (\<lambda>f. Some ()) demo_junk demo_config = Inr conf \<and> get_script conf (Some ''/app/1'') = Inr (Some 0)"
proof -
  let ?load = "\<lambda>f :: string. Some ()" and ?es = demo_entries
  have sc: "c_scripts demo_config = Some \<lparr>rawlen = 2, entries = ?es\<rparr>" "c_mimetypes demo_config = None"
    by (simp_all add: demo_config_def)
  have ls: "loads ?load ?es = [new_script ''/app'' ''application/json'' ''app.lua'' ()]"
    by (simp add: demo_entries_def load_entry_def json_mimetype_def mime_def)
  have ok: "\<exists>r. load_entry ?load e = Inr r" if "e \<in> set ?es" for e
    using that by (auto simp: demo_entries_def load_entry_def)
  obtain states where "load_scripts ?load demo_junk (Some \<lparr>rawlen = 2, entries = ?es\<rparr>) = Inr (Some states)"
    using load_scripts_ok [of "\<lparr>rawlen = 2, entries = ?es\<rparr>" ?load demo_junk] ok ls by auto
  then have "\<exists>conf. httpd_conf_load ?load demo_junk demo_config = Inr conf"
    by (simp add: httpd_conf_load_def sc)
  then obtain conf where conf: "httpd_conf_load ?load demo_junk demo_config = Inr conf" by blast
  have "\<exists>r. get_script conf (Some ''/app/1'') = Inr r \<and>
    (case r of None \<Rightarrow> \<forall>st \<in> set (loads ?load ?es). \<not> serves st ''/app/1''
     | Some k \<Rightarrow> k < length (loads ?load ?es) \<and> serves (loads ?load ?es ! k) ''/app/1'' \<and>
         (\<forall>m < k. \<not> serves (loads ?load ?es ! m) ''/app/1''))"
    using get_script_first_match [OF sc(1), of ?load demo_junk conf "''/app/1''"] ok ls conf by (simp cong: option.case_cong)
  then obtain r where "get_script conf (Some ''/app/1'') = Inr r" "r = Some 0"
    by (auto simp: ls serves_def new_script_def split: option.splits)
  with conf show ?thesis by blast
qed

text \<open>The size of the block for the scripts is the border of the table, but the loop runs over all
  its entries: as soon as more scripts load than the border says (a table with named keys has
  border 0), \<open>httpd_conf_load\<close> writes past the end of the block.\<close>

theorem too_many_scripts_overflow:
  assumes "c_scripts c = Some t" and "\<And>e. e \<in> set (entries t) \<Longrightarrow> \<exists>r. load_entry load e = Inr r"
    and "rawlen t < length (loads load (entries t))" and "c_mimetypes c = None"
  shows "httpd_conf_load load junk c = Inl Out_Of_Bounds"
  using load_scripts_overflow [OF assms(2,3)] assms(1,4) by (simp add: httpd_conf_load_def)

theorem too_many_scripts_overflow_witness:
  "httpd_conf_load (\<lambda>f. Some ()) demo_junk \<lparr>c_port = None, c_mimetypes = None, c_scripts = Some \<lparr>rawlen = 0, entries =
     [\<lparr>e_pattern = F_string ''/app'', e_mimetype = F_nil, e_script = F_string ''app.lua''\<rparr>]\<rparr>\<rparr> = Inl Out_Of_Bounds"
  by (rule too_many_scripts_overflow) (auto simp: load_entry_def)

text \<open>A file whose name ends in \<^verbatim>\<open>.json\<close> is sent as JavaScript: only as many characters are compared
  as the known postfix has, so the entry for \<^verbatim>\<open>js\<close> matches first.\<close>

theorem json_is_sent_as_javascript:
  "mimetypes conf = default_mimetypes \<Longrightarrow> get_mimetype (dir @ ''.json'') conf = Inr ''text/javascript''"
  by (simp add: get_mimetype_def rindex_tail_def default_mimetypes_def mime_def strncasecmp_eq_def lower_def)

theorem json_is_sent_as_javascript_witness:
  "get_mimetype ''./html/data.json'' (\<lparr>mimetypes = default_mimetypes, default_mimetype = bin_mimetype, port = 8888,
     lua_states = None\<rparr> :: unit httpd_conf) = Inr ''text/javascript''"
  using json_is_sent_as_javascript [where dir = "''./html/data''"
      and conf = "\<lparr>mimetypes = default_mimetypes, default_mimetype = bin_mimetype, port = 8888, lua_states = None\<rparr> :: unit httpd_conf"]
  by simp

end
