(* ===== verification/Request_Processor.thy ===== *)
theory Request_Processor
  imports Http_Execute File_Util Lua_Util Httpd_Conf
begin

text \<open>
  \<^verbatim>\<open>src/http/request_processor.c\<close>: what the HTTP server does with the parts of a request the parser
  hands out, and the file handle of \<^verbatim>\<open>src/http/file_util.c\<close> that a script writes its answer to. A
  request either goes to the \<open>dispatch\<close> function of a script or is answered with a file.
\<close>

section \<open>State\<close>

text \<open>
  A C stream to the client: NULL when \<open>fdopen\<close> failed, open with what was written to it so far, or
  closed; using a closed one is a use after free.
\<close>

datatype client_file = Null_File | Open_File "byte list" | Closed_File "byte list"

fun write_file :: "client_file \<Rightarrow> byte list \<Rightarrow> client_file res" where
  "write_file Null_File bs = Inl Null_Deref"
| "write_file (Open_File out) bs = Inr (Open_File (out @ bs))"
| "write_file (Closed_File out) bs = Inl Use_After_Free"

fun close_file :: "client_file \<Rightarrow> client_file res" where
  "close_file Null_File = Inl Null_Deref"
| "close_file (Open_File out) = Inr (Closed_File out)"
| "close_file (Closed_File out) = Inl Use_After_Free"

text \<open>
  The connection: \<open>conn_path\<close> and \<open>conn_query\<close> are the heap blocks (NULL is \<open>None\<close>), \<open>conn_lua\<close> the
  index of the script. Sizes are far below \<^verbatim>\<open>INT_MAX\<close>.
\<close>

record http_conn_info =
  conn_path :: "string option"
  conn_path_size :: nat
  conn_query :: "string option"
  conn_query_size :: nat
  conn_host :: "string option"
  conn_host_size :: "string option"
  client_fd :: client_file
  client_sd :: int
  conn_lua :: "nat option"
  conn_type :: char

text \<open>A connection with the configuration, whose pools of Lua states all connections share.\<close>

record 'L request =
  rq_conn :: http_conn_info
  rq_conf :: "'L httpd_conf"

text \<open>
  What the code uses and the repository does not define: the interpreter (\<open>sv_newstate\<close> is
  \<open>luaL_newstate\<close>, \<open>luaL_openlibs\<close> and \<open>luaL_loadfile\<close>; \<open>sv_written\<close> what the called function writes to
  the client, given the stack it is called on: the model writes it to the stream after the evaluation,
  between the header and the close, where a call writes it during the evaluation), the date, the regular
  files and whether they can be opened, how much \<open>fwrite\<close> takes, and what an uninitialised array of a
  size holds.
\<close>

record lstream =
  ls_f :: client_file
  ls_closef :: nat

record 'L server =
  sv_api :: "'L lua_api"
  sv_newstate :: "string \<Rightarrow> 'L"
  sv_getglobal :: "'L \<Rightarrow> string \<Rightarrow> 'L"
  sv_newstream :: "'L \<Rightarrow> lstream \<Rightarrow> 'L"
  sv_written :: "'L \<Rightarrow> byte list"
  sv_date :: string
  sv_file :: "string \<Rightarrow> byte list option"
  sv_readable :: "string \<Rightarrow> bool"
  sv_accept :: "nat \<Rightarrow> nat \<Rightarrow> nat"
  sv_junk :: "nat \<Rightarrow> string"

section \<open>The handle of the client for scripts\<close>

text \<open>A script cannot close its handle: \<open>no_close_socket\<close> puts itself back and reports success.\<close>

definition no_close_socket_id :: nat where "no_close_socket_id = 2"

definition no_close_socket :: "lstream \<Rightarrow> lstream \<times> bool" where
  "no_close_socket p = (p\<lparr>ls_closef := no_close_socket_id\<rparr>, True)"

definition lua_pushfile :: "'L server \<Rightarrow> 'L \<Rightarrow> client_file \<Rightarrow> 'L \<times> int" where
  "lua_pushfile V L file = (sv_newstream V L \<lparr>ls_f = file, ls_closef = no_close_socket_id\<rparr>, 1)"

section \<open>Collecting the path and the query\<close>

text \<open>The macro \<open>save_data\<close>: the block grows, and \<open>strncpy\<close> puts the new bytes behind the old ones.\<close>

definition save_data :: "string option \<Rightarrow> nat \<Rightarrow> string \<Rightarrow> string option \<times> nat" where
  "save_data data_ptr data_size new_data =
     (let new_size = length new_data + data_size;
          block = (case data_ptr of None \<Rightarrow> [] | Some b \<Rightarrow> b)
      in (Some (take data_size block @ strncpy_bytes new_data (length new_data) @ [NUL]), new_size))"

definition save_path :: "'L request \<Rightarrow> string \<Rightarrow> 'L request" where
  "save_path r data =
     (case save_data (conn_path (rq_conn r)) (conn_path_size (rq_conn r)) data of
        (str, n) \<Rightarrow> r\<lparr>rq_conn := (rq_conn r)\<lparr>conn_path := str, conn_path_size := n\<rparr>\<rparr>)"

definition save_query :: "'L request \<Rightarrow> string \<Rightarrow> 'L request" where
  "save_query r data =
     (case save_data (conn_query (rq_conn r)) (conn_query_size (rq_conn r)) data of
        (str, n) \<Rightarrow> r\<lparr>rq_conn := (rq_conn r)\<lparr>conn_query := str, conn_query_size := n\<rparr>\<rparr>)"

section \<open>The answer\<close>

text \<open>\<open>fprintf\<close> with \<open>%d\<close> of a status.\<close>

fun decimal :: "nat \<Rightarrow> string" where
  "decimal n = (if n < 10 then [char_of (48 + n)] else decimal (n div 10) @ [char_of (48 + n mod 10)])"

declare decimal.simps [simp del]

definition send_header :: "'L server \<Rightarrow> client_file \<Rightarrow> nat \<Rightarrow> string \<Rightarrow> string \<Rightarrow> client_file res" where
  "send_header V fd status status_msg mt =
     write_file fd (ascii (''HTTP/1.1 '' @ decimal status @ '' '' @ status_msg @ [LF] @ ''Server: Eva 1.0'' @ [LF] @
       ''Connection: close'' @ [LF] @ ''Content-Coding: identity'' @ [LF] @ ''Date: '' @ sv_date V @ [LF] @
       ''Content-Type: '' @ mt @ [CR, LF, CR, LF]))"

text \<open>
  The pool of idle Lua states of a script: \<open>idle_state_top\<close> is the index of the last one, -1 when
  there is none. The test in \<open>return_lua_state\<close> is the source's.
\<close>

definition get_lua_state :: "'L server \<Rightarrow> 'L httpd_lua_state \<Rightarrow> ('L \<times> 'L httpd_lua_state) res" where
  "get_lua_state V st =
     (if idle_state_top st < 0 then
        bind_res (lua_eval (sv_api V) (sv_newstate V (filename st))) (\<lambda>(L, ret). Inr (L, st))
      else
        bind_res (arr_read (idle_states st) (nat (idle_state_top st))) (\<lambda>slot.
          (case slot of
             None \<Rightarrow> Inl Null_Deref
           | Some L \<Rightarrow> Inr (L, st\<lparr>idle_state_top := idle_state_top st - 1\<rparr>))))"

definition return_lua_state :: "'L httpd_lua_state \<Rightarrow> 'L \<Rightarrow> 'L httpd_lua_state res" where
  "return_lua_state st L =
     (if idle_state_top st - 1 < idle_stack_size st then
        bind_res (if idle_state_top st + 1 < 0 then Inl Out_Of_Bounds
                  else arr_write (idle_states st) (nat (idle_state_top st + 1)) (Some L)) (\<lambda>ss.
          Inr (st\<lparr>idle_states := ss, idle_state_top := idle_state_top st + 1\<rparr>))
      else Inr st)"

definition lua_pushstring :: "'L lua_api \<Rightarrow> 'L \<Rightarrow> string option \<Rightarrow> 'L" where
  "lua_pushstring A L s = (case s of None \<Rightarrow> lua_pushnil A L | Some b \<Rightarrow> lua_pushlstring A L (ascii (c_string b)))"

definition method_name :: "http_method \<Rightarrow> string" where
  "method_name m =
     (if m = HTTP_GET then ''GET'' else if m = HTTP_POST then ''POST'' else if m = HTTP_PUT then ''PUT''
      else if m = HTTP_DELETE then ''DELETE'' else ''UNKNOWN'')"

definition set_script :: "'L httpd_conf \<Rightarrow> nat \<Rightarrow> 'L httpd_lua_state \<Rightarrow> 'L httpd_conf" where
  "set_script conf k st = conf\<lparr>lua_states := map_option (\<lambda>sts. sts[k := st]) (lua_states conf)\<rparr>"

text \<open>The stack of the state before \<open>dispatch\<close> is called: function, path, query, handle and method.\<close>

definition push_call :: "'L server \<Rightarrow> 'L \<Rightarrow> http_conn_info \<Rightarrow> client_file \<Rightarrow> http_method \<Rightarrow> 'L" where
  "push_call V L conn fd m =
     (let A = sv_api V;
          L1 = sv_getglobal V (lua_settop A L 0) ''dispatch'';
          L2 = lua_pushstring A L1 (conn_path conn);
          L3 = lua_pushstring A L2 (conn_query conn);
          L4 = fst (lua_pushfile V L3 fd)
      in lua_pushstring A L4 (Some (method_name m)))"

definition http_lua_eval :: "'L server \<Rightarrow> http_method \<Rightarrow> nat \<Rightarrow> 'L httpd_lua_state \<Rightarrow> 'L request \<Rightarrow> 'L request res" where
  "http_lua_eval V m k st r =
     (let conn = rq_conn r in
      bind_res (send_header V (client_fd conn) 200 ''OK'' (script_mimetype st)) (\<lambda>fd1.
      bind_res (get_lua_state V st) (\<lambda>(L, st1).
      let L1 = push_call V L conn fd1 m in
      bind_res (lua_eval (sv_api V) L1) (\<lambda>(L2, ret).
      bind_res (write_file fd1 (sv_written V L1)) (\<lambda>fd2.
      bind_res (close_file fd2) (\<lambda>fd3.
      bind_res (return_lua_state st1 L2) (\<lambda>st2.
        Inr (r\<lparr>rq_conn := conn\<lparr>client_fd := fd3\<rparr>, rq_conf := set_script (rq_conf r) k st2\<rparr>))))))))"

definition default_file :: string where "default_file = ''index.html''"
definition default_file_location :: string where "default_file_location = ''./html/''"

definition not_found :: string where
  "not_found = ''<html><head><title>Error</title></head><body>'' @ ''<pre>File not found</pre>'' @ ''</body></html>''"

text \<open>The buffer on the stack has the size of the path and of both constants with terminators, and one.\<close>

definition http_send_file :: "'L server \<Rightarrow> 'L request \<Rightarrow> 'L request res" where
  "http_send_file V r =
     (let conn = rq_conn r;
          n = conn_path_size conn + (length default_file_location + 1) + (length default_file + 1) + 1
      in
      bind_res (get_full_path (sv_junk V n) default_file_location (length default_file_location)
                  default_file (length default_file)
                  (case conn_path conn of None \<Rightarrow> [] | Some b \<Rightarrow> b) (conn_path_size conn)) (\<lambda>buffer.
      let file = c_string buffer in
      bind_res
        (case sv_file V file of
           Some content \<Rightarrow>
             bind_res (get_mimetype file (rq_conf r)) (\<lambda>mt.
             bind_res (send_header V (client_fd conn) 200 ''OK'' mt) (\<lambda>fd1.
               if sv_readable V file then write_file fd1 (received (send_file (sv_accept V) content))
               else Inl Null_Deref))
         | None \<Rightarrow>
             bind_res (send_header V (client_fd conn) 404 ''NOT FOUND'' ''text/html'') (\<lambda>fd1.
               write_file fd1 (ascii not_found)))
        (\<lambda>fd. Inr (r\<lparr>rq_conn := conn\<lparr>client_fd := fd\<rparr>\<rparr>))))"

section \<open>The callbacks\<close>

definition start_processing :: "'L server \<Rightarrow> http_method \<Rightarrow> 'L request \<Rightarrow> 'L request res" where
  "start_processing V m r =
     (let conn = rq_conn r in
      bind_res (get_script (rq_conf r) (map_option c_string (conn_path conn))) (\<lambda>script.
        (case script of
           Some k \<Rightarrow>
             bind_res (arr_read (the (lua_states (rq_conf r))) k) (\<lambda>st.
               http_lua_eval V m k st (r\<lparr>rq_conn := conn\<lparr>conn_type := CHR ''L'', conn_lua := Some k\<rparr>\<rparr>))
         | None \<Rightarrow> http_send_file V (r\<lparr>rq_conn := conn\<lparr>conn_type := CHR ''S''\<rparr>\<rparr>))))"

definition end_message :: "'L request \<Rightarrow> 'L request res" where
  "end_message r =
     (let conn = rq_conn r in
      if conn_type conn = CHR ''S'' then
        bind_res (close_file (client_fd conn)) (\<lambda>fd. Inr (r\<lparr>rq_conn := conn\<lparr>client_fd := fd\<rparr>\<rparr>))
      else Inr r)"

text \<open>
  The table of callbacks. All return 0. The data of the parser is the request or the fault in which
  one of them ended; after a fault nothing more happens.
\<close>

type_synonym 'L parser = "('L request res) http_parser"

definition guard_fault :: "('L request \<Rightarrow> 'L request res) \<Rightarrow> 'L request res \<Rightarrow> 'L request res \<times> int" where
  "guard_fault f d = (bind_res d f, 0)"

definition on_body_cb :: "'L request \<Rightarrow> string \<Rightarrow> 'L request" where
  "on_body_cb r data = r"

definition request_processor_settings_init :: "'L server \<Rightarrow> ('L request res) http_parser_settings" where
  "request_processor_settings_init V =
     \<lparr>on_message_begin = None,
      on_path = Some (\<lambda>p data. guard_fault (\<lambda>r. Inr (save_path r data)) (p_data p)),
      on_query_string = Some (\<lambda>p data. guard_fault (\<lambda>r. Inr (save_query r data)) (p_data p)),
      on_url = None, on_fragment = None, on_header_field = None, on_header_value = None,
      on_headers_complete = Some (\<lambda>p. guard_fault (start_processing V (p_method p)) (p_data p)),
      on_body = Some (\<lambda>p data. guard_fault (\<lambda>r. Inr (on_body_cb r data)) (p_data p)),
      on_message_complete = Some (\<lambda>p. guard_fault end_message (p_data p))\<rparr>"

section \<open>Creating and resetting a parser\<close>

text \<open>\<open>junk\<close> is what \<open>malloc\<close> returned; the configuration is set at the first reset.\<close>

definition request_processor_init :: "'L parser \<Rightarrow> http_conn_info \<Rightarrow> 'L httpd_conf \<Rightarrow> 'L parser" where
  "request_processor_init junk conn_junk conf =
     (http_parser_init junk HTTP_REQUEST)
       \<lparr>p_data := Inr \<lparr>rq_conn = conn_junk\<lparr>conn_path := None, conn_query := None\<rparr>, rq_conf = conf\<rparr>\<rparr>"

text \<open>\<open>fd\<close> is the stream \<open>fdopen\<close> gives for the descriptor.\<close>

definition reset_conn :: "http_conn_info \<Rightarrow> int \<Rightarrow> client_file \<Rightarrow> http_conn_info" where
  "reset_conn conn sd fd =
     conn\<lparr>conn_path := None, conn_path_size := 0, conn_query := None, conn_query_size := 0, conn_host := None,
          conn_host_size := None, conn_lua := None, client_sd := sd, client_fd := fd\<rparr>"

definition request_processor_reset :: "'L parser \<Rightarrow> int \<Rightarrow> client_file \<Rightarrow> 'L httpd_conf \<Rightarrow> 'L parser" where
  "request_processor_reset p sd fd conf =
     (http_parser_init p (type p))
       \<lparr>p_data := bind_res (p_data p) (\<lambda>r. Inr \<lparr>rq_conn = reset_conn (rq_conn r) sd fd, rq_conf = conf\<rparr>)\<rparr>"

end
