(* ===== verification/Http_Bytes.thy ===== *)
theory Http_Bytes
  imports Http_Execute
begin

text \<open>
  The parser as a machine that reads one byte at a time. How the bytes of a connection are cut into
  buffers must not matter, but \<open>http_parser_execute\<close> works on buffers: it marks where a part of the
  request starts and hands the part out in pieces, one for each buffer. The reference is the parser
  run on buffers of a single byte; this theory shows that a longer buffer has the same effect.
\<close>

section \<open>The parser a buffer would leave behind\<close>

text \<open>What is marked is handed out at the end of a buffer; only the path and the query are used.\<close>

definition slice :: "nat option \<Rightarrow> 'u exec \<Rightarrow> string" where
  "slice mark x = (case mark of None \<Rightarrow> [] | Some m \<Rightarrow> take (x_p x - m) (drop m (x_data x)))"

definition flush_data :: "('u \<Rightarrow> string \<Rightarrow> 'u) \<Rightarrow> ('u \<Rightarrow> string \<Rightarrow> 'u) \<Rightarrow> 'u exec \<Rightarrow> 'u" where
  "flush_data ap aq x =
     (if path_mark x \<noteq> None then ap (p_data (x_parser x)) (slice (path_mark x) x)
      else if query_mark x \<noteq> None then aq (p_data (x_parser x)) (slice (query_mark x) x)
      else p_data (x_parser x))"

definition stored :: "('u \<Rightarrow> string \<Rightarrow> 'u) \<Rightarrow> ('u \<Rightarrow> string \<Rightarrow> 'u) \<Rightarrow> 'u exec \<Rightarrow> 'u http_parser" where
  "stored ap aq x =
     (x_parser x)\<lparr>p_data := flush_data ap aq x, p_state := Running (x_state x), p_header_state := x_hstate x,
                   p_index := x_index x mod 2 ^ 8, p_nread := x_nread x mod 2 ^ 32\<rparr>"

definition adv :: "'u exec \<Rightarrow> 'u exec" where
  "adv x = x\<lparr>x_p := x_p x + 1\<rparr>"

definition clean_marks :: "'u exec \<Rightarrow> bool" where
  "clean_marks x \<longleftrightarrow> NUL \<notin> set (slice (path_mark x) x) \<and> NUL \<notin> set (slice (query_mark x) x)"

text \<open>The same run, seen from a buffer that starts at the current position.\<close>

definition pcore :: "'u http_parser \<Rightarrow> http_parser_type \<times> http_flag set \<times> int \<times> nat \<times> nat \<times> nat \<times> http_method \<times> bool" where
  "pcore p = (type p, flags p, content_length p, http_major p, http_minor p, status_code p, p_method p, upgrade p)"

definition same_core :: "'u exec \<Rightarrow> 'u exec \<Rightarrow> bool" where
  "same_core x y \<longleftrightarrow>
     x_state y = x_state x \<and> x_hstate y = x_hstate x \<and> x_index y = x_index x \<and> x_nread y = x_nread x \<and>
     pcore (x_parser y) = pcore (x_parser x)"

lemma slice_adv:
  "mark = Some m \<Longrightarrow> m \<le> x_p x \<Longrightarrow> x_p x < length (x_data x) \<Longrightarrow>
   slice mark (adv x) = slice mark x @ [x_data x ! x_p x]"
  by (simp add: slice_def adv_def Suc_diff_le take_Suc_conv_app_nth)

section \<open>Callbacks that collect\<close>

text \<open>
  The interface between the parser and its user: the callbacks that collect data append it, so that
  two pieces are as good as one, and the callbacks at the end of the header and of the message use
  only the data and the method.
\<close>

locale piecewise =
  fixes S :: "'u http_parser_settings"
    and ap :: "'u \<Rightarrow> string \<Rightarrow> 'u"
    and aq :: "'u \<Rightarrow> string \<Rightarrow> 'u"
    and head_done :: "http_method \<Rightarrow> 'u \<Rightarrow> 'u"
    and msg_done :: "'u \<Rightarrow> 'u"
    and good :: "'u \<Rightarrow> bool"
  assumes path_cb: "on_path S = Some (\<lambda>p d. (ap (p_data p) d, 0))"
    and query_cb: "on_query_string S = Some (\<lambda>p d. (aq (p_data p) d, 0))"
    and headers_cb: "on_headers_complete S = Some (\<lambda>p. (head_done (p_method p) (p_data p), 0))"
    and message_cb: "on_message_complete S = Some (\<lambda>p. (msg_done (p_data p), 0))"
    and body_cb: "on_body S = Some (\<lambda>p d. (p_data p, 0))"
    and no_cb: "on_message_begin S = None" "on_url S = None" "on_fragment S = None"
      "on_header_field S = None" "on_header_value S = None"
    and path_append: "good u \<Longrightarrow> NUL \<notin> set d \<Longrightarrow> NUL \<notin> set e \<Longrightarrow> ap (ap u d) e = ap u (d @ e)"
    and query_append: "good u \<Longrightarrow> NUL \<notin> set d \<Longrightarrow> NUL \<notin> set e \<Longrightarrow> aq (aq u d) e = aq u (d @ e)"
    and good_path: "good u \<Longrightarrow> NUL \<notin> set d \<Longrightarrow> good (ap u d)"
    and good_query: "good u \<Longrightarrow> NUL \<notin> set d \<Longrightarrow> good (aq u d)"
    and good_head: "good u \<Longrightarrow> good (head_done m u)"
    and good_msg: "good u \<Longrightarrow> good (msg_done u)"
begin

lemmas callback_defs = path_cb query_cb headers_cb message_cb body_cb no_cb

lemma callbacks_eval:
  "message_begin S x = Next x"
  "message_complete S x = Next (with_data x (msg_done (p_data (x_parser x))))"
  "headers_complete S x = Next (with_data x (head_done (p_method (x_parser x)) (p_data (x_parser x))))"
  "callback_url S x = Next (x\<lparr>url_mark := None\<rparr>)"
  "callback_fragment S x = Next (x\<lparr>fragment_mark := None\<rparr>)"
  "callback_field S x = Next (x\<lparr>field_mark := None\<rparr>)"
  "callback_value S x = Next (x\<lparr>value_mark := None\<rparr>)"
  "callback_path S x = Next ((if path_mark x = None then x
     else with_data x (ap (p_data (x_parser x)) (slice (path_mark x) x)))\<lparr>path_mark := None\<rparr>)"
  "callback_query S x = Next ((if query_mark x = None then x
     else with_data x (aq (p_data (x_parser x)) (slice (query_mark x) x)))\<lparr>query_mark := None\<rparr>)"
  by (auto simp: message_begin_def message_complete_def callback2_def headers_complete_def callback_url_def
      callback_fragment_def callback_field_def callback_value_def callback_path_def callback_query_def
      callback_noclear_def callback_defs slice_def Let_def split: option.splits)

end

section \<open>One step\<close>

context piecewise
begin

text \<open>
  \<open>y\<close> is the same run as \<open>x\<close>, in a buffer of one byte; \<open>plain\<close> when neither path nor query is open.
\<close>

definition sim :: "'u exec \<Rightarrow> 'u exec \<Rightarrow> bool" where
  "sim x y \<longleftrightarrow>
     same_core x y \<and> \<not> upgrade (x_parser x) \<and> good (p_data (x_parser x)) \<and> clean_marks x \<and>
     x_data y = [x_data x ! x_p x] \<and> x_p y = 0 \<and> p_data (x_parser y) = flush_data ap aq x \<and>
     path_mark y = map_option (\<lambda>_. 0) (path_mark x) \<and> query_mark y = map_option (\<lambda>_. 0) (query_mark x)"

definition plain :: "'u exec \<Rightarrow> 'u exec \<Rightarrow> 'u exec \<Rightarrow> bool" where
  "plain x x' y' \<longleftrightarrow>
     same_core x' y' \<and> \<not> upgrade (x_parser x') \<and> good (p_data (x_parser x')) \<and> p_data (x_parser y') = p_data (x_parser x') \<and>
     path_mark x' = None \<and> query_mark x' = None \<and> path_mark y' = None \<and> query_mark y' = None \<and>
     x_data x' = x_data x \<and> x_p x' = x_p x \<and> x_data y' = [x_data x ! x_p x] \<and> x_p y' = 0 \<and> x_p x < length (x_data x)"

definition after :: "'u exec \<Rightarrow> 'u exec \<Rightarrow> 'u exec \<Rightarrow> bool" where
  "after x x' y' \<longleftrightarrow>
     same_core x' y' \<and> \<not> upgrade (x_parser x') \<and> good (p_data (x_parser x')) \<and> clean_marks (adv x') \<and>
     flush_data ap aq (adv x') = flush_data ap aq (adv y') \<and> x_p x' = x_p x \<and> x_p y' = 0 \<and> x_data y' = [x_data x ! x_p x]"

fun agree :: "'u exec \<Rightarrow> 'u outcome \<Rightarrow> 'u outcome \<Rightarrow> bool" where
  "agree x (Next x') (Next y') \<longleftrightarrow> after x x' y'"
| "agree x (Next x') r \<longleftrightarrow> False"
| "agree x r (Next y') \<longleftrightarrow> False"
| "agree x _ _ \<longleftrightarrow> True"

definition follows :: "state \<Rightarrow> (char \<Rightarrow> 'u exec \<Rightarrow> 'u outcome) \<Rightarrow> bool" where
  "follows st f \<longleftrightarrow>
     (\<forall>x y ch. pre_ok st x \<longrightarrow> sim x y \<longrightarrow> x_data x ! x_p x = ch \<longrightarrow> agree x (f ch x) (f ch y))"

lemma plain_after: "plain x x' y' \<Longrightarrow> after x x' y'"
  by (simp add: plain_def after_def clean_marks_def flush_data_def adv_def slice_def)

lemma sim_plain:
  "pre_ok st x \<Longrightarrow> sim x y \<Longrightarrow> st \<noteq> s_req_path \<Longrightarrow> st \<noteq> s_req_query_string \<Longrightarrow> plain x x y"
  by (simp add: pre_ok_def exec_ok_def marks_ok_def mark_ok_def sim_def plain_def flush_data_def)

lemma follows_plainI:
  assumes "\<And>x y ch. pre_ok st x \<Longrightarrow> plain x x y \<Longrightarrow> x_data x ! x_p x = ch \<Longrightarrow> agree x (f ch x) (f ch y)"
    and "st \<noteq> s_req_path" and "st \<noteq> s_req_query_string"
  shows "follows st f"
  using assms sim_plain by (simp add: follows_def)

lemmas plain_defs = plain_def same_core_def pcore_def upd_parser_def

text \<open>Both runs take the same branch.\<close>

lemma agree_if: "(c \<Longrightarrow> agree x a b) \<Longrightarrow> (\<not> c \<Longrightarrow> agree x a' b') \<Longrightarrow> agree x (if c then a else a') (if c then b else b')"
  by simp

lemma agree_Next: "plain x x' y' \<Longrightarrow> agree x (Next x') (Next y')"
  by (simp add: plain_after)

lemma agree_goto: "plain x x' y' \<Longrightarrow> agree x (goto_state x' st) (goto_state y' st)"
  unfolding goto_state_def by (rule agree_Next) (simp add: plain_defs)

lemma agree_fail: "agree x (fail x' e) (fail y' e)"
  by (simp add: fail_def)

lemma one_byte: "p < length d \<Longrightarrow> take (Suc 0) (drop p d) = [d ! p]"
  by (metis Cons_nth_drop_Suc take_Suc_Cons take_0)

lemma agree_mark_path:
  "plain x x' y' \<Longrightarrow> x_data x ! x_p x \<noteq> NUL \<Longrightarrow>
   agree x (goto_state (x'\<lparr>path_mark := Some (x_p x')\<rparr>) st) (goto_state (y'\<lparr>path_mark := Some (x_p y')\<rparr>) st)"
  by (simp add: goto_state_def plain_defs after_def clean_marks_def flush_data_def adv_def slice_def one_byte)

lemma agree_mark_query:
  "plain x x' y' \<Longrightarrow> x_data x ! x_p x \<noteq> NUL \<Longrightarrow>
   agree x (goto_state (x'\<lparr>query_mark := Some (x_p x')\<rparr>) st) (goto_state (y'\<lparr>query_mark := Some (x_p y')\<rparr>) st)"
  by (simp add: goto_state_def plain_defs after_def clean_marks_def flush_data_def adv_def slice_def one_byte)

lemmas agree_simps = goto_state_def fail_def plain_after plain_defs callbacks_eval

lemma follows_version:
  "follows s_res_first_http_major (first_http_major s_res_http_major)"
  "follows s_res_http_major (next_http_major s_res_first_http_minor)"
  "follows s_res_first_http_minor (first_http_minor s_res_http_minor)"
  "follows s_res_http_minor at_res_http_minor"
  "follows s_req_first_http_major (first_http_major s_req_http_major)"
  "follows s_req_http_major (next_http_major s_req_first_http_minor)"
  "follows s_req_first_http_minor (first_http_minor s_req_http_minor)"
  "follows s_req_http_minor at_req_http_minor"
  unfolding first_http_major_def next_http_major_def first_http_minor_def next_http_minor_def
    at_res_http_minor_def at_req_http_minor_def Let_def
  by (rule follows_plainI; simp add: agree_simps)+


lemma follows_start:
  "follows s_start_req (at_start_req S)"
  "follows s_start_res (at_start_res S)"
  "follows s_start_req_or_res (at_start_req_or_res S)"
  "follows s_res_or_resp_H at_res_or_resp_H"
  unfolding at_start_req_def at_start_res_def at_start_req_or_res_def at_res_or_resp_H_def new_message_def
    start_req_method_assign_def
  by (rule follows_plainI; simp add: agree_simps split: option.splits)+

lemma follows_line:
  "follows s_res_first_status_code at_res_first_status_code"
  "follows s_res_status_code at_res_status_code"
  "follows s_res_status at_res_status"
  "follows s_req_http_start at_req_http_start"
  "follows s_req_line_almost_done at_req_line_almost_done"
  unfolding at_res_first_status_code_def at_res_status_code_def at_res_status_def at_req_http_start_def
    at_req_line_almost_done_def Let_def
  by (rule follows_plainI; simp add: agree_simps)+

lemma url_nul: "IS_URL_CHAR c \<Longrightarrow> c \<noteq> NUL" "IS_ALPHA c \<Longrightarrow> c \<noteq> NUL"
  by (auto simp: IS_URL_CHAR_def normal_url_char_def code_def IS_ALPHA_def LOWER_def)

lemma plain_marks:
  "plain x x' y' \<Longrightarrow> plain x (mark_url x') (mark_url y')"
  "plain x x' y' \<Longrightarrow> plain x (mark_fragment x') (mark_fragment y')"
  by (simp_all add: plain_defs mark_url_def mark_fragment_def)

lemma follows_url:
  "follows s_req_schema at_req_schema"
  "follows s_req_fragment_start (at_req_fragment_start S)"
  "follows s_req_fragment (at_req_fragment S)"
  unfolding at_req_schema_def at_req_fragment_start_def at_req_fragment_def http_0_9_def mark_fragment_def
  by (rule follows_plainI; simp add: agree_simps)+

lemma follows_before_url: "follows s_req_spaces_before_url at_req_spaces_before_url"
proof (rule follows_plainI)
  fix x y :: "'u exec" and ch
  assume "pre_ok s_req_spaces_before_url x" "plain x x y" "x_data x ! x_p x = ch"
  then show "agree x (at_req_spaces_before_url ch x) (at_req_spaces_before_url ch y)"
    using agree_mark_path [OF plain_marks(1), of x x y s_req_path] agree_goto [OF plain_marks(1), of x x y]
    unfolding at_req_spaces_before_url_def
    by (simp add: mark_path_def) (simp add: agree_simps)
qed simp_all

lemma follows_host:
  "follows s_req_host (at_req_host S)"
  "follows s_req_port (at_req_port S)"
  unfolding at_req_host_def at_req_port_def
  by (rule follows_plainI; simp; use agree_mark_path in \<open>simp add: mark_path_def\<close>; simp add: agree_simps; fail)+

lemma follows_query_start: "follows s_req_query_string_start (at_req_query_string_start S)"
  unfolding at_req_query_string_start_def http_0_9_def
  by (rule follows_plainI; simp; use agree_mark_query url_nul(1) in \<open>simp add: mark_query_def\<close>; simp add: agree_simps; fail)

text \<open>A byte of the path or the query extends what is marked; the byte after it hands that out.\<close>

lemma path_open:
  assumes "pre_ok s_req_path x" and "sim x y"
  shows "x_data x ! x_p x \<noteq> NUL \<Longrightarrow> agree x (Next x) (Next y)"
    and "\<exists>x' y'. callback_path S (x\<lparr>url_mark := None\<rparr>) = Next x' \<and> callback_path S (y\<lparr>url_mark := None\<rparr>) = Next y' \<and> plain x x' y'"
    and "\<exists>x' y'. callback_path S x = Next x' \<and> callback_path S y = Next y' \<and> plain x x' y'"
proof -
  let ?s = "slice (path_mark x) x" and ?u = "p_data (x_parser x)"
  from assms(1) obtain m where m: "path_mark x = Some m" "m \<le> x_p x" "query_mark x = None" "x_p x < length (x_data x)"
    by (auto simp: pre_ok_def inv_defs)
  with assms(2) have y: "path_mark y = Some 0" "query_mark y = None" "x_data y = [x_data x ! x_p x]" "x_p y = 0"
      "p_data (x_parser y) = ap ?u ?s" "same_core x y"
    by (simp_all add: sim_def flush_data_def)
  have clean: "NUL \<notin> set ?s" "good ?u" "\<not> upgrade (x_parser x)" using assms(2) by (simp_all add: sim_def clean_marks_def)
  have grown: "slice (path_mark x) (adv x) = ?s @ [x_data x ! x_p x]" "slice (path_mark y) (adv y) = [x_data x ! x_p x]"
    using m y by (simp add: slice_adv) (simp add: slice_def adv_def y)
  show "agree x (Next x) (Next y)" if "x_data x ! x_p x \<noteq> NUL"
    using that m y clean grown path_append [of ?u ?s "[x_data x ! x_p x]"]
    by (simp add: after_def flush_data_def clean_marks_def) (simp add: adv_def slice_def)
  have "slice (path_mark y) y = []" using y by (simp add: slice_def)
  then have "ap (ap ?u ?s) (slice (path_mark y) y) = ap ?u ?s" "good (ap ?u ?s)"
    using path_append [of ?u ?s "[]"] good_path clean by simp_all
  moreover from this have "ap (ap ?u ?s) (slice (Some 0) (y\<lparr>url_mark := None\<rparr>)) = ap ?u ?s" using y by (simp add: slice_def)
  moreover have "slice (Some m) (x\<lparr>url_mark := None\<rparr>) = ?s" using m by (simp add: slice_def)
  ultimately show
    "\<exists>x' y'. callback_path S (x\<lparr>url_mark := None\<rparr>) = Next x' \<and> callback_path S (y\<lparr>url_mark := None\<rparr>) = Next y' \<and> plain x x' y'"
    "\<exists>x' y'. callback_path S x = Next x' \<and> callback_path S y = Next y' \<and> plain x x' y'"
    using m y clean by (simp_all add: callbacks_eval plain_defs)
qed

lemma follows_path: "follows s_req_path (at_req_path S)"
  unfolding follows_def
proof (intro allI impI)
  fix x y :: "'u exec" and ch
  assume a: "pre_ok s_req_path x" "sim x y" "x_data x ! x_p x = ch"
  obtain x1 y1 where u: "callback_path S (x\<lparr>url_mark := None\<rparr>) = Next x1" "callback_path S (y\<lparr>url_mark := None\<rparr>) = Next y1"
    "plain x x1 y1" using path_open(2) [OF a(1,2)] by blast
  obtain x2 y2 where v: "callback_path S x = Next x2" "callback_path S y = Next y2" "plain x x2 y2"
    using path_open(3) [OF a(1,2)] by blast
  have keep: "agree x (Next x) (Next y)" if "IS_URL_CHAR ch" using path_open(1) [OF a(1,2)] a(3) that url_nul(1) by simp
  have old: "agree x (http_0_9 st x1) (http_0_9 st y1)" for st
    using u(3) by (simp add: http_0_9_def agree_simps)
  show "agree x (at_req_path S ch x) (at_req_path S ch y)"
    unfolding at_req_path_def callbacks_eval(4) and_then.simps u(1,2) v(1,2)
    by (intro agree_if keep agree_goto old u(3) v(3) agree_fail)
qed

lemma query_open:
  assumes "pre_ok s_req_query_string x" and "sim x y"
  shows "x_data x ! x_p x \<noteq> NUL \<Longrightarrow> agree x (Next x) (Next y)"
    and "\<exists>x' y'. callback_query S (x\<lparr>url_mark := None\<rparr>) = Next x' \<and> callback_query S (y\<lparr>url_mark := None\<rparr>) = Next y' \<and> plain x x' y'"
    and "\<exists>x' y'. callback_query S x = Next x' \<and> callback_query S y = Next y' \<and> plain x x' y'"
proof -
  let ?s = "slice (query_mark x) x" and ?u = "p_data (x_parser x)"
  from assms(1) obtain m where m: "query_mark x = Some m" "m \<le> x_p x" "path_mark x = None" "x_p x < length (x_data x)"
    by (auto simp: pre_ok_def inv_defs)
  with assms(2) have y: "query_mark y = Some 0" "path_mark y = None" "x_data y = [x_data x ! x_p x]" "x_p y = 0"
      "p_data (x_parser y) = aq ?u ?s" "same_core x y"
    by (simp_all add: sim_def flush_data_def)
  have clean: "NUL \<notin> set ?s" "good ?u" "\<not> upgrade (x_parser x)" using assms(2) by (simp_all add: sim_def clean_marks_def)
  have grown: "slice (query_mark x) (adv x) = ?s @ [x_data x ! x_p x]" "slice (query_mark y) (adv y) = [x_data x ! x_p x]"
    using m y by (simp add: slice_adv) (simp add: slice_def adv_def y)
  show "agree x (Next x) (Next y)" if "x_data x ! x_p x \<noteq> NUL"
    using that m y clean grown query_append [of ?u ?s "[x_data x ! x_p x]"]
    by (simp add: after_def flush_data_def clean_marks_def) (simp add: adv_def slice_def)
  have "slice (query_mark y) y = []" using y by (simp add: slice_def)
  then have "aq (aq ?u ?s) (slice (query_mark y) y) = aq ?u ?s" "good (aq ?u ?s)"
    using query_append [of ?u ?s "[]"] good_query clean by simp_all
  moreover from this have "aq (aq ?u ?s) (slice (Some 0) (y\<lparr>url_mark := None\<rparr>)) = aq ?u ?s" using y by (simp add: slice_def)
  moreover have "slice (Some m) (x\<lparr>url_mark := None\<rparr>) = ?s" using m by (simp add: slice_def)
  ultimately show
    "\<exists>x' y'. callback_query S (x\<lparr>url_mark := None\<rparr>) = Next x' \<and> callback_query S (y\<lparr>url_mark := None\<rparr>) = Next y' \<and> plain x x' y'"
    "\<exists>x' y'. callback_query S x = Next x' \<and> callback_query S y = Next y' \<and> plain x x' y'"
    using m y clean by (simp_all add: callbacks_eval plain_defs)
qed

lemma follows_query: "follows s_req_query_string (at_req_query_string S)"
  unfolding follows_def
proof (intro allI impI)
  fix x y :: "'u exec" and ch
  assume a: "pre_ok s_req_query_string x" "sim x y" "x_data x ! x_p x = ch"
  obtain x1 y1 where u: "callback_query S (x\<lparr>url_mark := None\<rparr>) = Next x1" "callback_query S (y\<lparr>url_mark := None\<rparr>) = Next y1"
    "plain x x1 y1" using query_open(2) [OF a(1,2)] by blast
  obtain x2 y2 where v: "callback_query S x = Next x2" "callback_query S y = Next y2" "plain x x2 y2"
    using query_open(3) [OF a(1,2)] by blast
  have keep: "agree x (Next x) (Next y)" if "ch \<noteq> NUL" using query_open(1) [OF a(1,2)] a(3) that by simp
  have old: "agree x (http_0_9 st x1) (http_0_9 st y1)" for st
    using u(3) by (simp add: http_0_9_def agree_simps)
  show "agree x (at_req_query_string S ch x) (at_req_query_string S ch y)"
    unfolding at_req_query_string_def callbacks_eval(4) and_then.simps u(1,2) v(1,2)
    by (intro agree_if keep agree_goto old u(3) v(3) agree_fail; auto simp: url_nul)
qed

lemma follows_method: "follows s_req_method at_req_method"
  unfolding at_req_method_def Let_def
  by (rule follows_plainI; simp add: agree_simps split: sum.splits bool.splits)

lemma headers_done_agree:
  assumes "plain x x' y'" shows "agree x (headers_almost_done S x') (headers_almost_done S y')"
  using assms good_head good_msg
  unfolding headers_almost_done_def complete_and_restart_def body_or_end_def start_state_def http_should_keep_alive_def Let_def
  by (simp add: agree_simps)

lemma field_start_agree:
  assumes "plain x x' y'" shows "agree x (header_field_start S ch x') (header_field_start S ch y')"
proof -
  have "plain x (x'\<lparr>x_state := st\<rparr>) (y'\<lparr>x_state := st\<rparr>)" for st using assms by (simp add: plain_defs)
  from headers_done_agree [OF this] show ?thesis
    unfolding header_field_start_def Let_def mark_field_def using assms
    by (intro agree_if) (simp_all add: agree_simps)
qed

lemma follows_headers:
  "follows s_headers_almost_done (\<lambda>ch. headers_almost_done S)"
  "follows s_header_field_start (header_field_start S)"
  by (rule follows_plainI; simp add: headers_done_agree field_start_agree)+

lemma follows_lws: "follows s_header_value_lws (at_header_value_lws S)"
  unfolding at_header_value_lws_def
  by (rule follows_plainI; (intro agree_if agree_goto field_start_agree)?; simp add: plain_defs)

lemma match_next_plain: "plain x x' y' \<Longrightarrow> plain x (match_next s h c x') (match_next s h c y')"
  by (simp add: match_next_def Let_def plain_defs)

lemma field_char_agree:
  assumes "plain x x' y'" shows "agree x (field_char ch c x') (field_char ch c y')"
  using assms match_next_plain [OF assms] unfolding field_char_def Let_def
  by (cases "x_hstate x'"; simp add: plain_after; simp add: plain_defs plain_after)

lemma follows_field: "follows s_header_field (at_header_field S)"
proof (rule follows_plainI)
  fix x y :: "'u exec" and ch
  assume "plain x x y"
  with field_char_agree [of x x y ch "TOKEN ch"] show "agree x (at_header_field S ch x) (at_header_field S ch y)"
    unfolding at_header_field_def Let_def by (simp add: agree_simps)
qed simp_all

lemma almost_done_agree:
  assumes "plain x x' y'" shows "agree x (header_almost_done x') (header_almost_done y')"
  using assms unfolding header_almost_done_def Let_def
  by (cases "x_hstate x'"; simp add: agree_simps)

lemma value_char_agree:
  assumes "plain x x' y'" shows "agree x (value_char ch x') (value_char ch y')"
  using assms match_next_plain [OF assms] unfolding value_char_def Let_def
  by (cases "x_hstate x'"; simp add: plain_after; simp add: agree_simps)

lemma first_value_char_agree:
  assumes "plain x x' y'" shows "agree x (first_value_char ch x') (first_value_char ch y')"
  using assms unfolding first_value_char_def Let_def
  by (cases "x_hstate x'"; simp add: agree_simps)

lemma follows_value: "follows s_header_value (at_header_value S)"
proof (rule follows_plainI)
  fix x y :: "'u exec" and ch
  assume p: "plain x x y"
  then have "plain x (x\<lparr>value_mark := None\<rparr>) (y\<lparr>value_mark := None\<rparr>)" by (simp add: plain_defs)
  from almost_done_agree [OF this] value_char_agree [OF p] p
  show "agree x (at_header_value S ch x) (at_header_value S ch y)"
    unfolding at_header_value_def callbacks_eval and_then.simps
    by (intro agree_if agree_goto) (simp_all add: plain_defs)
qed simp_all

lemma follows_value_start: "follows s_header_value_start (at_header_value_start S)"
proof (rule follows_plainI)
  fix x y :: "'u exec" and ch
  assume p: "plain x x y"
  then have "plain x ((mark_value x)\<lparr>x_state := s_header_value, x_index := 0\<rparr>) ((mark_value y)\<lparr>x_state := s_header_value, x_index := 0\<rparr>)"
    by (simp add: plain_defs mark_value_def)
  from first_value_char_agree [OF this] p
  show "agree x (at_header_value_start S ch x) (at_header_value_start S ch y)"
    unfolding at_header_value_start_def Let_def callbacks_eval and_then.simps
    by (intro agree_if agree_goto agree_Next) (simp_all add: plain_defs mark_value_def)
qed simp_all

lemma follows_almost_done: "follows s_header_almost_done (\<lambda>ch. header_almost_done)"
  by (rule follows_plainI) (simp_all add: almost_done_agree)

lemma follows_chunk:
  "follows s_chunk_size_start at_chunk_size_start"
  "follows s_chunk_size at_chunk_size"
  "follows s_chunk_parameters at_chunk_parameters"
  "follows s_chunk_size_almost_done (\<lambda>ch. at_chunk_size_almost_done)"
  "follows s_chunk_data_almost_done (\<lambda>ch x. assert_chunked x (goto_state x s_chunk_data_done))"
  "follows s_chunk_data_done (\<lambda>ch x. assert_chunked x (goto_state x s_chunk_size_start))"
  unfolding at_chunk_size_start_def at_chunk_size_def at_chunk_parameters_def at_chunk_size_almost_done_def
    assert_chunked_def Let_def
  by (rule follows_plainI; simp add: agree_simps)+

lemma follows_goto: "st \<noteq> s_req_path \<Longrightarrow> st \<noteq> s_req_query_string \<Longrightarrow> follows st (\<lambda>ch x. goto_state x st')"
  by (rule follows_plainI) (simp_all add: agree_goto)

lemma follows_dead: "follows s_dead (\<lambda>ch x. fail x e)"
  by (rule follows_plainI) (simp_all add: agree_fail)

definition in_body :: "state \<Rightarrow> bool" where
  "in_body st \<longleftrightarrow> st \<in> {s_body_identity, s_body_identity_eof, s_chunk_data}"

lemmas follows_all = follows_start follows_version follows_line follows_url follows_before_url follows_host
  follows_query_start follows_path follows_query follows_method follows_headers follows_lws follows_field follows_value
  follows_value_start follows_almost_done follows_chunk follows_goto follows_dead

lemma follows_cong: "(\<And>ch x. f ch x = g ch x) \<Longrightarrow> follows st g \<Longrightarrow> follows st f"
  by (simp add: follows_def)

lemma follows_step: "\<not> in_body st \<Longrightarrow> follows st (step st S)"
  by (cases st; hypsubst; (rule follows_cong, rule step.simps, rule follows_all; simp; fail)?) (simp_all add: in_body_def)

end

end
