(* ===== verification/Http_Buffers.thy ===== *)
theory Http_Buffers imports Http_Bytes
begin

text \<open>
  A buffer of any length has the effect of its bytes one at a time, as long as parsing goes on. The
  bytes of a body, which the loop consumes many at a time, are first split off one by one; then the
  loop over the buffer and the runs on the single bytes are compared position by position.
\<close>

context piecewise
begin

subsection \<open>The body\<close>

text \<open>
  The bytes of a body are consumed many at a time. \<open>body_byte\<close> consumes one, and the loop ends in
  the same way.
\<close>

definition body_byte :: "'u exec \<Rightarrow> 'u outcome" where
  "body_byte x =
     (let n = content_length (x_parser x); dec = (\<lambda>k. upd_parser x (\<lambda>p. p\<lparr>content_length := n - k\<rparr>)) in
      if x_state x = s_body_identity then
        (if n > 0 then (if n = 1 then complete_and_restart S (dec 1) else Next (dec 1)) else Next x)
      else if x_state x = s_body_identity_eof then Next x
      else assert_chunked x
        (if n \<le> 1 then Next ((dec n)\<lparr>x_state := s_chunk_data_almost_done\<rparr>) else Next (dec 1)))"

definition byte_step :: "char \<Rightarrow> 'u exec \<Rightarrow> 'u outcome" where
  "byte_step ch x = (if in_body (x_state x) then body_byte x else exec_byte S ch x)"

lemma skip_body_eq: "skip_body S n x = x\<lparr>x_p := x_p x + nat n - 1\<rparr>"
  by (simp add: skip_body_def body_cb upd_parser_def)

lemma exec_byte_body:
  "x_state x = s_body_identity \<Longrightarrow> exec_byte S ch x = at_body_identity S x"
  "x_state x = s_body_identity_eof \<Longrightarrow> exec_byte S ch x = at_body_identity_eof S x"
  "x_state x = s_chunk_data \<Longrightarrow> exec_byte S ch x = at_chunk_data S x"
  by (simp_all add: exec_byte_def PARSING_HEADER_def)

lemma in_body_cases:
  assumes "in_body (x_state x)"
  obtains "x_state x = s_body_identity" | "x_state x = s_body_identity_eof" | "x_state x = s_chunk_data"
  using assms by (auto simp: in_body_def)

text \<open>With one byte left, or one byte missing, the two agree; otherwise the rest of the part follows.\<close>

lemma body_last:
  assumes "in_body (x_state x)" "x_p x < length (x_data x)" "remaining x = 1 \<or> x_state x \<noteq> s_body_identity_eof \<and> content_length (x_parser x) \<le> 1"
  shows "exec_byte S ch x = body_byte x"
  using assms(1)
proof (cases rule: in_body_cases)
  case 1
  then show ?thesis using assms
    by (auto simp: exec_byte_body at_body_identity_def body_byte_def skip_body_eq Let_def upd_parser_def remaining_def)
next
  case 2
  then show ?thesis using assms by (simp add: exec_byte_body at_body_identity_eof_def body_byte_def skip_body_eq)
next
  case 3
  then show ?thesis using assms
    by (auto simp: exec_byte_body at_chunk_data_def body_byte_def skip_body_eq Let_def upd_parser_def remaining_def
        assert_chunked_def)
qed

lemma shift_pred: "1 < n \<Longrightarrow> k + nat (n - 1) = k + nat n - Suc 0"
  by arith

lemma body_more:
  assumes "in_body (x_state x)" "remaining x > 1" "x_state x \<noteq> s_body_identity_eof \<Longrightarrow> content_length (x_parser x) > 1"
  shows "(\<exists>e. exec_byte S ch x = Fault e \<and> body_byte x = Fault e) \<or>
    (\<exists>x1. body_byte x = Next x1 \<and> x_p x1 = x_p x \<and> x_data x1 = x_data x \<and> exec_byte S ch' (adv x1) = exec_byte S ch x)"
  using assms(1)
proof (cases rule: in_body_cases)
  case 1
  then show ?thesis using assms
    by (auto simp: exec_byte_body at_body_identity_def body_byte_def skip_body_eq Let_def upd_parser_def remaining_def adv_def shift_pred)
next
  case 2
  then show ?thesis using assms
    by (auto simp: exec_byte_body at_body_identity_eof_def body_byte_def skip_body_eq adv_def remaining_def)
next
  case 3
  then show ?thesis using assms
    by (auto simp: exec_byte_body at_chunk_data_def body_byte_def skip_body_eq Let_def upd_parser_def remaining_def
        assert_chunked_def adv_def)
qed

text \<open>The loop, with a body consumed byte by byte.\<close>

definition outcome_loop :: "'u outcome \<Rightarrow> 'u outcome option" where
  "outcome_loop r = (case r of Next x \<Rightarrow> exec_loop S (adv x) | _ \<Rightarrow> Some r)"

lemma exec_loop_unfold:
  assumes "x_p x < length (x_data x)"
  shows "exec_loop S x = outcome_loop (exec_byte S (x_data x ! x_p x) x)"
  using assms by (subst exec_loop.simps)
    (simp add: arr_read_def outcome_loop_def adv_def split: outcome.splits)

lemma exec_loop_byte:
  assumes "x_p x < length (x_data x)"
  shows "exec_loop S x = outcome_loop (byte_step (x_data x ! x_p x) x)"
proof (cases "in_body (x_state x)")
  case False
  then show ?thesis using assms by (simp add: exec_loop_unfold byte_step_def)
next
  case body: True
  show ?thesis
  proof (cases "remaining x > 1 \<and> (x_state x = s_body_identity_eof \<or> content_length (x_parser x) > 1)")
    case False
    then have "exec_byte S (x_data x ! x_p x) x = body_byte x"
      using body assms by (intro body_last) (auto simp: remaining_def)
    then show ?thesis using assms body by (simp add: exec_loop_unfold byte_step_def)
  next
    case True
    let ?ch = "x_data x ! x_p x"
    from True have "(\<exists>e. exec_byte S ?ch x = Fault e \<and> body_byte x = Fault e) \<or>
      (\<exists>x1. body_byte x = Next x1 \<and> x_p x1 = x_p x \<and> x_data x1 = x_data x \<and>
        exec_byte S (x_data x ! (x_p x + 1)) (adv x1) = exec_byte S ?ch x)"
      using body by (intro body_more) auto
    then show ?thesis
    proof (elim disjE exE conjE)
      fix x1 assume x1: "body_byte x = Next x1" "x_p x1 = x_p x" "x_data x1 = x_data x"
        "exec_byte S (x_data x ! (x_p x + 1)) (adv x1) = exec_byte S ?ch x"
      then have "x_p (adv x1) < length (x_data (adv x1))" using True by (simp add: adv_def remaining_def)
      from exec_loop_unfold [OF this] x1 body show ?thesis
        using exec_loop_unfold [OF assms] by (simp add: byte_step_def outcome_loop_def [of "Next x1"] adv_def)
    qed (use assms body in \<open>simp add: exec_loop_unfold byte_step_def\<close>)
  qed
qed

lemma body_agree:
  assumes "in_body (x_state x)" and "sim x y" and "path_mark x = None" "query_mark x = None" "x_p x < length (x_data x)"
  shows "agree x (body_byte x) (exec_byte S ch y)"
proof -
  have y: "exec_byte S ch y = body_byte y" using assms by (intro body_last) (simp_all add: sim_def same_core_def remaining_def)
  have "plain x x y" using assms by (simp add: sim_def plain_def flush_data_def)
  then show ?thesis unfolding y body_byte_def complete_and_restart_def assert_chunked_def start_state_def http_should_keep_alive_def Let_def
    using good_msg by (simp add: agree_simps)
qed

section \<open>One byte\<close>

lemma count_irrelevant:
  "slice m (x\<lparr>x_nread := k\<rparr>) = slice m x"
  "flush_data ap aq (x\<lparr>x_nread := k\<rparr>) = flush_data ap aq x"
  by (simp_all add: slice_def flush_data_def split: option.splits)

lemma with_count_sim:
  "sim x y \<Longrightarrow> sim (x\<lparr>x_nread := k\<rparr>) (y\<lparr>x_nread := k\<rparr>)"
  unfolding sim_def same_core_def clean_marks_def count_irrelevant by simp

lemma agree_count: "agree (x\<lparr>x_nread := k\<rparr>) r s = agree x r s"
  by (cases "(x, r, s)" rule: agree.cases) (simp_all add: after_def)

lemma step_agree:
  assumes ok: "exec_ok 0 (x_state x) x" "x_p x < length (x_data x)" and "sim x y"
  shows "agree x (byte_step (x_data x ! x_p x) x) (exec_byte S (x_data x ! x_p x) y)"
proof (cases "in_body (x_state x)")
  case True
  then have "path_mark x = None" "query_mark x = None"
    using ok(1) by (auto simp: in_body_def exec_ok_def marks_ok_def mark_ok_def)
  with True assms show ?thesis by (simp add: byte_step_def body_agree)
next
  case False
  let ?ch = "x_data x ! x_p x" and ?st = "x_state x"
  have y: "x_state y = ?st" "x_nread y = x_nread x" using \<open>sim x y\<close> by (simp_all add: sim_def same_core_def)
  have go: "agree z (step ?st S ?ch z) (step ?st S ?ch w)" if "pre_ok ?st z" "sim z w" "x_data z ! x_p z = ?ch" for z w
    using follows_step [OF False] that unfolding follows_def by blast
  show ?thesis
  proof (cases "PARSING_HEADER ?st")
    case True
    let ?z = "x\<lparr>x_nread := x_nread x + 1\<rparr>" and ?w = "y\<lparr>x_nread := x_nread x + 1\<rparr>"
    show ?thesis
    proof (cases "x_nread x + 1 > HTTP_MAX_HEADER_SIZE")
      case True
      with False y \<open>PARSING_HEADER _\<close> show ?thesis by (simp add: byte_step_def exec_byte_def fail_def)
    next
      case small: False
      with True ok have "pre_ok ?st ?z" using core_ok_count(1) by (simp add: pre_ok_def exec_ok_def marks_ok_def)
      from go [OF this with_count_sim [OF \<open>sim x y\<close>]] have "agree x (step ?st S ?ch ?z) (step ?st S ?ch ?w)"
        by (simp add: agree_count)
      with small True False y show ?thesis by (simp add: byte_step_def exec_byte_def)
    qed
  next
    case header: False
    with ok have "pre_ok ?st x" using core_ok_count(2) by (simp add: pre_ok_def exec_ok_def)
    from go [OF this \<open>sim x y\<close>] header False y show ?thesis by (simp add: byte_step_def exec_byte_def)
  qed
qed

section \<open>The end of a buffer\<close>

definition flushed :: "'u exec \<Rightarrow> 'u exec" where
  "flushed x = with_data x (flush_data ap aq x)"

lemma no_callback: "callback_noclear None m e x = Next x"
  by (simp add: callback_noclear_def split: option.splits)

lemma exec_end_eq:
  assumes "marks_ok (x_state x) x" shows "exec_end S x = Next (flushed x)"
proof -
  have "path_mark x = None \<or> query_mark x = None" using assms by (auto simp: marks_ok_def mark_ok_def)
  then show ?thesis
    unfolding exec_end_def callback_defs no_callback and_then.simps
    by (cases "path_mark x"; cases "query_mark x")
      (simp_all add: callback_noclear_def flushed_def flush_data_def slice_def Let_def upd_parser_def)
qed

lemma result_flushed: "exec_result (Next (flushed x)) = Inr (stored ap aq x, length (x_data x))"
  by (simp add: flushed_def stored_def upd_parser_def)

lemma adv_fields [simp]:
  "x_parser (adv x) = x_parser x" "x_state (adv x) = x_state x" "x_hstate (adv x) = x_hstate x"
  "x_index (adv x) = x_index x" "x_nread (adv x) = x_nread x" "x_data (adv x) = x_data x" "x_p (adv x) = Suc (x_p x)"
  by (simp_all add: adv_def)

lemma result_after:
  assumes "after x x' y'" shows "stored ap aq (adv y') = stored ap aq (adv x')"
proof -
  have "pcore (x_parser y') = pcore (x_parser x')" using assms by (simp add: after_def same_core_def)
  then have "(x_parser y')\<lparr>p_data := d, p_state := s, p_header_state := h, p_index := i, p_nread := n\<rparr> =
      (x_parser x')\<lparr>p_data := d, p_state := s, p_header_state := h, p_index := i, p_nread := n\<rparr>" for d s h i n
    by (simp add: pcore_def)
  then show ?thesis using assms by (simp add: after_def stored_def same_core_def)
qed

section \<open>A whole buffer\<close>

text \<open>
  Between two buffers: the parser has not failed and not been upgraded; a path or query that was
  handed out up to here is as if an empty piece had been added.
\<close>

definition settled :: "state \<Rightarrow> 'u \<Rightarrow> bool" where
  "settled st u \<longleftrightarrow> good u \<and> (st = s_req_path \<longrightarrow> ap u [] = u) \<and> (st = s_req_query_string \<longrightarrow> aq u [] = u)"

definition ready :: "'u http_parser \<Rightarrow> bool" where
  "ready p \<longleftrightarrow> parser_ok p \<and> \<not> upgrade p \<and> (\<exists>st. p_state p = Running st \<and> settled st (p_data p))"

definition inside :: "'u exec \<Rightarrow> bool" where
  "inside x \<longleftrightarrow> loop_ok (x_data x) x \<and> \<not> upgrade (x_parser x) \<and> good (p_data (x_parser x)) \<and> clean_marks x"

lemma inside_ready:
  assumes "inside x" shows "ready (stored ap aq x)"
proof -
  have ok: "exec_ok 0 (x_state x) x" and u: "good (p_data (x_parser x))" and c: "clean_marks x"
    using assms by (simp_all add: inside_def loop_ok_def)
  have marks: "path_mark x \<noteq> None \<longleftrightarrow> x_state x = s_req_path" "query_mark x \<noteq> None \<longleftrightarrow> x_state x = s_req_query_string"
    using ok by (simp_all add: exec_ok_def marks_ok_def mark_ok_def)
  have "good (flush_data ap aq x)" using u c good_path good_query by (simp add: flush_data_def clean_marks_def)
  moreover have "x_state x = s_req_path \<Longrightarrow> ap (flush_data ap aq x) [] = flush_data ap aq x"
    using marks u c path_append [of "p_data (x_parser x)" "slice (path_mark x) x" "[]"] by (simp add: flush_data_def clean_marks_def)
  moreover have "x_state x = s_req_query_string \<Longrightarrow> aq (flush_data ap aq x) [] = flush_data ap aq x"
    using marks u c query_append [of "p_data (x_parser x)" "slice (query_mark x) x" "[]"] by (simp add: flush_data_def clean_marks_def)
  moreover have "parser_ok (stored ap aq x)" using ok
    by (simp add: parser_ok_def stored_def exec_ok_def core_ok_def HTTP_MAX_HEADER_SIZE_def)
  ultimately show ?thesis using assms by (simp add: ready_def settled_def inside_def) (simp add: stored_def)
qed

lemma init_inside:
  assumes "ready p" and "p_state p = Running st"
  shows "inside (exec_init p st d)" and "stored ap aq (exec_init p st d) = p"
proof -
  have ok: "exec_ok 0 st (exec_init p st d)" using assms by (simp add: exec_init_ok ready_def)
  have x: "x_state (exec_init p st d) = st" "x_parser (exec_init p st d) = p" "x_p (exec_init p st d) = 0"
    by (simp_all add: exec_init_def Let_def)
  have none: "slice m (exec_init p st d) = []" for m by (simp add: slice_def x split: option.split)
  then show "inside (exec_init p st d)" using assms ok x
    by (auto simp: inside_def loop_ok_def clean_marks_def ready_def settled_def)
  have "flush_data ap aq (exec_init p st d) = p_data p"
    using assms by (auto simp: flush_data_def none x ready_def settled_def) (simp_all add: exec_init_def Let_def split: if_splits)
  moreover have "p_index p < 2 ^ 8" "p_nread p < 2 ^ 32"
    using assms by (simp_all add: ready_def parser_ok_def core_ok_def HTTP_MAX_HEADER_SIZE_def)
  ultimately show "stored ap aq (exec_init p st d) = p"
    using assms(2) by (simp add: stored_def x) (simp add: exec_init_def Let_def)
qed

lemma init_sim:
  assumes "inside x" and "x_p x < length (x_data x)"
  shows "sim x (exec_init (stored ap aq x) (x_state x) [x_data x ! x_p x])"
proof -
  have "exec_ok 0 (x_state x) x" using assms(1) by (simp add: inside_def loop_ok_def)
  then have "path_mark x \<noteq> None \<longleftrightarrow> x_state x = s_req_path" "query_mark x \<noteq> None \<longleftrightarrow> x_state x = s_req_query_string"
    "x_index x < 2 ^ 8" "x_nread x < 2 ^ 32"
    by (simp_all add: exec_ok_def marks_ok_def mark_ok_def core_ok_def HTTP_MAX_HEADER_SIZE_def)
  with assms show ?thesis
    by (auto simp: sim_def inside_def same_core_def exec_init_def Let_def stored_def pcore_def)
qed

end

section \<open>Runs\<close>

text \<open>A run that is to go on: every buffer leaves a parser that has not failed and not been upgraded.\<close>

fun run :: "'u http_parser_settings \<Rightarrow> 'u http_parser \<Rightarrow> string list \<Rightarrow> 'u http_parser option" where
  "run S p [] = Some p"
| "run S p (d # ds) =
     (case http_parser_execute S p d of
        Inl e \<Rightarrow> None
      | Inr (p', n) \<Rightarrow>
          (case p_state p' of Failed e \<Rightarrow> None | Running st \<Rightarrow> if upgrade p' then None else run S p' ds))"

lemma run_append: "run S p (ds @ es) = Option.bind (run S p ds) (\<lambda>p'. run S p' es)"
  by (induction S p ds rule: run.induct) (auto split: sum.split prod.split stored_state.split)

definition bytes :: "string \<Rightarrow> string list" where
  "bytes d = map (\<lambda>c. [c]) d"

definition stops :: "('u http_parser \<times> nat) res \<Rightarrow> bool" where
  "stops r \<longleftrightarrow> (\<exists>p n. r = Inr (p, n) \<and> (upgrade p \<or> (\<exists>e. p_state p = Failed e)))"

lemma run_stops: "stops (http_parser_execute S p d) \<Longrightarrow> run S p (d # ds) = None"
  by (auto simp: stops_def split: stored_state.split)

lemma result_stops:
  assumes "step_ok dat q r" and "\<And>x. r \<noteq> Next x" shows "stops (exec_result r)"
  using assms by (cases r) (auto simp: step_ok_def stops_def return_ok_def split: stored_state.split)

lemma result_stops_loop:
  assumes "outcome_all N (return_ok dat) E r" and "\<And>x. r \<noteq> Next x" shows "stops (exec_result r)"
  using assms by (cases r) (auto simp: stops_def return_ok_def split: stored_state.split)

context piecewise
begin

lemma body_step_ok:
  assumes "in_body (x_state x)" and "exec_ok 0 (x_state x) x" and "x_p x < length (x_data x)"
  shows "step_ok (x_data x) (x_p x) (body_byte x)"
  using assms(1)
proof (cases rule: in_body_cases)
  case 1
  with assms show ?thesis
    by (simp add: body_byte_def complete_and_restart_def callbacks_eval Let_def goto_state_def start_state_def step_ok_def
        next_ok_def inv_defs upd_parser_def)
next
  case 2
  with assms show ?thesis by (simp add: body_byte_def step_ok_def next_ok_def)
next
  case 3
  with assms show ?thesis
    by (simp add: body_byte_def Let_def assert_chunked_def step_ok_def next_ok_def inv_defs upd_parser_def)
qed

lemma byte_step_ok:
  "exec_ok 0 (x_state x) x \<Longrightarrow> x_p x < length (x_data x) \<Longrightarrow> step_ok (x_data x) (x_p x) (byte_step ch x)"
  using body_step_ok exec_byte_ok by (auto simp: byte_step_def)

lemma execute_byte:
  assumes "inside x" and "x_p x < length (x_data x)"
  defines "ch \<equiv> x_data x ! x_p x"
  shows "case byte_step ch x of
      Next x' \<Rightarrow> http_parser_execute S (stored ap aq x) [ch] = Inr (stored ap aq (adv x'), 1) \<and> inside (adv x') \<and>
        x_p x' = x_p x \<and> x_data x' = x_data x
    | _ \<Rightarrow> stops (http_parser_execute S (stored ap aq x) [ch])"
proof -
  let ?q = "stored ap aq x" and ?st = "x_state x"
  let ?y = "exec_init ?q ?st [ch]"
  have ok: "exec_ok 0 ?st x" using assms(1) by (simp add: inside_def loop_ok_def)
  have sim: "sim x ?y" using init_sim assms by simp
  have q: "p_state ?q = Running ?st" by (simp add: stored_def)
  have y: "x_p ?y = 0" "x_data ?y = [ch]" "x_state ?y = ?st" by (simp_all add: exec_init_def Let_def)
  have yok: "exec_ok 0 ?st ?y" using inside_ready [OF assms(1)] q by (simp add: exec_init_ok ready_def)
  have agree: "agree x (byte_step ch x) (exec_byte S ch ?y)"
    unfolding ch_def using step_agree [OF ok assms(2)] sim by (simp add: ch_def)
  have ystep: "step_ok [ch] 0 (exec_byte S ch ?y)" using exec_byte_ok [of ?y S ch] yok y by simp
  have exec: "http_parser_execute S ?q [ch] = exec_result (and_then (the (outcome_loop (exec_byte S ch ?y))) (exec_end S))"
    if "outcome_loop (exec_byte S ch ?y) \<noteq> None"
    using that q exec_loop_unfold [of ?y] y by (auto simp: http_parser_execute_def)
  show ?thesis
  proof (cases "exec_byte S ch ?y")
    case (Next y')
    with agree obtain x' where x': "byte_step ch x = Next x'" "after x x' y'" by (cases "byte_step ch x") auto
    have y': "x_p y' = 0" "length (x_data y') = 1" using x'(2) by (simp_all add: after_def)
    have "exec_ok 0 (x_state y') y'" using ystep Next by (simp add: step_ok_def next_ok_def)
    then have marks: "marks_ok (x_state (adv y')) (adv y')" using marks_ok_step by (auto simp: adv_def exec_ok_def)
    have "exec_loop S (adv y') = Some (Next (adv y'))" using y' by (simp add: exec_loop.simps)
    then have "http_parser_execute S ?q [ch] = Inr (stored ap aq (adv x'), 1)"
      using exec Next marks y' by (simp add: outcome_loop_def exec_end_eq result_flushed result_after [OF x'(2)] del: exec_result.simps)
    moreover have "x_p x' = x_p x" using x'(2) by (simp add: after_def)
    moreover have "x_data x' = x_data x" "inside (adv x')"
    proof -
      have "next_ok (x_data x) (x_p x) x'" using byte_step_ok [OF ok assms(2), of ch] x' by (simp add: step_ok_def)
      then show "x_data x' = x_data x" "inside (adv x')" using x'(2) marks_ok_step [of "x_state x'" x']
        by (auto simp: next_ok_def inside_def loop_ok_def exec_ok_def after_def adv_def)
    qed
    ultimately show ?thesis using x' by simp
  next
    case (Return y' n)
    with exec have "http_parser_execute S ?q [ch] = exec_result (Return y' n)" by (simp add: outcome_loop_def)
    moreover have "stops (exec_result (Return y' n))" using result_stops [OF ystep] Return by simp
    ultimately show ?thesis using Return agree by (cases "byte_step ch x") auto
  next
    case (Error y')
    with exec have "http_parser_execute S ?q [ch] = exec_result (Error y')" by (simp add: outcome_loop_def)
    moreover have "stops (exec_result (Error y'))" using result_stops [OF ystep] Error by simp
    ultimately show ?thesis using Error agree by (cases "byte_step ch x") auto
  next
    case (Fault e)
    then show ?thesis using ystep by (simp add: step_ok_def)
  qed
qed

text \<open>The rest of a buffer, from a position within it: the bytes one at a time do the same.\<close>

definition rest :: "'u exec \<Rightarrow> string" where
  "rest x = drop (x_p x) (x_data x)"

lemma run_rest:
  assumes "inside x"
  shows "run S (stored ap aq x) (bytes (rest x)) =
    (case exec_loop S x of Some (Next x') \<Rightarrow> Some (stored ap aq x') | _ \<Rightarrow> None) \<and>
    (\<forall>x'. exec_loop S x = Some (Next x') \<longrightarrow> inside x')"
  using assms
proof (induction "length (x_data x) - x_p x" arbitrary: x rule: less_induct)
  case less
  show ?case
  proof (cases "x_p x = length (x_data x)")
    case True
    then show ?thesis using less.prems by (simp add: exec_loop.simps rest_def bytes_def)
  next
    case False
    then have pos: "x_p x < length (x_data x)" using less.prems by (simp add: inside_def loop_ok_def)
    let ?ch = "x_data x ! x_p x"
    have bytes: "bytes (rest x) = [?ch] # bytes (drop (Suc (x_p x)) (x_data x))"
      by (simp add: rest_def bytes_def Cons_nth_drop_Suc [OF pos, symmetric])
    have one: "case byte_step ?ch x of
      Next x' \<Rightarrow> http_parser_execute S (stored ap aq x) [?ch] = Inr (stored ap aq (adv x'), 1) \<and> inside (adv x') \<and>
        x_p x' = x_p x \<and> x_data x' = x_data x
      | _ \<Rightarrow> stops (http_parser_execute S (stored ap aq x) [?ch])"
      using execute_byte [OF less.prems pos] .
    show ?thesis
    proof (cases "byte_step ?ch x")
      case (Next x')
      with one have x': "http_parser_execute S (stored ap aq x) [?ch] = Inr (stored ap aq (adv x'), 1)" "inside (adv x')"
        "x_p x' = x_p x" "x_data x' = x_data x" by simp_all
      have more: "exec_loop S x = exec_loop S (adv x')" using exec_loop_byte [OF pos] Next by (simp add: outcome_loop_def)
      have "length (x_data (adv x')) - x_p (adv x') < length (x_data x) - x_p x" using pos x' by simp
      from less.hyps [OF this x'(2)] more
      have ih: "run S (stored ap aq (adv x')) (bytes (rest (adv x'))) =
          (case exec_loop S x of Some (Next x') \<Rightarrow> Some (stored ap aq x') | _ \<Rightarrow> None) \<and>
          (\<forall>x'. exec_loop S x = Some (Next x') \<longrightarrow> inside x')" by simp
      have "p_state (stored ap aq (adv x')) = Running (x_state x')" "\<not> upgrade (stored ap aq (adv x'))"
        using inside_ready [OF x'(2)] by (simp_all add: stored_def ready_def)
      moreover have "rest (adv x') = drop (Suc (x_p x)) (x_data x)" using x' by (simp add: rest_def)
      ultimately show ?thesis using ih x'(1) bytes by simp
    qed (use one bytes run_stops exec_loop_byte [OF pos] in \<open>simp_all add: outcome_loop_def\<close>)
  qed
qed

lemma run_buffer:
  assumes "ready p" and "d \<noteq> []"
  shows "run S p [d] = run S p (bytes d)" and "run S p (bytes d) = Some p' \<Longrightarrow> ready p'"
proof -
  from assms obtain st where st: "p_state p = Running st" by (auto simp: ready_def)
  let ?x = "exec_init p st d"
  have x: "inside ?x" "stored ap aq ?x = p" "rest ?x = d" "x_data ?x = d"
    using init_inside [OF assms(1) st] by (simp_all add: rest_def exec_init_def Let_def)
  have loop: "run S p (bytes d) = (case exec_loop S ?x of Some (Next x') \<Rightarrow> Some (stored ap aq x') | _ \<Rightarrow> None)"
    "\<And>x'. exec_loop S ?x = Some (Next x') \<Longrightarrow> inside x'"
    using run_rest [OF x(1)] x by simp_all
  then show "run S p (bytes d) = Some p' \<Longrightarrow> ready p'" using inside_ready by (auto split: option.splits outcome.splits)
  have "loop_ok d ?x" using x(1,4) by (simp add: inside_def)
  then obtain r where r: "exec_loop S ?x = Some r"
    "outcome_all (\<lambda>y. loop_ok d y \<and> x_p y = length d) (return_ok d) (\<lambda>y. x_p y \<le> length d) r"
    using exec_loop_ok by blast
  have exec: "http_parser_execute S p d = exec_result (and_then r (exec_end S))"
    using st assms(2) r(1) by (simp add: http_parser_execute_def)
  show "run S p [d] = run S p (bytes d)"
  proof (cases "\<exists>x'. r = Next x'")
    case True
    then obtain x' where x': "r = Next x'" by blast
    with r loop(2) have "inside x'" "marks_ok (x_state x') x'" by (simp_all add: loop_ok_def exec_ok_def)
    with exec x' inside_ready [of x'] show ?thesis using loop(1) r(1)
      by (auto simp: exec_end_eq result_flushed ready_def simp del: exec_result.simps)
  next
    case False
    then have "and_then r (exec_end S) = r" by (cases r) auto
    with exec result_stops_loop [OF r(2)] False have "stops (http_parser_execute S p d)" by simp
    from run_stops [OF this, of "[]"] False loop(1) r(1) show ?thesis by (cases r) auto
  qed
qed

lemma run_bytes: "ready p \<Longrightarrow> [] \<notin> set ds \<Longrightarrow> run S p ds = run S p (bytes (concat ds))"
proof (induction ds arbitrary: p)
  case (Cons d ds)
  then have d: "d \<noteq> []" "[] \<notin> set ds" by auto
  have "run S p (d # ds) = Option.bind (run S p [d]) (\<lambda>p'. run S p' ds)" using run_append [of S p "[d]" ds] by simp
  also have "\<dots> = Option.bind (run S p (bytes d)) (\<lambda>p'. run S p' ds)" using run_buffer(1) [OF Cons.prems(1) d(1)] by simp
  also have "\<dots> = Option.bind (run S p (bytes d)) (\<lambda>p'. run S p' (bytes (concat ds)))"
    using run_buffer(2) [OF Cons.prems(1) d(1)] Cons.IH d(2) by (cases "run S p (bytes d)") auto
  finally show ?case by (simp add: run_append bytes_def)
qed (simp add: bytes_def)

end

end
