(* ===== verification/Http_Request.thy ===== *)
theory Http_Request imports Http_Buffers
begin

text \<open>
  What the parser makes of a well-formed request. \<open>request_text\<close> prints one; reading it calls the
  callbacks with the path, the query and the end of the header and of the message, and the parser is
  ready for the next request.
\<close>

section \<open>Requests\<close>

definition url_text :: "string \<Rightarrow> bool" where
  "url_text s \<longleftrightarrow> list_all IS_URL_CHAR s"

definition plain_name :: "string \<Rightarrow> bool" where
  "plain_name name \<longleftrightarrow> name \<noteq> [] \<and> hd name \<noteq> SP \<and> (\<forall>c \<in> set name. TOKEN c \<noteq> NUL) \<and>
     (field_header_state (TOKEN (hd name)) = h_general \<or>
      (2 \<le> length name \<and>
       (TOKEN (hd name), TOKEN (name ! 1)) \<notin>
         {(CHR ''c'', CHR ''o''), (CHR ''p'', CHR ''r''), (CHR ''t'', CHR ''r''), (CHR ''u'', CHR ''p'')}))"

definition plain_value :: "string \<Rightarrow> bool" where
  "plain_value v \<longleftrightarrow> CR \<notin> set v \<and> LF \<notin> set v \<and> (v \<noteq> [] \<longrightarrow> hd v \<noteq> SP \<and> hd v \<noteq> TAB)"

definition header_text :: "string \<times> string \<Rightarrow> string" where
  "header_text h = fst h @ '': '' @ snd h @ [CR, LF]"

definition line_text :: "http_method \<Rightarrow> string \<Rightarrow> string option \<Rightarrow> string" where
  "line_text m path query =
     method_strings m @ '' '' @ path @ (case query of None \<Rightarrow> [] | Some q \<Rightarrow> ''?'' @ q) @ '' HTTP/1.1'' @ [CR, LF]"

definition request_text :: "http_method \<Rightarrow> string \<Rightarrow> string option \<Rightarrow> (string \<times> string) list \<Rightarrow> string" where
  "request_text m path query headers =
     line_text m path query @ concat (map header_text headers) @ [CR, LF]"

lemma url_char: "IS_URL_CHAR c \<Longrightarrow> c \<noteq> NUL \<and> c \<noteq> SP"
  by (auto simp: IS_URL_CHAR_def normal_url_char_def code_def)

lemma url_text_no_nul: "url_text s \<Longrightarrow> NUL \<notin> set s"
  using url_char by (auto simp: url_text_def list_all_iff)

text \<open>A path starts with a slash or is a star, which the code allows in front of any path.\<close>

definition path_text :: "string \<Rightarrow> bool" where
  "path_text path \<longleftrightarrow> url_text path \<and> path \<noteq> [] \<and> (hd path = CHR ''/'' \<or> hd path = CHR ''*'')"

section \<open>Reading\<close>

text \<open>A parser in a state of a request's header, with \<open>n\<close> bytes of it counted.\<close>

context piecewise
begin

definition at ::
    "state \<Rightarrow> header_states \<Rightarrow> nat \<Rightarrow> http_method \<Rightarrow> 'u \<Rightarrow> nat \<Rightarrow> 'u http_parser \<Rightarrow> bool" where
  "at st h i m u n p \<longleftrightarrow>
     ready p \<and> p_state p = Running st \<and> p_header_state p = h \<and> p_index p = i \<and> p_method p = m \<and> p_data p = u \<and>
     p_nread p = n \<and> type p = HTTP_REQUEST \<and> (st \<noteq> s_start_req \<longrightarrow> flags p = {} \<and> content_length p = -1)"

definition reads ::
    "state \<times> header_states \<times> nat \<times> http_method \<times> 'u \<Rightarrow> string \<Rightarrow>
     state \<times> header_states \<times> nat \<times> http_method \<times> 'u \<Rightarrow> bool" where
  "reads a s b \<longleftrightarrow>
     (case a of (st, h, i, m, u) \<Rightarrow> case b of (st', h', i', m', u') \<Rightarrow>
       \<forall>p n. at st h i m u n p \<longrightarrow> n + length s \<le> HTTP_MAX_HEADER_SIZE \<longrightarrow>
         (\<exists>p'. run S p (bytes s) = Some p' \<and> at st' h' i' m' u' (n + length s) p'))"

lemma bytes_append: "bytes (s @ t) = bytes s @ bytes t" by (simp add: bytes_def)

lemma readsD:
  "reads (st, h, i, m, u) s (st', h', i', m', u') \<Longrightarrow> at st h i m u n p \<Longrightarrow> n + length s \<le> HTTP_MAX_HEADER_SIZE \<Longrightarrow>
   \<exists>p'. run S p (bytes s) = Some p' \<and> at st' h' i' m' u' (n + length s) p'"
  unfolding reads_def by simp

lemma reads_append [trans]:
  assumes "reads a s b" and "reads b t c" shows "reads a (s @ t) c"
  unfolding reads_def split_beta
proof (intro allI impI)
  fix p n
  assume p: "at (fst a) (fst (snd a)) (fst (snd (snd a))) (fst (snd (snd (snd a)))) (snd (snd (snd (snd a)))) n p"
    and len: "n + length (s @ t) \<le> HTTP_MAX_HEADER_SIZE"
  then obtain p1 where p1: "run S p (bytes s) = Some p1"
    "at (fst b) (fst (snd b)) (fst (snd (snd b))) (fst (snd (snd (snd b)))) (snd (snd (snd (snd b)))) (n + length s) p1"
    using assms(1) by (fastforce simp: reads_def split_beta)
  moreover obtain p2 where "run S p1 (bytes t) = Some p2"
    "at (fst c) (fst (snd c)) (fst (snd (snd c))) (fst (snd (snd (snd c)))) (snd (snd (snd (snd c)))) (n + length s + length t) p2"
    using assms(2) p1(2) len by (fastforce simp: reads_def split_beta)
  ultimately show "\<exists>p'. run S p (bytes (s @ t)) = Some p' \<and>
      at (fst c) (fst (snd c)) (fst (snd (snd c))) (fst (snd (snd (snd c)))) (snd (snd (snd (snd c)))) (n + length (s @ t)) p'"
    by (simp add: bytes_append run_append add.assoc)
qed

lemma reads_Nil: "reads a [] a"
  by (simp add: reads_def bytes_def split_beta)

lemma reads_Cons: "reads a [c] b \<Longrightarrow> reads b s d \<Longrightarrow> reads a (c # s) d"
  using reads_append [of a "[c]" b s d] by simp

text \<open>One byte of the header.\<close>

abbreviation counted :: "'u http_parser \<Rightarrow> state \<Rightarrow> char \<Rightarrow> 'u exec" where
  "counted p st c \<equiv> (exec_init p st [c])\<lparr>x_nread := p_nread p + 1\<rparr>"

lemma run_one:
  assumes p: "ready p" "p_state p = Running st" and st: "PARSING_HEADER st" "p_nread p < HTTP_MAX_HEADER_SIZE"
    and step: "step st S c (counted p st c) = Next y"
  shows "run S p (bytes [c]) = Some (stored ap aq (adv y)) \<and> ready (stored ap aq (adv y))"
proof -
  let ?x = "exec_init p st [c]"
  have x: "inside ?x" "stored ap aq ?x = p" using init_inside [OF p] by simp_all
  have f: "x_p ?x = 0" "x_data ?x = [c]" "x_state ?x = st" "x_nread ?x = p_nread p" by (simp_all add: exec_init_def Let_def)
  have "\<not> in_body st" using st(1) by (auto simp: in_body_def PARSING_HEADER_def)
  then have "byte_step c ?x = Next y" using st step by (simp add: byte_step_def f exec_byte_def)
  with execute_byte [OF x(1)] f x(2)
  have y: "http_parser_execute S p [c] = Inr (stored ap aq (adv y), 1)" "inside (adv y)" by simp_all
  from inside_ready [OF y(2)] have "ready (stored ap aq (adv y))" .
  moreover from this have "run S p (bytes [c]) = Some (stored ap aq (adv y))"
    using y(1) by (auto simp: bytes_def ready_def)
  ultimately show ?thesis by simp
qed

lemma reads_byte:
  assumes "PARSING_HEADER st"
    and "\<And>p n. at st h i m u n p \<Longrightarrow>
      \<exists>y. step st S c (counted p st c) = Next y \<and>
        (ready (stored ap aq (adv y)) \<longrightarrow> at st' h' i' m' u' (n + 1) (stored ap aq (adv y)))"
  shows "reads (st, h, i, m, u) [c] (st', h', i', m', u')"
  unfolding reads_def split_conv
proof (intro allI impI)
  fix p n
  assume p: "at st h i m u n p" and "n + length [c] \<le> HTTP_MAX_HEADER_SIZE"
  then have "ready p" "p_state p = Running st" "p_nread p < HTTP_MAX_HEADER_SIZE" by (auto simp: at_def)
  moreover obtain y where "step st S c (counted p st c) = Next y"
    "ready (stored ap aq (adv y)) \<longrightarrow> at st' h' i' m' u' (n + 1) (stored ap aq (adv y))"
    using assms(2) [OF p] by blast
  ultimately show "\<exists>p'. run S p (bytes [c]) = Some p' \<and> at st' h' i' m' u' (n + length [c]) p'"
    using run_one [OF _ _ assms(1)] by auto
qed

text \<open>The parser after the byte, for a step that returns \<open>y\<close>.\<close>

lemma at_stored:
  "at st h i m u n (stored ap aq x) \<longleftrightarrow> ready (stored ap aq x) \<and> x_state x = st \<and> x_hstate x = h \<and>
     x_index x mod 2 ^ 8 = i \<and> p_method (x_parser x) = m \<and> flush_data ap aq x = u \<and> x_nread x mod 2 ^ 32 = n \<and>
     type (x_parser x) = HTTP_REQUEST \<and>
     (st \<noteq> s_start_req \<longrightarrow> flags (x_parser x) = {} \<and> content_length (x_parser x) = -1)"
  by (simp add: at_def stored_def)

lemma at_small:
  assumes "at st h i m u n p" shows "n < 2 ^ 31" "i < 2 ^ 8" "settled st u" "ready p"
  using assms by (auto simp: at_def ready_def parser_ok_def core_ok_def HTTP_MAX_HEADER_SIZE_def)

lemma at_fields:
  assumes "at st h i m u n p"
  shows "p_state p = Running st" "p_header_state p = h" "p_index p = i" "p_method p = m" "p_data p = u" "p_nread p = n"
    "type p = HTTP_REQUEST" "st \<noteq> s_start_req \<Longrightarrow> flags p = {} \<and> content_length p = -1" "n mod 4294967296 = n"
    "Suc n mod 4294967296 = Suc n" "i mod 256 = i"
  using assms at_small [OF assms] by (simp_all add: at_def)

lemmas read_simps = at_stored exec_init_def Let_def goto_state_def upd_parser_def flush_data_def slice_def adv_def
  url_state_def PARSING_HEADER_def callbacks_eval

subsection \<open>The request line\<close>

lemma read_goto:
  assumes "st' \<notin> {s_req_path, s_req_query_string, s_start_req}" "st \<notin> {s_req_path, s_req_query_string, s_start_req}" "PARSING_HEADER st"
    and "\<And>x. step st S c x = goto_state x st'"
  shows "reads (st, h, i, m, u) [c] (st', h, i, m, u)"
  using assms(1,2) by (intro reads_byte assms(3)) (simp add: assms(4) read_simps at_fields)

lemma first_letter_alpha: "first_letter c = Some m \<Longrightarrow> IS_ALPHA c \<and> c \<noteq> CR \<and> c \<noteq> LF"
  by (auto simp: first_letter_def IS_ALPHA_def LOWER_def code_def split: if_splits)

lemma read_start:
  assumes "first_letter c = Some m'" shows "reads (s_start_req, h, i, m, u) [c] (s_req_method, h, 1, m', u)"
  using first_letter_alpha [OF assms] assms
  by (intro reads_byte;
      simp add: read_simps at_fields at_start_req_def new_message_def start_req_method_assign_def)

lemma method_no_nul: "i < length (method_strings m) \<Longrightarrow> method_strings m ! i \<noteq> NUL"
  by (cases m; simp add: less_Suc_eq; elim disjE; simp)

lemma read_method_byte:
  assumes "i < length (method_strings m)"
  shows "reads (s_req_method, h, i, m, u) [method_strings m ! i] (s_req_method, h, i + 1, m, u)"
proof -
  have "i + 1 < 2 ^ 8" using assms method_string_size(2) [of m] by simp
  then show ?thesis using assms method_no_nul [OF assms]
    by (intro reads_byte) (simp_all add: read_simps at_fields at_req_method_def arr_read_def nth_append)
qed

lemma read_method_end:
  "reads (s_req_method, h, length (method_strings m), m, u) [SP] (s_req_spaces_before_url, h, length (method_strings m) + 1, m, u)"
proof -
  have "length (method_strings m) + 1 < 2 ^ 8" using method_string_size(2) [of m] by simp
  then show ?thesis
    by (intro reads_byte) (simp_all add: read_simps at_fields at_req_method_def arr_read_def nth_append)
qed

lemma read_method_rest:
  "i \<le> length (method_strings m) \<Longrightarrow>
   reads (s_req_method, h, i, m, u) (drop i (method_strings m) @ '' '')
     (s_req_spaces_before_url, h, length (method_strings m) + 1, m, u)"
proof (induction i rule: inc_induct)
  case base
  from read_method_end show ?case by simp
next
  case (step i)
  then show ?case using reads_Cons [OF read_method_byte [of i m] step.IH(1)[unfolded Suc_eq_plus1]]
    by (simp add: Cons_nth_drop_Suc [symmetric])
qed

text \<open>The methods whose first letter is their own, and \<open>PUT\<close>, which starts as \<open>POST\<close>.\<close>

lemma read_put: "reads (s_req_method, h, 1, HTTP_POST, u) ''U'' (s_req_method, h, 2, HTTP_PUT, u)"
  by (rule reads_byte) (simp_all add: read_simps at_fields at_req_method_def arr_read_def other_method_def)

lemma read_method:
  assumes "first_letter (hd (method_strings m)) = Some m \<or> m = HTTP_PUT"
  shows "reads (s_start_req, h, i, m0, u) (method_strings m @ '' '') (s_req_spaces_before_url, h, length (method_strings m) + 1, m, u)"
proof (cases "m = HTTP_PUT")
  case True
  have "reads (s_start_req, h, i, m0, u) ''P'' (s_req_method, h, 1, HTTP_POST, u)"
    by (rule read_start) (simp add: first_letter_def)
  from reads_append [OF reads_append [OF this read_put] read_method_rest [where m = HTTP_PUT and i = 2]] True show ?thesis by simp
next
  case False
  then have "reads (s_start_req, h, i, m0, u) [hd (method_strings m)] (s_req_method, h, 1, m, u)"
    using read_start assms by blast
  from reads_append [OF this read_method_rest [where i = 1]] show ?thesis
    by (cases "method_strings m"; cases m) auto
qed

text \<open>The path and the query.\<close>

lemma read_path_start:
  "c = CHR ''/'' \<or> c = CHR ''*'' \<Longrightarrow> reads (s_req_spaces_before_url, h, i, m, u) [c] (s_req_path, h, i, m, ap u [c])"
  by (rule reads_byte) (auto simp: read_simps at_fields at_req_spaces_before_url_def mark_path_def mark_url_def)

lemma read_path:
  assumes "url_text s" and "good u" and "NUL \<notin> set d"
  shows "reads (s_req_path, h, i, m, ap u d) s (s_req_path, h, i, m, ap u (d @ s))"
  using assms
proof (induction s arbitrary: d)
  case (Cons c s)
  then have c: "IS_URL_CHAR c" "c \<noteq> NUL" "url_text s" using url_char by (auto simp: url_text_def)
  then have "reads (s_req_path, h, i, m, ap u d) [c] (s_req_path, h, i, m, ap u (d @ [c]))"
    using path_append [of u d "[c]"] Cons.prems
    by (intro reads_byte) (simp_all add: read_simps at_fields at_req_path_def)
  from reads_Cons [OF this Cons.IH [of "d @ [c]"]] Cons.prems c show ?case by simp
qed (simp add: reads_Nil)

lemma read_path_end:
  "reads (s_req_path, h, i, m, u) '' '' (s_req_http_start, h, i, m, u)"
  "reads (s_req_path, h, i, m, u) ''?'' (s_req_query_string_start, h, i, m, u)"
  by (rule reads_byte, simp add: PARSING_HEADER_def, frule at_small(3),
      simp add: read_simps at_fields at_req_path_def settled_def IS_URL_CHAR_def normal_url_char_def code_def)+

lemma read_query_start:
  "IS_URL_CHAR c \<Longrightarrow> reads (s_req_query_string_start, h, i, m, u) [c] (s_req_query_string, h, i, m, aq u [c])"
  "reads (s_req_query_string_start, h, i, m, u) '' '' (s_req_http_start, h, i, m, u)"
  by (rule reads_byte;
      simp add: read_simps at_fields at_req_query_string_start_def mark_query_def IS_URL_CHAR_def normal_url_char_def code_def)+

lemma read_query:
  assumes "url_text s" and "good u" and "NUL \<notin> set d"
  shows "reads (s_req_query_string, h, i, m, aq u d) s (s_req_query_string, h, i, m, aq u (d @ s))"
  using assms
proof (induction s arbitrary: d)
  case (Cons c s)
  then have c: "IS_URL_CHAR c" "c \<noteq> NUL" "url_text s" using url_char by (auto simp: url_text_def)
  then have "reads (s_req_query_string, h, i, m, aq u d) [c] (s_req_query_string, h, i, m, aq u (d @ [c]))"
    using query_append [of u d "[c]"] Cons.prems
    by (intro reads_byte) (simp_all add: read_simps at_fields at_req_query_string_def)
  from reads_Cons [OF this Cons.IH [of "d @ [c]"]] Cons.prems c show ?case by simp
qed (simp add: reads_Nil)

lemma read_query_end: "reads (s_req_query_string, h, i, m, u) '' '' (s_req_http_start, h, i, m, u)"
  by (rule reads_byte, simp add: PARSING_HEADER_def, frule at_small(3),
      simp add: read_simps at_fields at_req_query_string_def settled_def IS_URL_CHAR_def normal_url_char_def code_def)

lemma read_version:
  "reads (s_req_http_start, h, i, m, u) (''HTTP/1.1'' @ [CR, LF]) (s_header_field_start, h, i, m, u)"
proof -
  have g: "reads (s_req_http_start, h, i, m, u) ''H'' (s_req_http_H, h, i, m, u)"
    "reads (s_req_http_H, h, i, m, u) ''T'' (s_req_http_HT, h, i, m, u)"
    "reads (s_req_http_HT, h, i, m, u) ''T'' (s_req_http_HTT, h, i, m, u)"
    "reads (s_req_http_HTT, h, i, m, u) ''P'' (s_req_http_HTTP, h, i, m, u)"
    "reads (s_req_http_HTTP, h, i, m, u) ''/'' (s_req_first_http_major, h, i, m, u)"
    "reads (s_req_http_major, h, i, m, u) ''.'' (s_req_first_http_minor, h, i, m, u)"
    "reads (s_req_http_minor, h, i, m, u) [CR] (s_req_line_almost_done, h, i, m, u)"
    "reads (s_req_line_almost_done, h, i, m, u) [LF] (s_header_field_start, h, i, m, u)"
    by (rule read_goto; simp add: PARSING_HEADER_def at_req_http_start_def next_http_major_def at_req_http_minor_def
        at_req_line_almost_done_def)+
  have d: "reads (s_req_first_http_major, h, i, m, u) ''1'' (s_req_http_major, h, i, m, u)"
    "reads (s_req_first_http_minor, h, i, m, u) ''1'' (s_req_http_minor, h, i, m, u)"
    by (rule reads_byte; simp add: read_simps at_fields first_http_major_def first_http_minor_def IS_NUM_def code_def)+
  show ?thesis
    using reads_Cons [OF g(1) reads_Cons [OF g(2) reads_Cons [OF g(3) reads_Cons [OF g(4) reads_Cons [OF g(5)
      reads_Cons [OF d(1) reads_Cons [OF g(6) reads_Cons [OF d(2) reads_Cons [OF g(7) g(8)]]]]]]]]] by simp
qed

definition with_query :: "'u \<Rightarrow> string option \<Rightarrow> 'u" where
  "with_query u query = (case query of None \<Rightarrow> u | Some q \<Rightarrow> if q = [] then u else aq u q)"

lemma read_line:
  assumes m: "first_letter (hd (method_strings m)) = Some m \<or> m = HTTP_PUT" and path: "path_text path"
    and query: "\<And>q. query = Some q \<Longrightarrow> url_text q" and u: "good u"
  shows "reads (s_start_req, h, i, m0, u) (line_text m path query)
    (s_header_field_start, h, length (method_strings m) + 1, m, with_query (ap u path) query)"
proof -
  let ?i = "length (method_strings m) + 1"
  obtain c p where cp: "path = c # p" "c = CHR ''/'' \<or> c = CHR ''*''" "url_text p" "IS_URL_CHAR c"
    using path by (cases path) (auto simp: path_text_def url_text_def)
  have "NUL \<notin> set [c]" using url_char [OF cp(4)] by auto
  from reads_Cons [OF read_path_start [OF cp(2)] read_path [OF cp(3) u this]]
  have path_read: "reads (s_req_spaces_before_url, h, ?i, m, u) path (s_req_path, h, ?i, m, ap u path)"
    by (simp add: cp(1))
  have gu: "good (ap u path)" using good_path [OF u] url_text_no_nul path by (simp add: path_text_def)
  have query_read: "reads (s_req_path, h, ?i, m, ap u path) ((case query of None \<Rightarrow> [] | Some q \<Rightarrow> ''?'' @ q) @ '' '')
      (s_req_http_start, h, ?i, m, with_query (ap u path) query)"
  proof (cases query)
    case None
    then show ?thesis using read_path_end(1) by (simp add: with_query_def)
  next
    case (Some q)
    show ?thesis
    proof (cases q)
      case Nil
      with Some reads_Cons [OF read_path_end(2) read_query_start(2)] show ?thesis by (simp add: with_query_def)
    next
      case (Cons d r)
      then have d: "IS_URL_CHAR d" "url_text r" using query [OF Some] by (simp_all add: url_text_def)
      have "NUL \<notin> set [d]" using url_char [OF d(1)] by auto
      from reads_Cons [OF read_query_start(1) [OF d(1)] read_query [OF d(2) gu this]]
      have "reads (s_req_query_string_start, h, ?i, m, ap u path) q (s_req_query_string, h, ?i, m, aq (ap u path) q)"
        by (simp add: Cons)
      from reads_Cons [OF read_path_end(2) reads_append [OF this read_query_end]] Some Cons show ?thesis
        by (simp add: with_query_def)
    qed
  qed
  from reads_append [OF read_method [OF m] reads_append [OF path_read reads_append [OF query_read read_version]]]
  show ?thesis by (simp add: line_text_def)
qed

subsection \<open>The header\<close>

lemma read_name_start:
  assumes "st = s_header_field_start \<or> st = s_header_value_lws" and "TOKEN c \<noteq> NUL" and "c \<noteq> SP"
  shows "reads (st, h, i, m, u) [c] (s_header_field, field_header_state (TOKEN c), 0, m, u)"
proof -
  have "c \<noteq> CR" "c \<noteq> LF" "c \<noteq> TAB" using assms(2) by (auto simp: TOKEN_def code_def)
  with assms show ?thesis
    by (elim disjE; hypsubst; intro reads_byte;
        simp add: read_simps at_fields at_header_value_lws_def header_field_start_def mark_field_def)
qed

lemma read_name_general:
  assumes "TOKEN c \<noteq> NUL" shows "reads (s_header_field, h_general, i, m, u) [c] (s_header_field, h_general, i, m, u)"
  using assms by (intro reads_byte) (simp_all add: read_simps at_fields at_header_field_def field_char_def)

lemma read_name_second:
  assumes "TOKEN d \<noteq> NUL" and "field_header_state c \<noteq> h_general"
    and "(c, TOKEN d) \<notin> {(CHR ''c'', CHR ''o''), (CHR ''p'', CHR ''r''), (CHR ''t'', CHR ''r''), (CHR ''u'', CHR ''p'')}"
  shows "reads (s_header_field, field_header_state c, 0, m, u) [d] (s_header_field, h_general, 1, m, u)"
proof -
  have "c = CHR ''c'' \<or> c = CHR ''p'' \<or> c = CHR ''t'' \<or> c = CHR ''u''"
    using assms(2) by (auto simp: field_header_state_def split: if_splits)
  then show ?thesis using assms(1,3)
    by (elim disjE; hypsubst; intro reads_byte;
        simp add: read_simps at_fields at_header_field_def field_char_def field_header_state_def match_next_def)
qed

lemma read_name_rest:
  "\<forall>c \<in> set s. TOKEN c \<noteq> NUL \<Longrightarrow> reads (s_header_field, h_general, i, m, u) s (s_header_field, h_general, i, m, u)"
proof (induction s)
  case (Cons c s)
  then show ?case using reads_Cons [OF read_name_general [of c]] by simp
qed (simp add: reads_Nil)

lemma read_name:
  assumes "st = s_header_field_start \<or> st = s_header_value_lws" and "plain_name name"
  shows "\<exists>i'. reads (st, h, i, m, u) name (s_header_field, h_general, i', m, u)"
proof -
  obtain c s where name: "name = c # s" "TOKEN c \<noteq> NUL" "c \<noteq> SP" "\<forall>c \<in> set s. TOKEN c \<noteq> NUL"
    using assms(2) by (cases name) (auto simp: plain_name_def)
  note start = read_name_start [OF assms(1) name(2,3)]
  show ?thesis
  proof (cases "field_header_state (TOKEN c) = h_general")
    case True
    from reads_Cons [OF start [unfolded True] read_name_rest [OF name(4)]] show ?thesis unfolding name(1) by blast
  next
    case False
    with assms(2) name obtain d t where s: "s = d # t" "TOKEN d \<noteq> NUL" "\<forall>c \<in> set t. TOKEN c \<noteq> NUL"
      and d: "(TOKEN c, TOKEN d) \<notin> {(CHR ''c'', CHR ''o''), (CHR ''p'', CHR ''r''), (CHR ''t'', CHR ''r''), (CHR ''u'', CHR ''p'')}"
      by (cases s) (auto simp: plain_name_def)
    from reads_Cons [OF start reads_Cons [OF read_name_second [OF s(2) False d] read_name_rest [OF s(3)]]]
    show ?thesis using name(1) s(1) by blast
  qed
qed

lemma read_colon: "reads (s_header_field, h, i, m, u) '':'' (s_header_value_start, h, i, m, u)"
  by (rule reads_byte; simp add: read_simps at_fields at_header_field_def TOKEN_def code_def)

lemma read_space: "reads (s_header_value_start, h, i, m, u) '' '' (s_header_value_start, h, i, m, u)"
  by (rule reads_byte; simp add: read_simps at_fields at_header_value_start_def)

lemma read_value_byte:
  assumes "c \<noteq> CR" "c \<noteq> LF"
  shows "reads (s_header_value, h_general, i, m, u) [c] (s_header_value, h_general, i, m, u)"
    and "c \<noteq> SP \<Longrightarrow> c \<noteq> TAB \<Longrightarrow> reads (s_header_value_start, h_general, i, m, u) [c] (s_header_value, h_general, 0, m, u)"
  using assms
  by - (rule reads_byte; simp add: read_simps at_fields at_header_value_def value_char_def at_header_value_start_def
      mark_value_def first_value_char_def)+

lemma read_value_rest:
  "CR \<notin> set v \<Longrightarrow> LF \<notin> set v \<Longrightarrow> reads (s_header_value, h_general, i, m, u) v (s_header_value, h_general, i, m, u)"
proof (induction v)
  case (Cons c v)
  then show ?case using reads_Cons [OF read_value_byte(1) [of c]] by auto
qed (simp add: reads_Nil)

lemma read_line_end:
  "reads (s_header_value, h_general, i, m, u) [CR] (s_header_almost_done, h_general, i, m, u)"
  "reads (s_header_value_start, h_general, i, m, u) [CR] (s_header_almost_done, h_general, 0, m, u)"
  "reads (s_header_almost_done, h_general, i, m, u) [LF] (s_header_value_lws, h_general, i, m, u)"
  by (rule reads_byte; simp add: read_simps at_fields at_header_value_def at_header_value_start_def mark_value_def
      header_almost_done_def)+

lemma read_header:
  assumes "st = s_header_field_start \<or> st = s_header_value_lws" and "plain_name (fst f)" and "plain_value (snd f)"
  shows "reads (st, h, i, m, u) (header_text f) (s_header_value_lws, h_general, 0, m, u)"
proof -
  obtain i' where name: "reads (st, h, i, m, u) (fst f) (s_header_field, h_general, i', m, u)"
    using read_name [OF assms(1,2)] by blast
  have "reads (s_header_value_start, h_general, i', m, u) (snd f @ [CR]) (s_header_almost_done, h_general, 0, m, u)"
  proof (cases "snd f")
    case Nil
    then show ?thesis using read_line_end(2) by simp
  next
    case (Cons c v)
    with assms(3) have c: "c \<noteq> CR" "c \<noteq> LF" "c \<noteq> SP" "c \<noteq> TAB" "CR \<notin> set v" "LF \<notin> set v" by (auto simp: plain_value_def)
    from reads_Cons [OF read_value_byte(2) [OF c(1-4)] reads_append [OF read_value_rest [OF c(5,6)] read_line_end(1)]] Cons
    show ?thesis by simp
  qed
  from reads_append [OF name reads_Cons [OF read_colon reads_Cons [OF read_space reads_append [OF this read_line_end(3)]]]]
  show ?thesis by (simp add: header_text_def)
qed

lemma read_headers:
  assumes "st = s_header_field_start \<or> st = s_header_value_lws"
    and "\<forall>f \<in> set fs. plain_name (fst f) \<and> plain_value (snd f)"
  shows "\<exists>st' h' i'. (st' = s_header_field_start \<or> st' = s_header_value_lws) \<and>
    reads (st, h, i, m, u) (concat (map header_text fs)) (st', h', i', m, u)"
  using assms
proof (induction fs arbitrary: st h i)
  case Nil
  then show ?case using reads_Nil [of "(st, h, i, m, u)"] by auto
next
  case (Cons f fs)
  then have "reads (st, h, i, m, u) (header_text f) (s_header_value_lws, h_general, 0, m, u)" using read_header by simp
  then show ?case using Cons.IH [of s_header_value_lws h_general 0] Cons.prems reads_append by fastforce
qed

lemma read_end:
  assumes "st = s_header_field_start \<or> st = s_header_value_lws"
  shows "reads (st, h, i, m, u) [CR] (s_headers_almost_done, h, i, m, u)"
  using assms
  by (elim disjE; hypsubst; intro reads_byte; simp add: read_simps at_fields at_header_value_lws_def header_field_start_def)

lemma complete:
  assumes p: "at s_headers_almost_done h i m u n p" "n < HTTP_MAX_HEADER_SIZE" and m: "m \<noteq> HTTP_CONNECT"
  shows "\<exists>p'. run S p (bytes [LF]) = Some p' \<and> at s_start_req h i m (msg_done (head_done m u)) 0 p'"
proof -
  have up: "\<not> upgrade p" using at_small(4) [OF p(1)] by (simp add: ready_def)
  have "\<exists>y. step s_headers_almost_done S LF (counted p s_headers_almost_done LF) = Next y \<and>
        (ready (stored ap aq (adv y)) \<longrightarrow> at s_start_req h i m (msg_done (head_done m u)) 0 (stored ap aq (adv y)))"
    using p(1) m up
    by (simp add: read_simps at_fields headers_almost_done_def body_or_end_def complete_and_restart_def start_state_def)
  then obtain y where y: "step s_headers_almost_done S LF (counted p s_headers_almost_done LF) = Next y"
    "ready (stored ap aq (adv y)) \<longrightarrow> at s_start_req h i m (msg_done (head_done m u)) 0 (stored ap aq (adv y))" by blast
  have "ready p" "p_state p = Running s_headers_almost_done" "p_nread p < HTTP_MAX_HEADER_SIZE"
    using p by (auto simp: at_def)
  from run_one [OF this(1,2) _ this(3) y(1)] y(2) show ?thesis by (simp add: PARSING_HEADER_def)
qed

lemma read_request:
  assumes p: "at s_start_req h i m0 u 0 p"
    and m: "first_letter (hd (method_strings m)) = Some m \<or> m = HTTP_PUT" "m \<noteq> HTTP_CONNECT"
    and path: "path_text path" and query: "\<And>q. query = Some q \<Longrightarrow> url_text q"
    and fs: "\<forall>f \<in> set fs. plain_name (fst f) \<and> plain_value (snd f)"
    and len: "length (request_text m path query fs) \<le> HTTP_MAX_HEADER_SIZE"
  shows "\<exists>p' h' i'. run S p (bytes (request_text m path query fs)) = Some p' \<and>
    at s_start_req h' i' m (msg_done (head_done m (with_query (ap u path) query))) 0 p'"
proof -
  let ?v = "with_query (ap u path) query" and ?l = "length (method_strings m) + 1"
  have u: "good u" using at_small(3) [OF p] by (simp add: settled_def)
  obtain st h' i' where st: "st = s_header_field_start \<or> st = s_header_value_lws"
    "reads (s_header_field_start, h, ?l, m, ?v) (concat (map header_text fs)) (st, h', i', m, ?v)"
    using read_headers [OF disjI1 [OF refl] fs, of h ?l m ?v] by blast
  let ?t = "line_text m path query @ concat (map header_text fs) @ [CR]"
  have eq: "request_text m path query fs = ?t @ [LF]" by (simp add: request_text_def)
  from reads_append [OF read_line [OF m(1) path query u] reads_append [OF st(2) read_end [OF st(1)]]]
  have "reads (s_start_req, h, i, m0, u) ?t (s_headers_almost_done, h', i', m, ?v)" .
  from readsD [OF this p] len obtain p1
    where p1: "run S p (bytes ?t) = Some p1" "at s_headers_almost_done h' i' m ?v (length ?t) p1" by (auto simp: eq)
  have "length ?t < HTTP_MAX_HEADER_SIZE" using len by (simp add: eq)
  from complete [OF p1(2) this m(2)] obtain p'
    where "run S p1 (bytes [LF]) = Some p'" "at s_start_req h' i' m (msg_done (head_done m ?v)) 0 p'" by blast
  moreover from this(1) have "run S p (bytes (request_text m path query fs)) = Some p'"
    by (simp only: eq bytes_append [of ?t "[LF]"] run_append [of S p "bytes ?t"] p1(1) bind.bind_lunit)
  ultimately show ?thesis by blast
qed

end

end
