(* ===== verification/Request_Server.thy ===== *)
theory Request_Server
  imports Request_Processor Http_Request
begin

text \<open>
  The request processor behind the parser: the callbacks of \<^verbatim>\<open>src/http/request_processor.c\<close> collect
  the path and the query from pieces and answer at the end of the header. The laws of the interfaces
  \<open>sink\<close> and \<open>piecewise\<close> hold of them, so that a request is answered in the same way however the
  network cuts it into buffers.
\<close>

section \<open>Collecting\<close>

text \<open>A block is NULL with size 0, or the bytes collected so far and a terminator.\<close>

definition block_ok :: "string option \<Rightarrow> nat \<Rightarrow> bool" where
  "block_ok b n \<longleftrightarrow> (case b of None \<Rightarrow> n = 0 | Some s \<Rightarrow> length s = n + 1 \<and> last s = NUL)"

definition block_text :: "string option \<Rightarrow> nat \<Rightarrow> string" where
  "block_text b n = (case b of None \<Rightarrow> [] | Some s \<Rightarrow> take n s)"

definition no_nul :: "string \<Rightarrow> bool" where
  "no_nul d \<longleftrightarrow> NUL \<notin> set d"

lemma block_okD: "block_ok b n \<Longrightarrow> b = None \<and> n = 0 \<or> (\<exists>d. b = Some (d @ [NUL]) \<and> length d = n)"
  by (auto simp: block_ok_def split: option.splits) (metis Suc_eq_plus1 append_butlast_last_id diff_Suc_1 length_butlast length_greater_0_conv zero_less_Suc)

lemma save_data_eq:
  assumes "block_ok b n" and "no_nul d"
  shows "save_data b n d = (Some (block_text b n @ d @ [NUL]), n + length d)"
  using block_okD [OF assms(1)] assms(2) by (auto simp: save_data_def block_text_def no_nul_def)

definition request_ok :: "'L request \<Rightarrow> bool" where
  "request_ok r \<longleftrightarrow> block_ok (conn_path (rq_conn r)) (conn_path_size (rq_conn r)) \<and>
     block_ok (conn_query (rq_conn r)) (conn_query_size (rq_conn r))"

definition path_of :: "'L request \<Rightarrow> string" where
  "path_of r = block_text (conn_path (rq_conn r)) (conn_path_size (rq_conn r))"

definition query_of :: "'L request \<Rightarrow> string" where
  "query_of r = block_text (conn_query (rq_conn r)) (conn_query_size (rq_conn r))"

lemma block_text_length: "block_ok b n \<Longrightarrow> length (block_text b n) = n"
  using block_okD by (fastforce simp: block_text_def)

lemma save_path_eq:
  "request_ok r \<Longrightarrow> no_nul d \<Longrightarrow> save_path r d =
     r\<lparr>rq_conn := (rq_conn r)\<lparr>conn_path := Some (path_of r @ d @ [NUL]),
        conn_path_size := conn_path_size (rq_conn r) + length d\<rparr>\<rparr>"
  by (simp add: save_path_def request_ok_def save_data_eq path_of_def)

lemma save_query_eq:
  "request_ok r \<Longrightarrow> no_nul d \<Longrightarrow> save_query r d =
     r\<lparr>rq_conn := (rq_conn r)\<lparr>conn_query := Some (query_of r @ d @ [NUL]),
        conn_query_size := conn_query_size (rq_conn r) + length d\<rparr>\<rparr>"
  by (simp add: save_query_def request_ok_def save_data_eq query_of_def)

interpretation path_sink: sink save_path path_of no_nul request_ok
  by unfold_locales
    (auto simp: save_path_eq path_of_def request_ok_def block_ok_def block_text_length [unfolded block_ok_def] block_text_def
      split: option.splits)

interpretation query_sink: sink save_query query_of no_nul request_ok
  by unfold_locales
    (auto simp: save_query_eq query_of_def request_ok_def block_ok_def block_text_length [unfolded block_ok_def] block_text_def
      split: option.splits)

lemma save_twice:
  assumes "request_ok r" and "no_nul d" and "no_nul e"
  shows "save_path (save_path r d) e = save_path r (d @ e)" and "save_query (save_query r d) e = save_query r (d @ e)"
proof -
  have de: "no_nul (d @ e)" using assms by (simp add: no_nul_def)
  show "save_path (save_path r d) e = save_path r (d @ e)"
    using path_sink.good_feed [OF assms(1,2)] path_sink.collected_feed [OF assms(1,2)] assms de
    by (simp add: save_path_eq [of "save_path r d" e] save_path_eq [OF assms(1) de]) (simp add: save_path_eq [OF assms(1,2)])
  show "save_query (save_query r d) e = save_query r (d @ e)"
    using query_sink.good_feed [OF assms(1,2)] query_sink.collected_feed [OF assms(1,2)] assms de
    by (simp add: save_query_eq [of "save_query r d" e] save_query_eq [OF assms(1) de]) (simp add: save_query_eq [OF assms(1,2)])
qed

text \<open>The answer leaves the collected path and query alone.\<close>

definition same_text :: "'L request \<Rightarrow> 'L request \<Rightarrow> bool" where
  "same_text r r' \<longleftrightarrow> conn_path (rq_conn r') = conn_path (rq_conn r) \<and> conn_path_size (rq_conn r') = conn_path_size (rq_conn r) \<and>
     conn_query (rq_conn r') = conn_query (rq_conn r) \<and> conn_query_size (rq_conn r') = conn_query_size (rq_conn r)"

lemma http_lua_eval_text: "http_lua_eval V m k st r = Inr r' \<Longrightarrow> same_text r r'"
  by (auto simp: http_lua_eval_def Let_def bind_res_Inr_iff same_text_def)

lemma http_send_file_text: "http_send_file V r = Inr r' \<Longrightarrow> same_text r r'"
  by (auto simp: http_send_file_def Let_def bind_res_Inr_iff same_text_def)

lemma start_processing_text: "start_processing V m r = Inr r' \<Longrightarrow> same_text r r'"
  using http_lua_eval_text http_send_file_text
  by (fastforce simp: start_processing_def Let_def bind_res_Inr_iff same_text_def split: option.splits)

lemma end_message_text: "end_message r = Inr r' \<Longrightarrow> same_text r r'"
  by (auto simp: end_message_def Let_def bind_res_Inr_iff same_text_def split: if_splits)

section \<open>The callbacks as data\<close>

definition data_path :: "'L request res \<Rightarrow> string \<Rightarrow> 'L request res" where
  "data_path u d = bind_res u (\<lambda>r. Inr (save_path r d))"

definition data_query :: "'L request res \<Rightarrow> string \<Rightarrow> 'L request res" where
  "data_query u d = bind_res u (\<lambda>r. Inr (save_query r d))"

definition data_head :: "'L server \<Rightarrow> http_method \<Rightarrow> 'L request res \<Rightarrow> 'L request res" where
  "data_head V m u = bind_res u (start_processing V m)"

definition data_end :: "'L request res \<Rightarrow> 'L request res" where
  "data_end u = bind_res u end_message"

definition data_ok :: "'L request res \<Rightarrow> bool" where
  "data_ok u \<longleftrightarrow> (\<forall>r. u = Inr r \<longrightarrow> request_ok r)"

lemma same_text_ok: "same_text r r' \<Longrightarrow> request_ok r' = request_ok r"
  by (simp add: same_text_def request_ok_def)

interpretation processor: piecewise "request_processor_settings_init V" data_path data_query "data_head V" data_end data_ok for V
proof
  fix u :: "'a request res" and d e :: string and m
  assume ok: "data_ok u"
  show "data_ok (data_head V m u)"
    using ok by (cases u) (auto simp: data_ok_def data_head_def same_text_ok [OF start_processing_text])
  show "data_ok (data_end u)"
    using ok by (cases u) (auto simp: data_ok_def data_end_def same_text_ok [OF end_message_text])
  assume d: "NUL \<notin> set d"
  show "data_ok (data_path u d)" "data_ok (data_query u d)"
    using ok d path_sink.good_feed [of _ d] query_sink.good_feed [of _ d]
    by (auto simp: data_ok_def data_path_def data_query_def no_nul_def bind_res_Inr_iff)
  assume e: "NUL \<notin> set e"
  show "data_path (data_path u d) e = data_path u (d @ e)"
    using ok d e save_twice(1) [of _ d e] by (cases u) (auto simp: data_ok_def data_path_def no_nul_def)
  show "data_query (data_query u d) e = data_query u (d @ e)"
    using ok d e save_twice(2) [of _ d e] by (cases u) (auto simp: data_ok_def data_query_def no_nul_def)
qed (auto simp: request_processor_settings_init_def guard_fault_def data_path_def data_query_def data_head_def data_end_def
    on_body_cb_def bind_res_def fun_eq_iff split: sum.splits)

text \<open>A parser that was just reset reads a request.\<close>

definition usable :: "'L parser \<Rightarrow> bool" where
  "usable p \<longleftrightarrow> type p = HTTP_REQUEST \<and> p_index p < 2 ^ 8"

lemma reset_data_ok: "data_ok (p_data (request_processor_reset p sd fd conf))"
  by (cases "p_data p") (auto simp: data_ok_def request_processor_reset_def request_ok_def reset_conn_def block_ok_def)

lemma reset_at:
  assumes "usable p"
  shows "processor.at s_start_req (p_header_state p) (p_index p) HTTP_DELETE (p_data (request_processor_reset p sd fd conf)) 0
    (request_processor_reset p sd fd conf)"
proof -
  have "parser_ok (http_parser_init p (type p))" using assms by (simp add: usable_def parser_ok_init)
  then have "parser_ok (request_processor_reset p sd fd conf)" 
    by (simp add: request_processor_reset_def parser_ok_def split: stored_state.splits)
  then show ?thesis using assms reset_data_ok [of p sd fd conf]
    by (simp add: processor.at_def processor.ready_def processor.settled_def usable_def)
      (simp add: request_processor_reset_def http_parser_init_def)
qed

section \<open>Answers\<close>

definition answer_head :: "'L server \<Rightarrow> nat \<Rightarrow> string \<Rightarrow> string \<Rightarrow> byte list" where
  "answer_head V status status_msg mt =
     ascii (''HTTP/1.1 '' @ decimal status @ '' '' @ status_msg @ [LF] @ ''Server: Eva 1.0'' @ [LF] @
       ''Connection: close'' @ [LF] @ ''Content-Coding: identity'' @ [LF] @ ''Date: '' @ sv_date V @ [LF] @
       ''Content-Type: '' @ mt @ [CR, LF, CR, LF])"

lemma send_header_eq: "send_header V fd n msg mt = write_file fd (answer_head V n msg mt)"
  by (simp add: send_header_def answer_head_def)

text \<open>The file for a path, when the path needs no repair.\<close>

definition file_name :: "string \<Rightarrow> string" where
  "file_name path = ''./html/'' @ path @ (if last path = CHR ''/'' then ''index.html'' else [])"

definition plain_path :: "string \<Rightarrow> bool" where
  "plain_path path \<longleftrightarrow> path \<noteq> [] \<and> hd path = CHR ''/'' \<and> url_text path \<and> \<not> climbs path \<and> last path \<noteq> CHR ''.''"

lemma plain_path_text: "plain_path path \<Longrightarrow> path_text path"
  by (simp add: plain_path_def path_text_def)

lemma strncpy_terminated: "NUL \<notin> set d \<Longrightarrow> strncpy_bytes (d @ [NUL]) (length d) = strncpy_bytes d (length d)"
  by (simp add: strncpy_bytes_def c_string_append_NUL c_string_id)

lemma full_path:
  assumes "plain_path path" and "length junk = length path + 20"
  shows "\<exists>out. get_full_path junk default_file_location (length default_file_location) default_file (length default_file)
      (path @ [NUL]) (length path) = Inr out \<and> c_string out = file_name path"
proof -
  have "NUL \<notin> set path" using assms url_text_no_nul by (auto simp: plain_path_def)
  then have "get_full_path junk default_file_location (length default_file_location) default_file (length default_file)
      (path @ [NUL]) (length path) =
    get_full_path junk default_file_location (length default_file_location) default_file (length default_file) path (length path)"
    by (simp add: get_full_path_def strncpy_terminated)
  moreover have "\<exists>out. get_full_path junk ''./html/'' (length ''./html/'') ''index.html'' (length ''index.html'') path (length path) = Inr out
    \<and> c_string out = ''./html/'' @ path @ (if last path = CHR ''/'' then ''index.html'' else [])"
    using assms \<open>NUL \<notin> set path\<close> by (intro get_full_path_plain) (auto simp: plain_path_def)
  ultimately show ?thesis by (simp add: default_file_def default_file_location_def file_name_def)
qed

text \<open>What the environment has to provide for a file to be delivered.\<close>

definition junk_sized :: "'L server \<Rightarrow> bool" where
  "junk_sized V \<longleftrightarrow> (\<forall>n. length (sv_junk V n) = n)"

definition takes_all :: "'L server \<Rightarrow> bool" where
  "takes_all V \<longleftrightarrow> (\<forall>k n. n \<le> sv_accept V k n)"

definition file_answer :: "'L server \<Rightarrow> 'L httpd_conf \<Rightarrow> string \<Rightarrow> byte list option" where
  "file_answer V conf path =
     (case sv_file V (file_name path) of
        None \<Rightarrow> Some (answer_head V 404 ''NOT FOUND'' ''text/html'' @ ascii not_found)
      | Some content \<Rightarrow>
          if \<not> sv_readable V (file_name path) then None
          else (case get_mimetype (file_name path) conf of
                  Inl e \<Rightarrow> None
                | Inr mt \<Rightarrow> Some (answer_head V 200 ''OK'' mt @ content)))"

lemma http_send_file_eq:
  assumes r: "conn_path (rq_conn r) = Some (path @ [NUL])" "conn_path_size (rq_conn r) = length path"
      "client_fd (rq_conn r) = Open_File out"
    and path: "plain_path path" and env: "junk_sized V" "takes_all V" "file_answer V (rq_conf r) path = Some answer"
  shows "http_send_file V r = Inr (r\<lparr>rq_conn := (rq_conn r)\<lparr>client_fd := Open_File (out @ answer)\<rparr>\<rparr>)"
proof -
  let ?junk = "sv_junk V (length path + (length default_file_location + 1) + (length default_file + 1) + 1)"
  have "length ?junk = length path + 20" using env(1) by (simp add: junk_sized_def default_file_def default_file_location_def)
  from full_path [OF path this] obtain buf
    where buf: "get_full_path ?junk default_file_location (length default_file_location) default_file (length default_file)
      (path @ [NUL]) (length path) = Inr buf" "c_string buf = file_name path" by blast
  have sent: "received (send_file (sv_accept V) content) = content" for content
    using send_file_delivers [of "sv_accept V" content] env(2) by (simp add: takes_all_def)
  show ?thesis
    using r buf env(3) sent
    by (auto simp: http_send_file_def Let_def send_header_eq file_answer_def split: option.splits if_splits sum.splits)
qed

section \<open>Properties\<close>

text \<open>C1. Buffers do not matter: for every environment and configuration, a connection whose parser was just
  reset ends in the same parser, with the same request or answer in it, whatever buffers its bytes
  arrive in, or is refused for all of them.\<close>

theorem buffers_irrelevant:
  assumes "usable p" and "concat ds = concat es" and "[] \<notin> set ds" and "[] \<notin> set es"
  shows "run (request_processor_settings_init V) (request_processor_reset p sd fd conf) ds =
    run (request_processor_settings_init V) (request_processor_reset p sd fd conf) es"
proof -
  have "processor.ready (request_processor_reset p sd fd conf)" using processor.at_small(4) [OF reset_at [OF assms(1)]] .
  from processor.run_bytes [OF this assms(3), of V] processor.run_bytes [OF this assms(4), of V] assms(2) show ?thesis by simp
qed

text \<open>The request after its text was read, before the callback at the end of the header.\<close>

definition request_of :: "int \<Rightarrow> client_file \<Rightarrow> 'L httpd_conf \<Rightarrow> http_conn_info \<Rightarrow> string \<Rightarrow> string option \<Rightarrow> 'L request" where
  "request_of sd fd conf conn path query =
     \<lparr>rq_conn = (reset_conn conn sd fd)
        \<lparr>conn_path := Some (path @ [NUL]), conn_path_size := length path,
         conn_query := (case query of Some (c # q) \<Rightarrow> Some (c # q @ [NUL]) | _ \<Rightarrow> None),
         conn_query_size := (case query of None \<Rightarrow> 0 | Some q \<Rightarrow> length q)\<rparr>,
      rq_conf = conf\<rparr>"

lemma reset_data: "p_data p = Inr r0 \<Longrightarrow> p_data (request_processor_reset p sd fd conf) = Inr \<lparr>rq_conn = reset_conn (rq_conn r0) sd fd, rq_conf = conf\<rparr>"
  by (simp add: request_processor_reset_def)

lemma collected:
  assumes "url_text path" and "\<And>q. query = Some q \<Longrightarrow> url_text q"
  shows "processor.with_query (data_path (Inr \<lparr>rq_conn = reset_conn conn sd fd, rq_conf = conf\<rparr>) path) query =
    Inr (request_of sd fd conf conn path query)"
proof -
  let ?r = "\<lparr>rq_conn = reset_conn conn sd fd, rq_conf = conf\<rparr>"
  have r: "request_ok ?r" "path_of ?r = []" "conn_path_size (rq_conn ?r) = 0"
    by (simp_all add: request_ok_def reset_conn_def block_ok_def path_of_def block_text_def)
  have nul: "no_nul path" "\<And>q. query = Some q \<Longrightarrow> no_nul q" using assms url_text_no_nul by (auto simp: no_nul_def)
  define s where "s = save_path ?r path"
  have s: "s = \<lparr>rq_conn = (reset_conn conn sd fd)\<lparr>conn_path := Some (path @ [NUL]), conn_path_size := length path\<rparr>,
      rq_conf = conf\<rparr>"
    using save_path_eq [OF r(1) nul(1)] r by (simp add: s_def)
  have ok: "request_ok s" unfolding s_def using path_sink.good_feed r(1) nul(1) by blast
  have "query_of s = []" "conn_query_size (rq_conn s) = 0"
    by (simp_all add: s query_of_def reset_conn_def block_text_def)
  then have q: "no_nul q \<Longrightarrow> data_query (Inr s) q =
      Inr (s\<lparr>rq_conn := (rq_conn s)\<lparr>conn_query := Some (q @ [NUL]), conn_query_size := length q\<rparr>\<rparr>)" for q
    using save_query_eq [OF ok] by (simp add: data_query_def)
  have p: "data_path (Inr ?r) path = Inr s" by (simp add: data_path_def s_def)
  have s': "s = request_of sd fd conf conn path None" by (simp add: s request_of_def reset_conn_def)
  show ?thesis
  proof (cases query)
    case None
    then show ?thesis by (simp add: p s' processor.with_query_def)
  next
    case (Some t)
    show ?thesis
    proof (cases t)
      case Nil
      then show ?thesis using Some by (simp add: p processor.with_query_def) (simp add: s request_of_def reset_conn_def)
    next
      case (Cons c t')
      then show ?thesis using Some q [OF nul(2) [OF Some]]
        by (simp add: p processor.with_query_def) (simp add: s request_of_def reset_conn_def)
    qed
  qed
qed

text \<open>A whole request: what the callbacks at its end make of it.\<close>

lemma request_read:
  assumes p: "usable p" "p_data p = Inr r0" and ds: "concat ds = request_text m path query fs" "[] \<notin> set ds"
    and m: "first_letter (hd (method_strings m)) = Some m \<or> m = HTTP_PUT" "m \<noteq> HTTP_CONNECT"
    and path: "path_text path" and query: "\<And>q. query = Some q \<Longrightarrow> url_text q"
    and fs: "\<forall>f \<in> set fs. plain_name (fst f) \<and> plain_value (snd f)"
    and len: "length (request_text m path query fs) \<le> HTTP_MAX_HEADER_SIZE"
  shows "\<exists>p' h' i'. run (request_processor_settings_init V) (request_processor_reset p sd fd conf) ds = Some p' \<and>
    processor.at s_start_req h' i' m (data_end (data_head V m (Inr (request_of sd fd conf (rq_conn r0) path query)))) 0 p'"
proof -
  let ?p = "request_processor_reset p sd fd conf"
  have "processor.ready ?p" using processor.at_small(4) [OF reset_at [OF p(1)]] .
  from processor.run_bytes [OF this ds(2), of V]
  have "run (request_processor_settings_init V) ?p ds = run (request_processor_settings_init V) ?p (bytes (request_text m path query fs))"
    by (simp add: ds(1))
  moreover have "url_text path" using path by (simp add: path_text_def)
  ultimately show ?thesis
    using processor.read_request [OF reset_at [OF p(1), of sd fd conf] m path query fs len, where V = V]
    by (simp add: reset_data [OF p(2)] collected query)
qed

text \<open>The hypotheses on a request and how it arrives.\<close>

definition well_formed :: "http_method \<Rightarrow> string \<Rightarrow> string option \<Rightarrow> (string \<times> string) list \<Rightarrow> bool" where
  "well_formed m path query fs \<longleftrightarrow>
     (first_letter (hd (method_strings m)) = Some m \<or> m = HTTP_PUT) \<and> m \<noteq> HTTP_CONNECT \<and>
     path_text path \<and> (case query of None \<Rightarrow> True | Some q \<Rightarrow> url_text q) \<and>
     list_all (\<lambda>f. plain_name (fst f) \<and> plain_value (snd f)) fs \<and>
     length (request_text m path query fs) \<le> HTTP_MAX_HEADER_SIZE"

definition arrives :: "'L parser \<Rightarrow> string list \<Rightarrow> string \<Rightarrow> bool" where
  "arrives p ds text \<longleftrightarrow> usable p \<and> (\<exists>r. p_data p = Inr r) \<and> concat ds = text \<and> [] \<notin> set ds"

lemma well_formed_read:
  assumes "well_formed m path query fs" and "arrives p ds (request_text m path query fs)"
  shows "\<exists>p' conn h' i'. run (request_processor_settings_init V) (request_processor_reset p sd fd conf) ds = Some p' \<and>
    processor.at s_start_req h' i' m (data_end (data_head V m (Inr (request_of sd fd conf conn path query)))) 0 p'"
proof -
  obtain r0 where r0: "p_data p = Inr r0" and p: "usable p" "concat ds = request_text m path query fs" "[] \<notin> set ds"
    using assms(2) by (auto simp: arrives_def)
  have "\<And>q. query = Some q \<Longrightarrow> url_text q" "\<forall>f \<in> set fs. plain_name (fst f) \<and> plain_value (snd f)"
    "first_letter (hd (method_strings m)) = Some m \<or> m = HTTP_PUT" "m \<noteq> HTTP_CONNECT" "path_text path"
    "length (request_text m path query fs) \<le> HTTP_MAX_HEADER_SIZE"
    using assms(1) by (auto simp: well_formed_def list_all_iff)
  from request_read [OF p(1) r0 p(2,3) this(3,4,5,1,2,6)] show ?thesis by blast
qed

lemma request_of_fields [simp]:
  "conn_path (rq_conn (request_of sd fd conf conn path query)) = Some (path @ [NUL])"
  "conn_path_size (rq_conn (request_of sd fd conf conn path query)) = length path"
  "client_fd (rq_conn (request_of sd fd conf conn path query)) = fd"
  "rq_conf (request_of sd fd conf conn path query) = conf"
  by (simp_all add: request_of_def reset_conn_def)

lemma path_c_string: "path_text path \<Longrightarrow> c_string (path @ [NUL]) = path"
  using url_text_no_nul by (simp add: path_text_def c_string_append_NUL)

lemma end_file:
  "conn_type (rq_conn r) = CHR ''S'' \<Longrightarrow> client_fd (rq_conn r) = Open_File out \<Longrightarrow>
   end_message r = Inr (r\<lparr>rq_conn := (rq_conn r)\<lparr>client_fd := Closed_File out\<rparr>\<rparr>)"
  by (simp add: end_message_def)

lemma file_request_data:
  assumes "get_script conf (Some path) = Inr None" and path: "path_text path" "plain_path path"
    and env: "junk_sized V" "takes_all V" "file_answer V conf path = Some answer"
  shows "\<exists>r. data_end (data_head V m (Inr (request_of sd (Open_File []) conf conn path query))) = Inr r \<and>
    client_fd (rq_conn r) = Closed_File answer \<and> rq_conf r = conf"
proof -
  let ?r = "request_of sd (Open_File []) conf conn path query"
  let ?s = "?r\<lparr>rq_conn := (rq_conn ?r)\<lparr>conn_type := CHR ''S''\<rparr>\<rparr>"
  have "http_send_file V ?s = Inr (?s\<lparr>rq_conn := (rq_conn ?s)\<lparr>client_fd := Open_File ([] @ answer)\<rparr>\<rparr>)"
    using path env by (intro http_send_file_eq) simp_all
  then have "start_processing V m ?r = Inr (?s\<lparr>rq_conn := (rq_conn ?s)\<lparr>client_fd := Open_File answer\<rparr>\<rparr>)"
    using assms(1) path(1) by (simp add: start_processing_def path_c_string)
  then show ?thesis by (simp add: data_end_def data_head_def end_message_def)
qed

text \<open>C2. A request for a file: a well-formed request for a path that no script serves, without
  two adjacent dots and not ending in a dot, in whatever buffers it arrives, is answered with the
  header and the contents of that file under the document root (of \<open>index.html\<close> for a
  path that ends in a slash), or with the error page when there is none, and the connection is closed.\<close>

theorem file_request_served:
  assumes "well_formed m path query fs" and "arrives p ds (request_text m path query fs)" and "plain_path path"
    and "get_script conf (Some path) = Inr None"
    and "junk_sized V" and "takes_all V" and "file_answer V conf path = Some answer"
  shows "\<exists>p' r. run (request_processor_settings_init V) (request_processor_reset p sd (Open_File []) conf) ds = Some p' \<and>
    p_state p' = Running s_start_req \<and> p_data p' = Inr r \<and> client_fd (rq_conn r) = Closed_File answer"
proof -
  obtain p' conn h' i'
    where p': "run (request_processor_settings_init V) (request_processor_reset p sd (Open_File []) conf) ds = Some p'"
      "processor.at s_start_req h' i' m (data_end (data_head V m (Inr (request_of sd (Open_File []) conf conn path query)))) 0 p'"
    using well_formed_read [OF assms(1,2), of V sd "Open_File []" conf] by blast
  have "path_text path" using assms(1) by (simp add: well_formed_def)
  from file_request_data [OF assms(4) this assms(3,5,6,7), of m sd conn query] p'
  show ?thesis by (auto simp: processor.at_def)
qed

text \<open>A server for the witnesses: every file holds \<open>hi\<close>, and a called function returns nothing.\<close>

definition demo_server :: "lua_value list server" where
  "demo_server =
     \<lparr>sv_api = list_api (\<lambda>f st. Inr []), sv_newstate = (\<lambda>f. []), sv_getglobal = (\<lambda>L name. L @ [VFun 1]),
      sv_newstream = (\<lambda>L s. L @ [VUser 64 16]), sv_written = (\<lambda>L. ascii ''ok''), sv_date = ''today'',
      sv_file = (\<lambda>f. Some (ascii ''hi'')), sv_readable = (\<lambda>f. True), sv_accept = (\<lambda>k n. n), sv_junk = (\<lambda>n. replicate n CR)\<rparr>"

definition demo_conf :: "lua_value list httpd_lua_state list option \<Rightarrow> lua_value list httpd_conf" where
  "demo_conf sts = \<lparr>mimetypes = [no_mimetype], default_mimetype = no_mimetype\<lparr>mimetype := ''text/plain''\<rparr>, port = 80, lua_states = sts\<rparr>"

definition demo_conn :: http_conn_info where
  "demo_conn = \<lparr>conn_path = None, conn_path_size = 7, conn_query = None, conn_query_size = 7, conn_host = None,
     conn_host_size = None, client_fd = Null_File, client_sd = 0, conn_lua = None, conn_type = NUL\<rparr>"

definition demo_parser :: "lua_value list parser" where
  "demo_parser = request_processor_init (raw_parser (Inl Null_Deref)) demo_conn (demo_conf None)"

definition demo_headers :: "(string \<times> string) list" where
  "demo_headers = [(''Host'', ''localhost''), (''User-Agent'', ''x'')]"

lemma demo_env: "junk_sized demo_server" "takes_all demo_server" "file_answer demo_server (demo_conf sts) ''/a''
    = Some (answer_head demo_server 200 ''OK'' ''text/plain'' @ ascii ''hi'')"
  by (simp_all add: junk_sized_def takes_all_def demo_server_def file_answer_def demo_conf_def get_mimetype_def rindex_tail_def
      file_name_def no_mimetype_def)

lemma demo_arrives: "arrives demo_parser [take 9 t, drop 9 t] t" if "9 < length t"
  using that by (auto simp: arrives_def usable_def demo_parser_def request_processor_init_def http_parser_init_def raw_parser_def)

lemma demo_well_formed: "well_formed HTTP_GET ''/a'' (Some ''q=1'') demo_headers"
  by code_simp

lemma demo_length: "9 < length (request_text HTTP_GET ''/a'' (Some ''q=1'') demo_headers)"
  by code_simp

theorem file_request_served_witness:
  "\<exists>p' r. run (request_processor_settings_init demo_server)
       (request_processor_reset demo_parser 5 (Open_File []) (demo_conf None))
       [take 9 (request_text HTTP_GET ''/a'' (Some ''q=1'') demo_headers), drop 9 (request_text HTTP_GET ''/a'' (Some ''q=1'') demo_headers)]
     = Some p' \<and>
    p_state p' = Running s_start_req \<and> p_data p' = Inr r \<and>
    client_fd (rq_conn r) = Closed_File (answer_head demo_server 200 ''OK'' ''text/plain'' @ ascii ''hi'')"
proof (rule file_request_served [OF demo_well_formed demo_arrives [OF demo_length] _ _ demo_env])
  show "plain_path ''/a''" by code_simp
  show "get_script (demo_conf None) (Some ''/a'') = Inr None" by (simp add: get_script_def demo_conf_def)
qed

theorem buffers_irrelevant_witness:
  "run (request_processor_settings_init demo_server) (request_processor_reset demo_parser 5 (Open_File []) (demo_conf None))
     [''GET /'', ''a?b HT''] =
   run (request_processor_settings_init demo_server) (request_processor_reset demo_parser 5 (Open_File []) (demo_conf None))
     [''GE'', ''T /a?'', ''b HT'']"
  by (rule buffers_irrelevant)
    (simp_all add: usable_def demo_parser_def request_processor_init_def http_parser_init_def raw_parser_def)

section \<open>Requests for scripts\<close>

text \<open>
  What the code relies on of the interpreter beside \<open>lua_laws\<close>: a global name and a new stream
  each push one value, and the global \<open>dispatch\<close> of a loaded script is a function.
\<close>

definition server_laws :: "'L server \<Rightarrow> ('L \<Rightarrow> lua_value list) \<Rightarrow> bool" where
  "server_laws V stk \<longleftrightarrow>
     lua_laws (sv_api V) stk \<and>
     (\<forall>L. \<exists>f. stk (sv_getglobal V L ''dispatch'') = stk L @ [VFun f]) \<and>
     (\<forall>L s. \<exists>a n. stk (sv_newstream V L s) = stk L @ [VUser a n])"

definition lua_string :: "string option \<Rightarrow> lua_value" where
  "lua_string s = (case s of None \<Rightarrow> VNil | Some t \<Rightarrow> if t = [] then VNil else VStr (ascii t))"

lemma push_call_stack:
  assumes "server_laws V stk" and "path_text path" and "\<And>q. query = Some q \<Longrightarrow> url_text q"
  shows "\<exists>f a n. stk (push_call V L (rq_conn (request_of sd fd conf conn path query)) fd' m) =
    [VFun f, VStr (ascii path), lua_string query, VUser a n, VStr (ascii (method_name m))]"
proof -
  let ?A = "sv_api V"
  have laws: "lua_laws ?A stk" using assms(1) by (simp add: server_laws_def)
  have "\<exists>f. stk (sv_getglobal V L' ''dispatch'') = stk L' @ [VFun f]" for L'
    using assms(1) by (simp add: server_laws_def)
  from this [of "lua_settop ?A L 0"] obtain f where f: "stk (sv_getglobal V (lua_settop ?A L 0) ''dispatch'') = [VFun f]"
    by (auto simp: lua_settop_0 [OF laws])
  have stream: "\<exists>a n. stk (fst (lua_pushfile V L' fd')) = stk L' @ [VUser a n]" for L'
    using assms(1) by (simp add: server_laws_def lua_pushfile_def)
  have nul: "NUL \<notin> set path" using assms(2) url_text_no_nul by (simp add: path_text_def)
  have path: "stk (lua_pushstring ?A L' (Some (path @ [NUL]))) = stk L' @ [VStr (ascii path)]" for L'
    using lua_push_eq(4) [OF laws] nul by (simp add: lua_pushstring_def c_string_append_NUL)
  have query: "stk (lua_pushstring ?A L' (conn_query (rq_conn (request_of sd fd conf conn path query)))) = stk L' @ [lua_string query]" for L'
  proof (cases "\<exists>c q. query = Some (c # q)")
    case True
    then obtain c q where q: "query = Some (c # q)" by blast
    then have "NUL \<notin> set (c # q)" using assms(3) url_text_no_nul by blast
    then have "c_string ((c # q) @ [NUL]) = c # q" by (rule c_string_append_NUL)
    then show ?thesis using q lua_push_eq(4) [OF laws] by (simp add: request_of_def reset_conn_def lua_pushstring_def lua_string_def)
  next
    case False
    then have "query = None \<or> query = Some []" by (metis list.exhaust option.exhaust)
    then show ?thesis using lua_push_eq(1) [OF laws] by (auto simp: request_of_def reset_conn_def lua_pushstring_def lua_string_def)
  qed
  have "c_string (method_name m) = method_name m" by (rule c_string_id) (simp add: method_name_def)
  then have name: "stk (lua_pushstring ?A L' (Some (method_name m))) = stk L' @ [VStr (ascii (method_name m))]" for L'
    using lua_push_eq(4) [OF laws] by (simp add: lua_pushstring_def)
  let ?L2 = "lua_pushstring ?A (sv_getglobal V (lua_settop ?A L 0) ''dispatch'') (Some (path @ [NUL]))"
  let ?L3 = "lua_pushstring ?A ?L2 (conn_query (rq_conn (request_of sd fd conf conn path query)))"
  have "stk ?L3 = [VFun f, VStr (ascii path), lua_string query]" by (simp add: f path query)
  with stream [of ?L3] obtain a n where "stk (fst (lua_pushfile V ?L3 fd')) = [VFun f, VStr (ascii path), lua_string query, VUser a n]" by auto
  then have "stk (push_call V L (rq_conn (request_of sd fd conf conn path query)) fd' m) =
      [VFun f, VStr (ascii path), lua_string query, VUser a n, VStr (ascii (method_name m))]"
    by (simp add: push_call_def Let_def name)
  then show ?thesis by blast
qed

text \<open>A pool with \<open>t + 1\<close> idle states, below the capacity of its array.\<close>

definition pool_ok :: "'L httpd_lua_state \<Rightarrow> bool" where
  "pool_ok st \<longleftrightarrow> -1 \<le> idle_state_top st \<and> idle_state_top st < int (length (idle_states st)) \<and>
     int (length (idle_states st)) = idle_stack_size st \<and> (\<forall>k. int k \<le> idle_state_top st \<longrightarrow> idle_states st ! k \<noteq> None)"

lemma pool_get_return:
  assumes "pool_ok st" and "0 \<le> idle_state_top st"
  shows "\<exists>L st1. get_lua_state V st = Inr (L, st1) \<and> idle_states st ! nat (idle_state_top st) = Some L \<and>
    (\<forall>L'. \<exists>st2. return_lua_state st1 L' = Inr st2 \<and> st2 = st\<lparr>idle_states := (idle_states st)[nat (idle_state_top st) := Some L']\<rparr> \<and>
      pool_ok st2)"
proof -
  let ?t = "nat (idle_state_top st)"
  have t: "?t < length (idle_states st)" "int ?t = idle_state_top st" using assms by (auto simp: pool_ok_def)
  then have "idle_states st ! ?t \<noteq> None" using assms(1) by (simp add: pool_ok_def)
  then obtain L where L: "idle_states st ! ?t = Some L" by blast
  then have "get_lua_state V st = Inr (L, st\<lparr>idle_state_top := idle_state_top st - 1\<rparr>)"
    using t assms(2) by (simp add: get_lua_state_def arr_read_def)
  moreover have "return_lua_state (st\<lparr>idle_state_top := idle_state_top st - 1\<rparr>) L' =
      Inr (st\<lparr>idle_states := (idle_states st)[?t := Some L']\<rparr>)" for L'
    using t assms by (simp add: return_lua_state_def arr_write_def pool_ok_def)
  moreover have "pool_ok (st\<lparr>idle_states := (idle_states st)[?t := Some L']\<rparr>)" for L'
    using assms by (auto simp: pool_ok_def nth_list_update)
  ultimately show ?thesis using L by blast
qed

text \<open>
  The effect of a request for script number \<open>k\<close>, whose pool has the idle state \<open>L\<close> on top: the call is
  pushed on \<open>L\<close>, evaluated, and the state goes back.
\<close>

lemma script_request_data:
  assumes sc: "get_script conf (Some path) = Inr (Some k)" "lua_states conf = Some sts" "k < length sts"
    and path: "path_text path" and pool: "pool_ok (sts ! k)" "0 \<le> idle_state_top (sts ! k)"
    and call: "\<And>L. \<exists>x. lua_eval (sv_api V) L = Inr x"
  shows "\<exists>r L fd. data_end (data_head V m (Inr (request_of sd (Open_File []) conf conn path query))) = Inr r \<and>
    client_fd (rq_conn r) = Closed_File (answer_head V 200 ''OK'' (script_mimetype (sts ! k)) @
      sv_written V (push_call V L (rq_conn (request_of sd (Open_File []) conf conn path query)) fd m)) \<and>
    (\<exists>sts'. lua_states (rq_conf r) = Some sts' \<and> length sts' = length sts \<and> (\<forall>j < length sts. j \<noteq> k \<longrightarrow> sts' ! j = sts ! j) \<and>
      pool_ok (sts' ! k) \<and> idle_state_top (sts' ! k) = idle_state_top (sts ! k))"
proof -
  let ?r = "request_of sd (Open_File []) conf conn path query" and ?st = "sts ! k"
  let ?s = "?r\<lparr>rq_conn := (rq_conn ?r)\<lparr>conn_type := CHR ''L'', conn_lua := Some k\<rparr>\<rparr>"
  let ?head = "answer_head V 200 ''OK'' (script_mimetype ?st)"
  let ?fd = "Open_File ?head" and ?conn = "rq_conn ?s"
  obtain L where L: "idle_states ?st ! nat (idle_state_top ?st) = Some L" using pool_get_return [OF pool] by blast
  let ?w = "sv_written V (push_call V L ?conn ?fd m)"
  obtain L' ret where ev: "lua_eval (sv_api V) (push_call V L ?conn ?fd m) = Inr (L', ret)"
    using call [of "push_call V L ?conn ?fd m"] by auto
  obtain st1 where get: "get_lua_state V ?st = Inr (L, st1)"
    and give: "\<exists>st2. return_lua_state st1 L' = Inr st2 \<and>
      st2 = ?st\<lparr>idle_states := (idle_states ?st)[nat (idle_state_top ?st) := Some L']\<rparr> \<and> pool_ok st2"
    using pool_get_return [OF pool, of V] L by fastforce
  then obtain st2 where st2: "return_lua_state st1 L' = Inr st2" "pool_ok st2" "idle_state_top st2 = idle_state_top ?st" by auto
  have "http_lua_eval V m k ?st ?s =
      Inr (?s\<lparr>rq_conn := ?conn\<lparr>client_fd := Closed_File (?head @ ?w)\<rparr>, rq_conf := set_script (rq_conf ?s) k st2\<rparr>)"
    using get ev st2(1) by (simp add: http_lua_eval_def Let_def send_header_eq)
  moreover have "start_processing V m ?r = http_lua_eval V m k ?st ?s"
    using sc path by (simp add: start_processing_def path_c_string arr_read_def)
  ultimately have "data_end (data_head V m (Inr ?r)) =
      Inr (?s\<lparr>rq_conn := ?conn\<lparr>client_fd := Closed_File (?head @ ?w)\<rparr>, rq_conf := set_script (rq_conf ?s) k st2\<rparr>)"
    by (simp add: data_end_def data_head_def end_message_def)
  moreover have "lua_states (set_script conf k st2) = Some (sts[k := st2])" using sc(2) by (simp add: set_script_def)
  moreover have "push_call V L ?conn ?fd m = push_call V L (rq_conn ?r) ?fd m" by (simp add: push_call_def)
  ultimately show ?thesis using st2 sc(3)
    by (intro exI [of _ "?s\<lparr>rq_conn := ?conn\<lparr>client_fd := Closed_File (?head @ ?w)\<rparr>, rq_conf := set_script (rq_conf ?s) k st2\<rparr>"]
        exI [of _ L] exI [of _ ?fd]) auto
qed

text \<open>C3. A request for a script: a well-formed request for a path that a script serves, in whatever buffers
  it arrives, is answered with the header and what the script's \<open>dispatch\<close> wrote; \<open>dispatch\<close> is
  called with exactly four arguments, the path, the query (nil when there is none or it is empty), the
  handle of the client and the name of the method; the idle state that was taken is put back, and
  the pools of other scripts are untouched.\<close>

theorem script_request_dispatched:
  assumes "well_formed m path query fs" and "arrives p ds (request_text m path query fs)"
    and "get_script conf (Some path) = Inr (Some k)" and "lua_states conf = Some sts" and "k < length sts"
    and "pool_ok (sts ! k)" and "0 \<le> idle_state_top (sts ! k)"
    and "server_laws V stk" and "\<And>L. \<exists>x. lua_eval (sv_api V) L = Inr x"
  shows "\<exists>p' r L f a n sts'.
    run (request_processor_settings_init V) (request_processor_reset p sd (Open_File []) conf) ds = Some p' \<and>
    p_data p' = Inr r \<and>
    client_fd (rq_conn r) = Closed_File (answer_head V 200 ''OK'' (script_mimetype (sts ! k)) @ sv_written V L) \<and>
    stk L = [VFun f, VStr (ascii path), lua_string query, VUser a n, VStr (ascii (method_name m))] \<and>
    lua_states (rq_conf r) = Some sts' \<and> pool_ok (sts' ! k) \<and> idle_state_top (sts' ! k) = idle_state_top (sts ! k) \<and>
    length sts' = length sts \<and> (\<forall>j < length sts. j \<noteq> k \<longrightarrow> sts' ! j = sts ! j)"
proof -
  obtain p' conn h' i'
    where p': "run (request_processor_settings_init V) (request_processor_reset p sd (Open_File []) conf) ds = Some p'"
      "processor.at s_start_req h' i' m (data_end (data_head V m (Inr (request_of sd (Open_File []) conf conn path query)))) 0 p'"
    using well_formed_read [OF assms(1,2), of V sd "Open_File []" conf] by blast
  have ok: "path_text path" "\<And>q. query = Some q \<Longrightarrow> url_text q" using assms(1) by (auto simp: well_formed_def)
  obtain r L fd where r: "p_data p' = Inr r"
    "client_fd (rq_conn r) = Closed_File (answer_head V 200 ''OK'' (script_mimetype (sts ! k)) @
      sv_written V (push_call V L (rq_conn (request_of sd (Open_File []) conf conn path query)) fd m))"
    "\<exists>sts'. lua_states (rq_conf r) = Some sts' \<and> length sts' = length sts \<and> (\<forall>j < length sts. j \<noteq> k \<longrightarrow> sts' ! j = sts ! j) \<and>
      pool_ok (sts' ! k) \<and> idle_state_top (sts' ! k) = idle_state_top (sts ! k)"
    using script_request_data [OF assms(3,4,5) ok(1) assms(6,7,9), of m sd conn query] p'(2)
    by (auto simp: processor.at_def)
  with p'(1) push_call_stack [OF assms(8) ok, where L = L and sd = sd and fd = "Open_File []" and conf = conf and conn = conn and fd' = fd and m = m] show ?thesis by blast
qed

definition demo_script :: "lua_value list httpd_lua_state" where
  "demo_script = \<lparr>pattern = Some ''/a'', pattern_size = 2, idle_state_top = 0, idle_stack_size = 3,
     idle_states = [Some [VNil], None, None], filename = ''a.lua'', script_mimetype = ''text/html''\<rparr>"

lemma demo_server_laws: "server_laws demo_server id"
  using list_api_laws [of "\<lambda>f st. Inr []"] by (simp add: server_laws_def demo_server_def)

lemma demo_server_eval: "\<exists>x. lua_eval (sv_api demo_server) L = Inr x"
  by (auto simp: lua_eval_def lua_eval_part_def demo_server_def list_api_def list_pcall_def Let_def split: lua_status.splits)

theorem script_request_dispatched_witness:
  "\<exists>p' r L f a n sts'.
    run (request_processor_settings_init demo_server)
      (request_processor_reset demo_parser 5 (Open_File []) (demo_conf (Some [demo_script])))
      [take 9 (request_text HTTP_GET ''/a'' (Some ''q=1'') demo_headers), drop 9 (request_text HTTP_GET ''/a'' (Some ''q=1'') demo_headers)]
      = Some p' \<and>
    p_data p' = Inr r \<and>
    client_fd (rq_conn r) = Closed_File (answer_head demo_server 200 ''OK'' (script_mimetype ([demo_script] ! 0)) @ sv_written demo_server L) \<and>
    id L = [VFun f, VStr (ascii ''/a''), lua_string (Some ''q=1''), VUser a n, VStr (ascii (method_name HTTP_GET))] \<and>
    lua_states (rq_conf r) = Some sts' \<and> pool_ok (sts' ! 0) \<and> idle_state_top (sts' ! 0) = idle_state_top ([demo_script] ! 0) \<and>
    length sts' = length [demo_script] \<and> (\<forall>j < length [demo_script]. j \<noteq> 0 \<longrightarrow> sts' ! j = [demo_script] ! j)"
proof (rule script_request_dispatched [OF demo_well_formed demo_arrives [OF demo_length] _ _ _ _ _ demo_server_laws demo_server_eval])
  show "get_script (demo_conf (Some [demo_script])) (Some ''/a'') = Inr (Some 0)" by code_simp
  show "pool_ok ([demo_script] ! 0)" by (simp add: pool_ok_def demo_script_def)
qed (simp_all add: demo_conf_def demo_script_def)

section \<open>What goes wrong\<close>

lemma closed_fault:
  assumes "client_fd (rq_conn r) = Closed_File out" shows "\<exists>e. start_processing V m r = Inl e"
  using assms
  by (cases "start_processing V m r")
    (auto simp: start_processing_def http_lua_eval_def http_send_file_def send_header_eq Let_def bind_res_Inr_iff
      split: option.splits)

lemma collected_closed:
  assumes "client_fd (rq_conn r) = Closed_File out"
  shows "\<exists>r'. processor.with_query (data_path (Inr r) path) query = Inr r' \<and> client_fd (rq_conn r') = Closed_File out"
  using assms
  by (auto simp: processor.with_query_def data_path_def data_query_def save_path_def save_query_def split: option.splits prod.splits)

text \<open>
  After a request for a file that is answered, the bytes of any further well-formed request end in a
  fault, since the stream of the client was closed after the first answer, although the parser accepts
  them. (The channel delivers such bytes only when they share a buffer with the end of the first request.)
\<close>

lemma pipelined_request_faults:
  assumes "well_formed m path query fs" and "plain_path path" and "get_script conf (Some path) = Inr None"
    and "junk_sized V" and "takes_all V" and "file_answer V conf path = Some answer"
    and "well_formed m' path' query' fs'" and "arrives p ds (request_text m path query fs @ request_text m' path' query' fs')"
  shows "\<exists>p' e. run (request_processor_settings_init V) (request_processor_reset p sd (Open_File []) conf) ds = Some p' \<and>
    p_data p' = Inl e"
proof -
  let ?S = "request_processor_settings_init V" and ?p = "request_processor_reset p sd (Open_File []) conf"
  let ?t = "request_text m path query fs" and ?t' = "request_text m' path' query' fs'"
  have p: "usable p" "\<exists>r. p_data p = Inr r" "concat ds = ?t @ ?t'" "[] \<notin> set ds" using assms(8) by (auto simp: arrives_def)
  have "processor.ready ?p" using processor.at_small(4) [OF reset_at [OF p(1)]] .
  from processor.run_bytes [OF this p(4), of V] have split: "run ?S ?p ds = Option.bind (run ?S ?p (bytes ?t)) (\<lambda>q. run ?S q (bytes ?t'))"
    by (simp add: p(3) processor.bytes_append run_append)
  have "arrives p (bytes ?t) ?t" using p by (auto simp: arrives_def bytes_def)
  from well_formed_read [OF assms(1) this, of V sd "Open_File []" conf] obtain p1 conn h i
    where p1: "run ?S ?p (bytes ?t) = Some p1"
      "processor.at s_start_req h i m (data_end (data_head V m (Inr (request_of sd (Open_File []) conf conn path query)))) 0 p1"
    by blast
  have "path_text path" using assms(1) by (simp add: well_formed_def)
  from file_request_data [OF assms(3) this assms(2,4,5,6), of m sd conn query] obtain r
    where r: "data_end (data_head V m (Inr (request_of sd (Open_File []) conf conn path query))) = Inr r"
      "client_fd (rq_conn r) = Closed_File answer" by blast
  with p1(2) have at: "processor.at s_start_req h i m (Inr r) 0 p1" by simp
  have wf: "first_letter (hd (method_strings m')) = Some m' \<or> m' = HTTP_PUT" "m' \<noteq> HTTP_CONNECT" "path_text path'"
    "\<And>q. query' = Some q \<Longrightarrow> url_text q" "\<forall>f \<in> set fs'. plain_name (fst f) \<and> plain_value (snd f)"
    "length ?t' \<le> HTTP_MAX_HEADER_SIZE"
    using assms(7) by (auto simp: well_formed_def list_all_iff)
  obtain p2 h2 i2 where p2: "run ?S p1 (bytes ?t') = Some p2"
    "processor.at s_start_req h2 i2 m' (data_end (data_head V m' (processor.with_query (data_path (Inr r) path') query'))) 0 p2"
    using processor.read_request [OF at wf, where V = V] by blast
  obtain r' where r': "processor.with_query (data_path (Inr r) path') query' = Inr r'" "client_fd (rq_conn r') = Closed_File answer"
    using collected_closed [OF r(2)] by blast
  obtain e where "start_processing V m' r' = Inl e" using closed_fault [OF r'(2)] by blast
  with r'(1) have "data_end (data_head V m' (processor.with_query (data_path (Inr r) path') query')) = Inl e"
    by (simp add: data_end_def data_head_def)
  with p2 p1(1) split show ?thesis by (simp add: processor.at_def)
qed

text \<open>A request line without a path (here with an absolute URL that is only a host name), as soon as a
  script is configured: the path handed to \<open>strncmp\<close> is NULL.\<close>

theorem request_without_path_crashes:
  "map_option p_data (run (request_processor_settings_init demo_server)
      (request_processor_reset demo_parser 5 (Open_File []) (demo_conf (Some [demo_script])))
      [crlf [''GET http://h HTTP/1.1'', '''']]) = Some (Inl Null_Deref)"
  by code_simp

text \<open>The guard of the pool of Lua states allows two states too many: a state that comes back when the
  array is full is written behind it.\<close>

theorem full_pool_overflows:
  assumes "pool_ok st" and "idle_state_top st = idle_stack_size st - 1"
  shows "return_lua_state st L = Inl Out_Of_Bounds"
proof -
  have "nat (idle_stack_size st) = length (idle_states st)" using assms(1) unfolding pool_ok_def by (metis nat_int)
  then show ?thesis using assms by (simp add: return_lua_state_def pool_ok_def arr_write_def)
qed

theorem full_pool_overflows_witness:
  "return_lua_state (demo_script\<lparr>idle_state_top := 2, idle_states := [Some [], Some [], Some []]\<rparr>) [] = Inl Out_Of_Bounds"
proof (rule full_pool_overflows)
  show "pool_ok (demo_script\<lparr>idle_state_top := 2, idle_states := [Some [], Some [], Some []]\<rparr>)"
    by (auto simp: pool_ok_def demo_script_def nth_Cons split: nat.split)
qed (simp add: demo_script_def)

end
