(* ===== verification/Channel.thy ===== *)
theory Channel
  imports Prelude
begin

text \<open>
  \<^verbatim>\<open>src/comm/channel.c\<close>: a listening socket and its clients. \<open>mb_channel_receive\<close>, the loop of the
  HTTP server around \<open>select\<close>, is modelled whole: the descriptor sets, the array of client
  records with its growth and shrinkage, the calls of the three handlers. The operating system
  and the handlers are functions on an unknown environment \<open>'e\<close>. Descriptors are natural
  numbers, an \<open>fd_set\<close> is an array of \<open>FD_SETSIZE\<close> bits. Loops that may run for ever are
  \<open>partial_function (option)\<close>.
\<close>

section \<open>The environment\<close>

definition FD_SETSIZE :: nat where "FD_SETSIZE = 1024"
definition CLIENTS :: int where "CLIENTS = 5"
definition CHANNEL_BUFFER :: nat where "CHANNEL_BUFFER = 256"
definition CHANNEL_BACKLOG :: int where "CHANNEL_BACKLOG = 32"

datatype recv_result = Received "byte list" | Closed | Would_Block | Bad_Descriptor | Receive_Error

type_synonym aux = "nat option"

text \<open>
  \<open>os_select\<close> gives the number of ready descriptors and the changed set; \<open>os_realloc\<close> says
  whether \<open>realloc\<close> returns memory; \<open>os_sockopt\<close> is the result of \<open>setsockopt\<close>, \<open>os_ioctl\<close> of \<open>ioctl\<close>.
\<close>

record 'e os =
  os_alive :: "'e \<Rightarrow> bool"
  os_select :: "'e \<Rightarrow> nat \<Rightarrow> bool list \<Rightarrow> 'e \<times> int \<times> bool list"
  os_accept :: "'e \<Rightarrow> 'e \<times> int"
  os_sockopt :: "'e \<Rightarrow> nat \<Rightarrow> 'e \<times> int"
  os_ioctl :: "'e \<Rightarrow> nat \<Rightarrow> 'e \<times> int"
  os_recv :: "'e \<Rightarrow> nat \<Rightarrow> 'e \<times> recv_result"
  os_close :: "'e \<Rightarrow> nat \<Rightarrow> 'e"
  os_realloc :: "'e \<Rightarrow> 'e \<times> bool"
  os_socket :: "'e \<Rightarrow> 'e \<times> int"
  os_connect :: "'e \<Rightarrow> int \<Rightarrow> string \<Rightarrow> 'e \<times> int"
  os_unlink :: "'e \<Rightarrow> string \<Rightarrow> 'e"
  os_bind :: "'e \<Rightarrow> int \<Rightarrow> 'e \<times> int"
  os_listen :: "'e \<Rightarrow> int \<Rightarrow> int \<Rightarrow> 'e \<times> int"
  os_send :: "'e \<Rightarrow> int \<Rightarrow> byte list \<Rightarrow> 'e \<times> int"

record 'e mb_handler =
  part_cb :: "'e \<Rightarrow> nat \<Rightarrow> byte list \<Rightarrow> int \<Rightarrow> aux \<Rightarrow> 'e \<times> int \<times> aux"
  begin_cb :: "'e \<Rightarrow> nat \<Rightarrow> aux \<Rightarrow> 'e \<times> aux"
  end_cb :: "'e \<Rightarrow> nat \<Rightarrow> aux \<Rightarrow> 'e \<times> aux"

text \<open>
  \<open>position\<close> counts the bytes of one uninterrupted read in an \<open>int\<close>, and wraps around as gcc compiles it
  (\<open>c_int\<close>); the other numbers of the loop are descriptors and sizes of the array of clients, which stay
  within \<open>FD_SETSIZE + CLIENTS\<close>.
\<close>

record client_info =
  position :: int
  aux_data :: aux

text \<open>The local variables of \<open>mb_channel_receive\<close>.\<close>

record 'e chan =
  ch_env :: 'e
  master_set :: "bool list"
  working_set :: "bool list"
  max_sd :: nat
  max_client :: int
  clients_length :: int
  clients :: "client_info list"

definition no_client :: client_info where
  "no_client = \<lparr>position = 0, aux_data = None\<rparr>"

section \<open>Helpers\<close>

definition set_non_blocking :: "'e os \<Rightarrow> 'e \<Rightarrow> nat \<Rightarrow> bool \<Rightarrow> 'e \<times> int" where
  "set_non_blocking P e sd strict =
     (case os_sockopt P e sd of (e1, ret) \<Rightarrow>
        if ret < 0 then (if strict then os_close P e1 sd else e1, -1)
        else (case os_ioctl P e1 sd of (e2, ret) \<Rightarrow>
          if ret < 0 then (if strict then os_close P e2 sd else e2, -1)
          else (e2, 1)))"

text \<open>\<open>realloc_clients\<close> to \<open>n\<close> records: new records are arbitrary (\<open>junk\<close>); when \<open>realloc\<close> fails the
  old block is kept.\<close>

definition realloc_clients ::
    "'e os \<Rightarrow> client_info \<Rightarrow> 'e \<Rightarrow> client_info list \<Rightarrow> nat \<Rightarrow> 'e \<times> client_info list" where
  "realloc_clients P junk e block n =
     (case os_realloc P e of
        (e', True) \<Rightarrow> (e', take n block @ replicate (n - length block) junk)
      | (e', False) \<Rightarrow> (e', block))"

text \<open>The array follows the largest client: it grows, with cleared records, or shrinks.\<close>

definition resize_clients :: "'e os \<Rightarrow> client_info \<Rightarrow> 'e chan \<Rightarrow> 'e chan res" where
  "resize_clients P junk s =
     (if max_client s \<ge> clients_length s then
        let new_clients = max_client s - clients_length s + CLIENTS;
            (e, block) = realloc_clients P junk (ch_env s) (clients s) (nat (clients_length s + new_clients))
        in bind_res (arr_copy block (nat (clients_length s)) (replicate (nat new_clients) no_client)) (\<lambda>block'.
             Inr (s\<lparr>ch_env := e, clients := block', clients_length := clients_length s + new_clients\<rparr>))
      else if max_client s < clients_length s - CLIENTS then
        let n = max_client s + 1;
            (e, block) = realloc_clients P junk (ch_env s) (clients s) (nat n)
        in Inr (s\<lparr>ch_env := e, clients := block, clients_length := n\<rparr>)
      else Inr s)"

text \<open>The loop that looks for the largest descriptor left.\<close>

fun lower_max :: "bool list \<Rightarrow> nat \<Rightarrow> nat res" where
  "lower_max fds 0 = bind_res (arr_read fds 0) (\<lambda>b. if b then Inr 0 else Inl Out_Of_Bounds)"
| "lower_max fds (Suc m) = bind_res (arr_read fds (Suc m)) (\<lambda>b. if b then Inr (Suc m) else lower_max fds m)"

section \<open>Opening a channel\<close>

datatype addr_type = ADDR_UNIX | ADDR_INET

record mb_channel =
  mb_sd :: int
  mb_type :: addr_type
  mb_alive :: bool
  mb_name :: string

text \<open>The size of \<open>sun_path\<close>: \<open>strcpy\<close> writes the path and its terminator.\<close>

definition SUN_PATH :: nat where "SUN_PATH = 108"

definition fill_path :: "string \<Rightarrow> unit res" where
  "fill_path path = (if length path + 1 \<le> SUN_PATH then Inr () else Inl Out_Of_Bounds)"

text \<open>The common end of the two functions that bind: \<open>bind\<close>, then \<open>listen\<close>; a failure closes the socket.\<close>

definition bind_and_listen :: "'e os \<Rightarrow> 'e \<Rightarrow> mb_channel \<Rightarrow> 'e \<times> mb_channel option" where
  "bind_and_listen P e channel =
     (case os_bind P e (mb_sd channel) of (e1, ret) \<Rightarrow>
        if ret < 0 then (os_close P e1 (nat (mb_sd channel)), None)
        else
          (case os_listen P e1 (mb_sd channel) CHANNEL_BACKLOG of (e2, ret) \<Rightarrow>
             if ret < 0 then (os_close P e2 (nat (mb_sd channel)), None) else (e2, Some channel)))"

definition mb_channel_bind_path :: "'e os \<Rightarrow> 'e \<Rightarrow> string \<Rightarrow> ('e \<times> mb_channel option) res" where
  "mb_channel_bind_path P e path =
     (case os_socket P e of (e1, sd) \<Rightarrow>
        if sd < 0 then Inr (e1, None)
        else
          (case set_non_blocking P e1 (nat sd) True of (e2, ret) \<Rightarrow>
             if ret < 0 then Inr (e2, None)
             else
               bind_res (fill_path path) (\<lambda>_.
                 (case os_connect P e2 sd path of (e3, ret) \<Rightarrow>
                    if ret \<ge> 0 then Inr (e3, None)
                    else Inr (bind_and_listen P (os_unlink P e3 path)
                      \<lparr>mb_sd = sd, mb_type = ADDR_UNIX, mb_alive = True, mb_name = path\<rparr>)))))"

definition mb_channel_bind_port :: "'e os \<Rightarrow> 'e \<Rightarrow> int \<Rightarrow> 'e \<times> mb_channel option" where
  "mb_channel_bind_port P e port =
     (case os_socket P e of (e1, sd) \<Rightarrow>
        if sd < 0 then (e1, None)
        else
          (case set_non_blocking P e1 (nat sd) True of (e2, ret) \<Rightarrow>
             if ret < 0 then (e2, None)
             else bind_and_listen P e2 \<lparr>mb_sd = sd, mb_type = ADDR_INET, mb_alive = True, mb_name = ''tcp''\<rparr>))"

definition mb_channel_destroy :: "'e os \<Rightarrow> 'e \<Rightarrow> mb_channel \<Rightarrow> 'e \<times> int" where
  "mb_channel_destroy P e channel = (os_close P e (nat (mb_sd channel)), 0)"

definition mb_channel_stop :: "mb_channel \<Rightarrow> mb_channel" where
  "mb_channel_stop channel = channel\<lparr>mb_alive := False\<rparr>"

section \<open>The client side\<close>

text \<open>
  \<open>mb_channel_reopen_unix\<close> opens a new socket for the channel (the old one stays open) and frees
  the channel when that fails: the channel is \<open>None\<close> from then on.
\<close>

definition mb_channel_reopen_unix :: "'e os \<Rightarrow> 'e \<Rightarrow> mb_channel \<Rightarrow> ('e \<times> mb_channel option) res" where
  "mb_channel_reopen_unix P e channel =
     (case os_socket P e of (e1, sd) \<Rightarrow>
        let channel1 = channel\<lparr>mb_sd := sd\<rparr> in
        if sd < 0 then Inr (fst (mb_channel_destroy P e1 channel1), None)
        else
          bind_res (fill_path (mb_name channel1)) (\<lambda>_.
            (case os_connect P e1 sd (mb_name channel1) of (e2, ret) \<Rightarrow>
               if ret < 0 then Inr (fst (mb_channel_destroy P e2 channel1), None)
               else Inr (e2, Some channel1))))"

definition mb_channel_open_path :: "'e os \<Rightarrow> 'e \<Rightarrow> string \<Rightarrow> ('e \<times> mb_channel option) res" where
  "mb_channel_open_path P e path =
     mb_channel_reopen_unix P e \<lparr>mb_sd = 0, mb_type = ADDR_UNIX, mb_alive = False, mb_name = path\<rparr>"

text \<open>
  The two attempts to send: the caller's pointer is used again after a reopening, whether or not
  the channel was freed by it. \<open>msg_len != size\<close> compares an \<open>int\<close> with a \<open>size_t\<close>.
\<close>

fun send_attempts :: "'e os \<Rightarrow> nat \<Rightarrow> 'e \<Rightarrow> mb_channel option \<Rightarrow> byte list \<Rightarrow> int \<Rightarrow> ('e \<times> mb_channel option \<times> int) res" where
  "send_attempts P 0 e channel data msg_len = Inr (e, channel, msg_len)"
| "send_attempts P (Suc n) e channel data msg_len =
     (case channel of
        None \<Rightarrow> Inl Use_After_Free
      | Some ch \<Rightarrow>
          (case os_send P e (mb_sd ch) data of (e1, len) \<Rightarrow>
             if c_size len \<noteq> int (length data) then
               bind_res (mb_channel_reopen_unix P e1 ch) (\<lambda>(e2, channel'). send_attempts P n e2 channel' data len)
             else Inr (e1, channel, len)))"

text \<open>The reply is read with one \<open>recv\<close>; a failed one makes \<open>malloc\<close> and \<open>memcpy\<close> of a negative size.\<close>

definition mb_chanel_send :: "'e os \<Rightarrow> 'e \<Rightarrow> mb_channel \<Rightarrow> byte list \<Rightarrow> ('e \<times> mb_channel option \<times> int \<times> byte list) res" where
  "mb_chanel_send P e channel data =
     bind_res (send_attempts P 2 e (Some channel) data 0) (\<lambda>(e1, channel1, msg_len).
       (case channel1 of
          None \<Rightarrow> Inl Use_After_Free
        | Some ch \<Rightarrow>
            if c_size msg_len \<noteq> int (length data) then Inr (fst (mb_channel_destroy P e1 ch), None, -1, [])
            else
              (case os_recv P e1 (nat (mb_sd ch)) of
                 (e2, Received reply) \<Rightarrow> Inr (e2, Some ch, int (length reply), reply)
               | (e2, Closed) \<Rightarrow> Inr (e2, Some ch, 0, [])
               | (e2, _) \<Rightarrow> Inl Null_Deref)))"

section \<open>The loops of mb\_channel\_receive\<close>

text \<open>Accepting until \<open>accept\<close> fails.\<close>

partial_function (option) accept_loop :: "'e os \<Rightarrow> 'e chan \<Rightarrow> 'e chan res option" where
  "accept_loop P s =
     (case os_accept P (ch_env s) of (e, new_sd) \<Rightarrow>
        if new_sd < 0 then Some (Inr (s\<lparr>ch_env := e\<rparr>))
        else
          (case arr_write (master_set s) (nat new_sd) True of
             Inl f \<Rightarrow> Some (Inl f)
           | Inr fds \<Rightarrow>
               accept_loop P (s\<lparr>ch_env := fst (set_non_blocking P e (nat new_sd) False), master_set := fds,
                 max_sd := (if int (max_sd s) < new_sd then nat new_sd else max_sd s)\<rparr>)))"

text \<open>
  Reading from a client until nothing is left or the connection ends; the result says whether the
  connection is still active. A descriptor that a handler has closed gives \<open>EBADF\<close>.
\<close>

partial_function (option) recv_loop ::
    "'e os \<Rightarrow> 'e mb_handler \<Rightarrow> nat \<Rightarrow> int \<Rightarrow> 'e chan \<Rightarrow> (bool \<times> 'e chan) res option" where
  "recv_loop P h sd pos s =
     (case os_recv P (ch_env s) sd of (e, r) \<Rightarrow>
        (case r of
           Bad_Descriptor \<Rightarrow> Some (Inr (False, s\<lparr>ch_env := e\<rparr>))
         | Receive_Error \<Rightarrow> Some (Inr (False, s\<lparr>ch_env := e\<rparr>))
         | Would_Block \<Rightarrow> Some (Inr (True, s\<lparr>ch_env := e\<rparr>))
         | Closed \<Rightarrow> Some (Inr (False, s\<lparr>ch_env := e\<rparr>))
         | Received data \<Rightarrow>
             (case arr_read (clients s) sd of
                Inl f \<Rightarrow> Some (Inl f)
              | Inr c \<Rightarrow>
                  (case part_cb h e sd data pos (aux_data c) of (e1, ret, aux) \<Rightarrow>
                     if ret < 0 then
                       Some (Inr (False, s\<lparr>ch_env := e1, clients := (clients s)[sd := c\<lparr>aux_data := aux\<rparr>]\<rparr>))
                     else
                       recv_loop P h sd (c_int (pos + int (length data)))
                         (s\<lparr>ch_env := e1, clients := (clients s)[sd :=
                            \<lparr>position = c_int (pos + int (length data)), aux_data = aux\<rparr>]\<rparr>)))))"

text \<open>One readable client: the array is resized, a new connection is begun, and read.\<close>

definition begin_client :: "'e mb_handler \<Rightarrow> nat \<Rightarrow> 'e chan \<Rightarrow> 'e chan res" where
  "begin_client h sd s =
     bind_res (arr_read (clients s) sd) (\<lambda>c.
       if position c = 0 then
         (case begin_cb h (ch_env s) sd (aux_data c) of (e, aux) \<Rightarrow>
            Inr (s\<lparr>ch_env := e, clients := (clients s)[sd := c\<lparr>aux_data := aux\<rparr>]\<rparr>))
       else Inr s)"

definition end_client :: "'e os \<Rightarrow> 'e mb_handler \<Rightarrow> nat \<Rightarrow> 'e chan \<Rightarrow> 'e chan res" where
  "end_client P h sd s =
     bind_res (arr_read (clients s) sd) (\<lambda>c.
       (case end_cb h (ch_env s) sd (aux_data c) of (e, aux) \<Rightarrow>
          bind_res (arr_write (clients s) sd \<lparr>position = 0, aux_data = aux\<rparr>) (\<lambda>cs.
          bind_res (arr_write (master_set s) sd False) (\<lambda>fds.
          bind_res (if sd = max_sd s then lower_max fds (max_sd s) else Inr (max_sd s)) (\<lambda>m.
            Inr (s\<lparr>ch_env := os_close P e sd, clients := cs, master_set := fds, max_sd := m\<rparr>))))))"

definition handle_client :: "'e os \<Rightarrow> 'e mb_handler \<Rightarrow> client_info \<Rightarrow> nat \<Rightarrow> 'e chan \<Rightarrow> 'e chan res option" where
  "handle_client P h junk sd s =
     (case bind_res (resize_clients P junk s) (begin_client h sd) of
        Inl f \<Rightarrow> Some (Inl f)
      | Inr s1 \<Rightarrow>
          (case recv_loop P h sd 0 s1 of
             None \<Rightarrow> None
           | Some (Inl f) \<Rightarrow> Some (Inl f)
           | Some (Inr (is_conn_active, s2)) \<Rightarrow>
               Some (if is_conn_active then Inr s2 else end_client P h sd s2)))"

text \<open>The scan of the descriptors after a \<open>select\<close>; \<open>srv\<close> is the listening socket.\<close>

definition track_max_client :: "nat \<Rightarrow> 'e chan \<Rightarrow> 'e chan" where
  "track_max_client sd s =
     (let s1 = (if int sd > max_client s then s\<lparr>max_client := int sd\<rparr> else s)
      in if int (max_sd s1) < max_client s1 then s1\<lparr>max_client := int (max_sd s1)\<rparr> else s1)"

partial_function (option) scan_loop ::
    "'e os \<Rightarrow> 'e mb_handler \<Rightarrow> client_info \<Rightarrow> nat \<Rightarrow> nat \<Rightarrow> int \<Rightarrow> 'e chan \<Rightarrow> 'e chan res option" where
  "scan_loop P h junk srv sd ready_count s =
     (if sd \<le> max_sd s \<and> 0 < ready_count then
        (case arr_read (working_set s) sd of
           Inl f \<Rightarrow> Some (Inl f)
         | Inr ready \<Rightarrow>
             if \<not> ready then scan_loop P h junk srv (sd + 1) ready_count (track_max_client sd s)
             else
               (case (if sd = srv then accept_loop P (track_max_client sd s)
                      else handle_client P h junk sd (track_max_client sd s)) of
                  None \<Rightarrow> None
                | Some r \<Rightarrow>
                    (case r of
                       Inl f \<Rightarrow> Some (Inl f)
                     | Inr s2 \<Rightarrow> scan_loop P h junk srv (sd + 1) (ready_count - 1) s2)))
      else Some (Inr s))"

text \<open>The outer loop: it ends with an exit code when the channel was stopped, \<open>select\<close> failed, or
  nothing happened for ten seconds.\<close>

partial_function (option) receive_loop ::
    "'e os \<Rightarrow> 'e mb_handler \<Rightarrow> client_info \<Rightarrow> nat \<Rightarrow> 'e chan \<Rightarrow> (int \<times> 'e chan) res option" where
  "receive_loop P h junk srv s =
     (if \<not> os_alive P (ch_env s) then Some (Inr (0, s))
      else
        (case os_select P (ch_env s) (max_sd s + 1) (master_set s) of (e, ret, fds) \<Rightarrow>
           if ret < 0 then Some (Inr (-1, s\<lparr>ch_env := e, working_set := fds\<rparr>))
           else if ret = 0 then Some (Inr (0, s\<lparr>ch_env := e, working_set := fds\<rparr>))
           else
             (case scan_loop P h junk srv 0 ret (s\<lparr>ch_env := e, working_set := fds\<rparr>) of
                None \<Rightarrow> None
              | Some (Inl f) \<Rightarrow> Some (Inl f)
              | Some (Inr s2) \<Rightarrow> receive_loop P h junk srv s2)))"

text \<open>Closing what is left: the callback \<open>end_cb\<close> is commented out in the source.\<close>

fun close_all :: "'e os \<Rightarrow> nat \<Rightarrow> nat list \<Rightarrow> 'e chan \<Rightarrow> 'e chan res" where
  "close_all P srv [] s = Inr s"
| "close_all P srv (sd # sds) s =
     (if sd = srv then close_all P srv sds s
      else
        bind_res (arr_read (master_set s) sd) (\<lambda>b.
        bind_res (if b then arr_write (master_set s) sd False else Inr (master_set s)) (\<lambda>fds.
          close_all P srv sds (if b then s\<lparr>ch_env := os_close P (ch_env s) sd, master_set := fds\<rparr> else s))))"

definition receive_init :: "'e \<Rightarrow> nat \<Rightarrow> 'e chan res" where
  "receive_init e srv =
     bind_res (arr_write (replicate FD_SETSIZE False) srv True) (\<lambda>fds.
       Inr \<lparr>ch_env = e, master_set = fds, working_set = replicate FD_SETSIZE False, max_sd = srv,
            max_client = -1, clients_length = int srv + CLIENTS,
            clients = replicate (nat (int srv + CLIENTS)) no_client\<rparr>)"

definition mb_channel_receive ::
    "'e os \<Rightarrow> 'e mb_handler \<Rightarrow> client_info \<Rightarrow> 'e \<Rightarrow> nat \<Rightarrow> (int \<times> 'e chan) res option" where
  "mb_channel_receive P h junk e srv =
     (case receive_init e srv of
        Inl f \<Rightarrow> Some (Inl f)
      | Inr s \<Rightarrow>
          (case receive_loop P h junk srv s of
             None \<Rightarrow> None
           | Some (Inl f) \<Rightarrow> Some (Inl f)
           | Some (Inr (exit_code, s1)) \<Rightarrow>
               Some (bind_res (close_all P srv [0..<max_sd s1 + 1] s1) (\<lambda>s2. Inr (exit_code, s2)))))"


section \<open>The invariant of the receiving loop\<close>

definition chan_ok :: "nat \<Rightarrow> 'e chan \<Rightarrow> bool" where
  "chan_ok srv s \<longleftrightarrow>
     length (master_set s) = FD_SETSIZE \<and> length (working_set s) = FD_SETSIZE \<and>
     srv \<le> max_sd s \<and> max_sd s < FD_SETSIZE \<and> master_set s ! srv \<and>
     (\<forall>sd < FD_SETSIZE. master_set s ! sd \<longrightarrow> sd \<le> max_sd s) \<and>
     0 \<le> clients_length s \<and> clients_length s \<le> int (length (clients s)) \<and>
     -1 \<le> max_client s"

text \<open>
  What the system is assumed to do: \<open>select\<close> keeps the size of the set, the process never has a
  descriptor of \<open>FD_SETSIZE\<close> or more, and \<open>realloc\<close> finds memory.
\<close>

definition os_ok :: "'e os \<Rightarrow> bool" where
  "os_ok P \<longleftrightarrow>
     (\<forall>e n fds. length (snd (snd (os_select P e n fds))) = length fds) \<and>
     (\<forall>e. snd (os_accept P e) < int FD_SETSIZE) \<and>
     (\<forall>e. snd (os_realloc P e))"

lemma lower_max_ok:
  assumes "k \<le> m" and "fds ! k" and "m < length fds"
  shows "\<exists>j. lower_max fds m = Inr j \<and> k \<le> j \<and> j \<le> m \<and> fds ! j \<and> (\<forall>i. j < i \<and> i \<le> m \<longrightarrow> \<not> fds ! i)"
  using assms
proof (induction m)
  case (Suc m)
  show ?case
  proof (cases "fds ! Suc m")
    case False
    then have "k \<le> m" using Suc.prems by (metis le_SucE)
    with Suc False show ?thesis by (auto simp: le_Suc_eq)
  qed (use Suc.prems in auto)
qed simp

text \<open>Induction over the loops, with their arguments separated.\<close>

lemmas accept_loop_induct = accept_loop.raw_induct [where Pa = "\<lambda>(P, s) r. Q P s r" for Q,
  unfolded prod.case, rotated 1, consumes 1, case_names step]

lemmas recv_loop_induct = recv_loop.raw_induct [where Pa = "\<lambda>((((P, h), sd), pos), s) r. Q P h sd pos s r" for Q,
  unfolded prod.case, rotated 1, consumes 1, case_names step]

lemmas scan_loop_induct = scan_loop.raw_induct [where Pa = "\<lambda>((((((P, h), junk), srv), sd), ready), s) r. Q P h junk srv sd ready s r" for Q,
  unfolded prod.case, rotated 1, consumes 1, case_names step]

lemmas receive_loop_induct = receive_loop.raw_induct [where Pa = "\<lambda>((((P, h), junk), srv), s) r. Q P h junk srv s r" for Q,
  unfolded prod.case, rotated 1, consumes 1, case_names step]

lemma accept_loop_ok:
  assumes "accept_loop P s = Some r" and "os_ok P" and "chan_ok srv s"
  shows "\<exists>s'. r = Inr s' \<and> chan_ok srv s' \<and> max_sd s \<le> max_sd s' \<and> max_client s' = max_client s"
  using assms
proof (induction rule: accept_loop_induct)
  case (step loop P s r)
  obtain e n where acc: "os_accept P (ch_env s) = (e, n)" by fastforce
  show ?case
  proof (cases "n < 0")
    case True
    then have "r = Inr (s\<lparr>ch_env := e\<rparr>)" using step.hyps acc by simp
    then show ?thesis using step.prems(2) by (auto simp: chan_ok_def)
  next
    case False
    have n: "nat n < FD_SETSIZE"
    proof -
      have "snd (os_accept P (ch_env s)) < int FD_SETSIZE" using step.prems(1) unfolding os_ok_def by blast
      then show ?thesis using False acc by simp
    qed
    define s1 where "s1 = s\<lparr>ch_env := fst (set_non_blocking P e (nat n) False), master_set := (master_set s)[nat n := True],
        max_sd := (if int (max_sd s) < n then nat n else max_sd s)\<rparr>"
    have "loop P s1 = Some r" using step.hyps acc False n step.prems(2) by (simp add: s1_def chan_ok_def)
    moreover have "chan_ok srv s1"
      using step.prems(2) n False by (auto simp: chan_ok_def s1_def nth_list_update nat_le_iff split: if_splits)
    ultimately obtain s' where "r = Inr s'" "chan_ok srv s'" "max_sd s1 \<le> max_sd s'" "max_client s' = max_client s1"
      using step.IH step.prems(1) by blast
    then show ?thesis by (auto simp: s1_def split: if_splits)
  qed
qed

lemma resize_clients_ok:
  assumes os: "os_ok P" and ok: "chan_ok srv s"
  shows "\<exists>s'. resize_clients P junk s = Inr s' \<and> chan_ok srv s' \<and> max_client s < int (length (clients s')) \<and>
    max_client s' = max_client s \<and> max_sd s' = max_sd s \<and> master_set s' = master_set s"
proof -
  have "snd (os_realloc P (ch_env s))" using os unfolding os_ok_def by blast
  then obtain e where re: "os_realloc P (ch_env s) = (e, True)"
    by (cases "os_realloc P (ch_env s)") simp
  consider "max_client s \<ge> clients_length s" | "max_client s < clients_length s - CLIENTS"
    | "max_client s < clients_length s" "\<not> max_client s < clients_length s - CLIENTS" by linarith
  then show ?thesis
  proof cases
    case 1
    then show ?thesis using ok re
      by (auto simp: resize_clients_def realloc_clients_def Let_def chan_ok_def CLIENTS_def)
  next
    case 2
    then show ?thesis using ok re
      by (auto simp: resize_clients_def realloc_clients_def Let_def chan_ok_def CLIENTS_def)
  next
    case 3
    then show ?thesis using ok by (auto simp: resize_clients_def chan_ok_def)
  qed
qed

definition same_shape :: "'e chan \<Rightarrow> 'e chan \<Rightarrow> bool" where
  "same_shape s s' \<longleftrightarrow> master_set s' = master_set s \<and> working_set s' = working_set s \<and> max_sd s' = max_sd s \<and>
     max_client s' = max_client s \<and> clients_length s' = clients_length s \<and> length (clients s') = length (clients s)"

lemma same_shape_ok: "same_shape s s' \<Longrightarrow> chan_ok srv s' = chan_ok srv s"
  by (simp add: same_shape_def chan_ok_def)

lemma recv_loop_ok:
  assumes "recv_loop P h sd pos s = Some r" and "sd < length (clients s)"
  shows "\<exists>active s'. r = Inr (active, s') \<and> same_shape s s'"
  using assms
proof (induction rule: recv_loop_induct)
  case (step loop P h sd pos s r)
  obtain e x where rc: "os_recv P (ch_env s) sd = (e, x)" by fastforce
  show ?case
  proof (cases x)
    case (Received data)
    let ?c = "clients s ! sd"
    have rd: "arr_read (clients s) sd = Inr ?c" using step.prems by (rule arr_read_ok)
    obtain e1 ret aux where cb: "part_cb h e sd data pos (aux_data ?c) = (e1, ret, aux)" by (metis prod_cases3)
    show ?thesis
    proof (cases "ret < 0")
      case True
      then have "r = Inr (False, s\<lparr>ch_env := e1, clients := (clients s)[sd := ?c\<lparr>aux_data := aux\<rparr>]\<rparr>)"
        using step.hyps by (simp add: rc Received cb rd True)
      then show ?thesis by (intro exI [of _ False] exI) (auto simp: same_shape_def)
    next
      case False
      let ?s1 = "s\<lparr>ch_env := e1, clients := (clients s)[sd := \<lparr>position = c_int (pos + int (length data)), aux_data = aux\<rparr>]\<rparr>"
      have "loop P h sd (c_int (pos + int (length data))) ?s1 = Some r"
        using step.hyps by (simp add: rc Received cb rd False)
      from step.IH [OF this] step.prems obtain active s' where "r = Inr (active, s')" "same_shape ?s1 s'" by auto
      then show ?thesis by (auto simp: same_shape_def)
    qed
  qed (use step.hyps rc in \<open>simp_all add: same_shape_def, auto\<close>)
qed

lemma begin_client_ok:
  "sd < length (clients s) \<Longrightarrow> \<exists>s'. begin_client h sd s = Inr s' \<and> same_shape s s'"
  by (auto simp: begin_client_def same_shape_def split: prod.split)

lemma end_client_ok:
  assumes ok: "chan_ok srv s" and sd: "sd < length (clients s)" "sd \<noteq> srv" "sd \<le> max_sd s"
  shows "\<exists>s'. end_client P h sd s = Inr s' \<and> chan_ok srv s' \<and> max_client s' = max_client s"
proof -
  let ?c = "clients s ! sd" and ?set = "(master_set s)[sd := False]"
  obtain e aux where cb: "end_cb h (ch_env s) sd (aux_data ?c) = (e, aux)" by fastforce
  have set: "srv \<le> max_sd s" "?set ! srv" "max_sd s < length ?set" "sd < length (master_set s)"
    using ok sd(2,3) by (auto simp: chan_ok_def)
  from lower_max_ok [OF set(1-3)] obtain j where
    j: "lower_max ?set (max_sd s) = Inr j" "srv \<le> j" "j \<le> max_sd s" "\<forall>i. j < i \<and> i \<le> max_sd s \<longrightarrow> \<not> ?set ! i" by blast
  define m where "m = (if sd = max_sd s then j else max_sd s)"
  define s' where "s' = s\<lparr>ch_env := os_close P e sd, clients := (clients s)[sd := \<lparr>position = 0, aux_data = aux\<rparr>],
      master_set := ?set, max_sd := m\<rparr>"
  have lm: "(if sd = max_sd s then lower_max ?set (max_sd s) else Inr (max_sd s)) = Inr m"
  proof (cases "sd = max_sd s")
    case True
    then show ?thesis using j(1) by (simp only: m_def simp_thms if_True)
  qed (simp add: m_def)
  have "end_client P h sd s = Inr s'"
    unfolding end_client_def by (simp only: arr_read_ok [OF sd(1)] arr_write_ok [OF sd(1)] arr_write_ok [OF set(4)]
      bind_res_simps cb prod.case lm s'_def)
  moreover have "chan_ok srv s'"
  proof -
    have "\<forall>i < FD_SETSIZE. ?set ! i \<longrightarrow> i \<le> m"
      using ok j(4) set(4) by (auto simp: chan_ok_def m_def nth_list_update split: if_splits)
    then show ?thesis using ok j(2,3) set by (auto simp: chan_ok_def s'_def m_def)
  qed
  ultimately show ?thesis by (auto simp: s'_def)
qed

lemma handle_client_ok:
  assumes run: "handle_client P h junk sd s = Some r" and os: "os_ok P" and ok: "chan_ok srv s"
    and sd: "sd \<noteq> srv" "sd \<le> max_sd s" "int sd \<le> max_client s"
  shows "\<exists>s'. r = Inr s' \<and> chan_ok srv s'"
proof -
  obtain s0 where s0: "resize_clients P junk s = Inr s0" "chan_ok srv s0" "max_client s < int (length (clients s0))"
    "max_sd s0 = max_sd s" using resize_clients_ok [OF os ok] by blast
  have in0: "sd < length (clients s0)" using s0(3) sd(3) by linarith
  then obtain s1 where s1: "begin_client h sd s0 = Inr s1" "same_shape s0 s1" using begin_client_ok by blast
  from run s0(1) s1(1) obtain q where q: "recv_loop P h sd 0 s1 = Some q"
    by (auto simp: handle_client_def split: option.splits)
  have in1: "sd < length (clients s1)" using in0 s1(2) by (simp add: same_shape_def)
  from recv_loop_ok [OF q in1] obtain active s2 where q2: "q = Inr (active, s2)" "same_shape s1 s2" by blast
  have ok2: "chan_ok srv s2" using s0(2) same_shape_ok [OF s1(2)] same_shape_ok [OF q2(2)] by blast
  have in2: "sd < length (clients s2)" "sd \<le> max_sd s2"
    using in1 s1(2) q2(2) s0(4) sd(2) by (simp_all add: same_shape_def)
  show ?thesis
  proof (cases active)
    case True
    with run s0(1) s1(1) q q2(1) ok2 show ?thesis by (auto simp: handle_client_def)
  next
    case False
    with end_client_ok [OF ok2 in2(1) sd(1) in2(2)] run s0(1) s1(1) q q2(1) show ?thesis
      by (auto simp: handle_client_def)
  qed
qed

lemma track_max_client_ok:
  assumes "chan_ok srv s" and "sd \<le> max_sd s"
  shows "chan_ok srv (track_max_client sd s) \<and> int sd \<le> max_client (track_max_client sd s) \<and>
    max_sd (track_max_client sd s) = max_sd s"
  using assms by (auto simp: track_max_client_def chan_ok_def Let_def)

lemma scan_loop_ok:
  assumes "scan_loop P h junk srv sd ready s = Some r" and "os_ok P" and "chan_ok srv s"
  shows "\<exists>s'. r = Inr s' \<and> chan_ok srv s'"
  using assms
proof (induction rule: scan_loop_induct)
  case (step loop P h junk srv sd ready s r)
  show ?case
  proof (cases "sd \<le> max_sd s \<and> 0 < ready")
    case False
    then have "r = Inr s" using step.hyps by (simp split: if_splits)
    then show ?thesis using step.prems(2) by simp
  next
    case True
    let ?s1 = "track_max_client sd s"
    note tr = track_max_client_ok [OF step.prems(2), of sd]
    have rd: "arr_read (working_set s) sd = Inr (working_set s ! sd)"
      using step.prems(2) True by (simp add: chan_ok_def)
    show ?thesis
    proof (cases "working_set s ! sd")
      case False
      then have "loop P h junk srv (sd + 1) ready ?s1 = Some r" using step.hyps True rd by simp
      from step.IH [OF this step.prems(1)] tr True show ?thesis by simp
    next
      case ready: True
      let ?x = "if sd = srv then accept_loop P ?s1 else handle_client P h junk sd ?s1"
      from step.hyps True rd ready obtain q where q: "?x = Some q"
        by (cases ?x) auto
      have "\<exists>s2. q = Inr s2 \<and> chan_ok srv s2"
      proof (cases "sd = srv")
        case True
        with q accept_loop_ok [of P ?s1 q srv] step.prems(1) tr \<open>sd \<le> max_sd s \<and> 0 < ready\<close> show ?thesis by auto
      next
        case False
        with q handle_client_ok [of P h junk sd ?s1 q srv] step.prems(1) tr \<open>sd \<le> max_sd s \<and> 0 < ready\<close> show ?thesis by auto
      qed
      then obtain s2 where s2: "q = Inr s2" "chan_ok srv s2" by blast
      have "loop P h junk srv (sd + 1) (ready - 1) s2 = Some r"
        using step.hyps True rd ready q s2(1) by (simp split: if_splits)
      from step.IH [OF this step.prems(1) s2(2)] show ?thesis .
    qed
  qed
qed

lemma receive_loop_ok:
  assumes "receive_loop P h junk srv s = Some r" and "os_ok P" and "chan_ok srv s"
  shows "\<exists>code s'. r = Inr (code, s') \<and> chan_ok srv s'"
  using assms
proof (induction rule: receive_loop_induct)
  case (step loop P h junk srv s r)
  obtain e ret fds where sel: "os_select P (ch_env s) (max_sd s + 1) (master_set s) = (e, ret, fds)" by (metis prod_cases3)
  have len: "length fds = FD_SETSIZE"
  proof -
    have "length (snd (snd (os_select P (ch_env s) (max_sd s + 1) (master_set s)))) = length (master_set s)"
      using step.prems(1) unfolding os_ok_def by blast
    then show ?thesis using sel step.prems(2) by (simp add: chan_ok_def)
  qed
  let ?s1 = "s\<lparr>ch_env := e, working_set := fds\<rparr>"
  have ok1: "chan_ok srv ?s1" using step.prems(2) len by (simp add: chan_ok_def)
  show ?case
  proof (cases "os_alive P (ch_env s) \<and> 0 < ret")
    case False
    then have "r = Inr (0, s) \<or> r = Inr (-1, ?s1) \<or> r = Inr (0, ?s1)"
      using step.hyps sel by (simp split: if_splits)
    then show ?thesis using step.prems(2) ok1 by blast
  next
    case True
    with step.hyps sel obtain q where q: "scan_loop P h junk srv 0 ret ?s1 = Some q"
      by (auto split: option.splits)
    from scan_loop_ok [OF q step.prems(1) ok1] obtain s2 where s2: "q = Inr s2" "chan_ok srv s2" by blast
    have "loop P h junk srv s2 = Some r" using step.hyps True sel q s2(1) by simp
    from step.IH [OF this step.prems(1) s2(2)] show ?thesis .
  qed
qed

lemma close_all_ok:
  assumes "\<And>sd. sd \<in> set sds \<Longrightarrow> sd < length (master_set s)"
  shows "\<exists>s'. close_all P srv sds s = Inr s' \<and> length (master_set s') = length (master_set s) \<and>
    (\<forall>sd < length (master_set s). master_set s' ! sd \<longleftrightarrow> master_set s ! sd \<and> (sd \<notin> set sds \<or> sd = srv))"
  using assms
proof (induction sds arbitrary: s)
  case Nil
  then show ?case by simp
next
  case (Cons sd sds)
  define s1 where "s1 = (if sd = srv \<or> \<not> master_set s ! sd then s
      else s\<lparr>ch_env := os_close P (ch_env s) sd, master_set := (master_set s)[sd := False]\<rparr>)"
  have in_set: "sd < length (master_set s)" using Cons.prems [of sd] by simp
  have run: "close_all P srv (sd # sds) s = close_all P srv sds s1" using in_set by (simp add: s1_def)
  have len: "length (master_set s1) = length (master_set s)" by (simp add: s1_def)
  have bits: "master_set s1 ! x \<longleftrightarrow> master_set s ! x \<and> (x \<noteq> sd \<or> x = srv)" if "x < length (master_set s)" for x
    using that by (cases "x = sd") (auto simp: s1_def)
  have "\<And>x. x \<in> set sds \<Longrightarrow> x < length (master_set s1)" using Cons.prems len by simp
  from Cons.IH [OF this] obtain s' where "close_all P srv sds s1 = Inr s'" "length (master_set s') = length (master_set s1)"
    "\<forall>x < length (master_set s1). master_set s' ! x \<longleftrightarrow> master_set s1 ! x \<and> (x \<notin> set sds \<or> x = srv)" by blast
  with run len bits show ?case by (intro exI [of _ s']) auto
qed


section \<open>Properties\<close>

text \<open>C36. The receiving loop keeps its books: as long as \<open>realloc\<close> finds memory and no descriptor reaches
  \<open>FD_SETSIZE\<close>, whatever the clients, the handlers and \<open>select\<close> do, \<open>mb_channel_receive\<close> never
  accesses a client record or a descriptor bit outside its array; and when it returns, every
  client has been removed from the descriptor set, and only the listening socket is left.\<close>

theorem mb_channel_receive_safe:
  assumes "os_ok P" and "srv < FD_SETSIZE" and "mb_channel_receive P h junk e srv = Some r"
  shows "\<exists>code s. r = Inr (code, s) \<and> (\<forall>sd < FD_SETSIZE. master_set s ! sd \<longleftrightarrow> sd = srv)"
proof -
  obtain s0 where s0: "receive_init e srv = Inr s0" and ok0: "chan_ok srv s0"
    using assms(2) by (auto simp: receive_init_def chan_ok_def nth_list_update CLIENTS_def)
  obtain q where q: "receive_loop P h junk srv s0 = Some q"
    using assms(3) s0 by (auto simp: mb_channel_receive_def split: option.splits)
  obtain code s1 where s1: "q = Inr (code, s1)" "chan_ok srv s1"
    using receive_loop_ok [OF q assms(1) ok0] by blast
  have "\<And>sd. sd \<in> set [0..<max_sd s1 + 1] \<Longrightarrow> sd < length (master_set s1)"
    using s1(2) by (auto simp: chan_ok_def)
  from close_all_ok [OF this, where P = P and srv = srv] obtain s2 where s2: "close_all P srv [0..<max_sd s1 + 1] s1 = Inr s2"
    "\<forall>sd < length (master_set s1). master_set s2 ! sd \<longleftrightarrow> master_set s1 ! sd \<and> (sd \<notin> set [0..<max_sd s1 + 1] \<or> sd = srv)"
    by blast
  have "\<forall>sd < FD_SETSIZE. master_set s2 ! sd \<longleftrightarrow> sd = srv"
    using s2(2) s1(2) by (auto simp: chan_ok_def)
  then show ?thesis
    using assms(3) s0 q s1(1) s2(1) by (intro exI [of _ code] exI [of _ s2]) (simp add: mb_channel_receive_def)
qed


section \<open>A scripted system\<close>

text \<open>
  The environment counts the system calls and logs the handlers' calls. A client connects as
  descriptor 4 and sends one byte; then \<open>select\<close> times out.
\<close>

datatype event = Begun nat | Got nat int | Ended nat | Shut nat

type_synonym script = "nat \<times> event list"

definition demo_os :: "script os" where
  "demo_os =
     \<lparr>os_alive = (\<lambda>e. True),
      os_select = (\<lambda>(k, l) n fds.
         if k = 0 then ((Suc k, l), 1, fds)
         else if k = 3 then ((Suc k, l), 1, (replicate (length fds) False)[4 := True])
         else ((Suc k, l), 0, fds)),
      os_accept = (\<lambda>(k, l). ((Suc k, l), if k = 1 then 4 else -1)),
      os_sockopt = (\<lambda>e sd. (e, 0)),
      os_ioctl = (\<lambda>e sd. (e, 0)),
      os_recv = (\<lambda>(k, l) sd. ((Suc k, l), if k = 4 then Received [65] else Would_Block)),
      os_close = (\<lambda>(k, l) sd. (k, l @ [Shut sd])),
      os_realloc = (\<lambda>e. (e, True)),
      os_socket = (\<lambda>e. (e, 3)), os_connect = (\<lambda>e sd path. (e, -1)), os_unlink = (\<lambda>e path. e),
      os_bind = (\<lambda>e sd. (e, 0)), os_listen = (\<lambda>e sd n. (e, 0)), os_send = (\<lambda>e sd data. (e, int (length data)))\<rparr>"

definition demo_handler :: "script mb_handler" where
  "demo_handler =
     \<lparr>part_cb = (\<lambda>(k, l) sd data pos aux. ((k, l @ [Got sd pos]), 0, aux)),
      begin_cb = (\<lambda>(k, l) sd aux. ((k, l @ [Begun sd]), Some sd)),
      end_cb = (\<lambda>(k, l) sd aux. ((k, l @ [Ended sd]), None))\<rparr>"

lemma demo_os_ok: "os_ok demo_os"
  by (auto simp: os_ok_def demo_os_def FD_SETSIZE_def)

lemma channel_demo_simps [simp]:
  "os_alive demo_os e" "os_sockopt demo_os e sd = (e, 0)" "os_ioctl demo_os e sd = (e, 0)"
  "os_select demo_os (k, l) n fds = (if k = 0 then ((Suc k, l), 1, fds)
     else if k = 3 then ((Suc k, l), 1, (replicate (length fds) False)[4 := True]) else ((Suc k, l), 0, fds))"
  "os_accept demo_os (k, l) = ((Suc k, l), if k = 1 then 4 else -1)"
  "os_recv demo_os (k, l) sd = ((Suc k, l), if k = 4 then Received [65] else Would_Block)"
  "os_close demo_os (k, l) sd = (k, l @ [Shut sd])"
  "part_cb demo_handler (k, l) sd data pos aux = ((k, l @ [Got sd pos]), 0, aux)"
  "begin_cb demo_handler (k, l) sd aux = ((k, l @ [Begun sd]), Some sd)"
  by (simp_all add: demo_os_def demo_handler_def)

text \<open>Descriptor bits on arrays written once or twice.\<close>

lemma bit_simps [simp]:
  "i < FD_SETSIZE \<Longrightarrow> (replicate FD_SETSIZE False)[j := b] ! i = (if i = j then b else False)"
  by (simp add: nth_list_update)

lemma bit2_simps [simp]:
  "i < FD_SETSIZE \<Longrightarrow> (replicate FD_SETSIZE False)[j := b, k := c] ! i = (if i = k then c else if i = j then b else False)"
  by (simp add: nth_list_update)

lemma small_fd [simp]: "numeral k < FD_SETSIZE \<longleftrightarrow> numeral k < (1024 :: nat)" "0 < FD_SETSIZE" "Suc 0 < FD_SETSIZE"
  "Suc (Suc 0) < FD_SETSIZE" "Suc (Suc (Suc 0)) < FD_SETSIZE" "Suc (Suc (Suc (Suc 0))) < FD_SETSIZE"
  by (simp_all add: FD_SETSIZE_def)

lemma demo_first_scan:
  "scan_loop demo_os demo_handler no_client 3 0 1
     \<lparr>ch_env = (1, []), master_set = (replicate FD_SETSIZE False)[3 := True],
      working_set = (replicate FD_SETSIZE False)[3 := True], max_sd = 3, max_client = -1, clients_length = 8,
      clients = replicate 8 no_client\<rparr> =
   Some (Inr \<lparr>ch_env = (3, []), master_set = (replicate FD_SETSIZE False)[3 := True, 4 := True],
      working_set = (replicate FD_SETSIZE False)[3 := True], max_sd = 4, max_client = 3, clients_length = 8,
      clients = replicate 8 no_client\<rparr>)"
  by (simp add: scan_loop.simps [of _ _ _ _ 0] scan_loop.simps [of _ _ _ _ 1] scan_loop.simps [of _ _ _ _ "Suc 0"]
      scan_loop.simps [of _ _ _ _ "Suc (Suc 0)"]
      scan_loop.simps [of _ _ _ _ 2] scan_loop.simps [of _ _ _ _ 3] scan_loop.simps [of _ _ _ _ "Suc (Suc (Suc 0))"]
      scan_loop.simps [of _ _ _ _ 4] scan_loop.simps [of _ _ _ _ "Suc (Suc (Suc (Suc 0)))"]
      accept_loop.simps track_max_client_def set_non_blocking_def Let_def)


lemma four: "Suc (Suc (Suc (Suc 0))) = 4"
  by simp

lemma demo_second_scan:
  "scan_loop demo_os demo_handler no_client 3 0 1
     \<lparr>ch_env = (4, []), master_set = (replicate FD_SETSIZE False)[3 := True, 4 := True],
      working_set = (replicate FD_SETSIZE False)[4 := True], max_sd = 4, max_client = 3, clients_length = 8,
      clients = replicate 8 no_client\<rparr> =
   Some (Inr \<lparr>ch_env = (6, [Begun 4, Got 4 0]), master_set = (replicate FD_SETSIZE False)[3 := True, 4 := True],
      working_set = (replicate FD_SETSIZE False)[4 := True], max_sd = 4, max_client = 4, clients_length = 8,
      clients = (replicate 8 no_client)[4 := \<lparr>position = 1, aux_data = Some 4\<rparr>]\<rparr>)"
  by (simp add: scan_loop.simps [of _ _ _ _ 0] scan_loop.simps [of _ _ _ _ 1] scan_loop.simps [of _ _ _ _ "Suc 0"]
      scan_loop.simps [of _ _ _ _ "Suc (Suc 0)"]
      scan_loop.simps [of _ _ _ _ 2] scan_loop.simps [of _ _ _ _ 3] scan_loop.simps [of _ _ _ _ "Suc (Suc (Suc 0))"]
      scan_loop.simps [of _ _ _ _ 4] scan_loop.simps [of _ _ _ _ "Suc (Suc (Suc (Suc 0)))"]
      scan_loop.simps [of _ _ _ _ "Suc (Suc (Suc (Suc (Suc 0))))"] scan_loop.simps [of _ _ _ _ "5"]
      handle_client_def resize_clients_def begin_client_def CLIENTS_def no_client_def
      recv_loop.simps [of _ _ _ 0] recv_loop.simps [of _ _ _ 1] track_max_client_def Let_def four)


lemma demo_receive:
  "mb_channel_receive demo_os demo_handler no_client (0, []) 3 =
   Some (Inr (0, \<lparr>ch_env = (7, [Begun 4, Got 4 0, Shut 4]), master_set = (replicate FD_SETSIZE False)[3 := True, 4 := False],
      working_set = (replicate FD_SETSIZE False)[3 := True, 4 := True], max_sd = 4, max_client = 4, clients_length = 8,
      clients = (replicate 8 no_client)[4 := \<lparr>position = 1, aux_data = Some 4\<rparr>]\<rparr>))"
proof -
  let ?fds = "(replicate FD_SETSIZE False)[3 := True]" and ?fds2 = "(replicate FD_SETSIZE False)[3 := True, 4 := True]"
  let ?s0 = "\<lparr>ch_env = (0, []), master_set = ?fds, working_set = replicate FD_SETSIZE False, max_sd = 3, max_client = -1,
      clients_length = 8, clients = replicate 8 no_client\<rparr>"
  let ?s1 = "\<lparr>ch_env = (3, []), master_set = ?fds2, working_set = ?fds, max_sd = 4, max_client = 3, clients_length = 8,
      clients = replicate 8 no_client\<rparr>"
  let ?s2 = "\<lparr>ch_env = (6, [Begun 4, Got 4 0]), master_set = ?fds2,
      working_set = (replicate FD_SETSIZE False)[4 := True], max_sd = 4, max_client = 4, clients_length = 8,
      clients = (replicate 8 no_client)[4 := \<lparr>position = 1, aux_data = Some 4\<rparr>]\<rparr>"
  have init: "receive_init (0, []) 3 = Inr ?s0"
    by (simp add: receive_init_def CLIENTS_def)
  have first: "receive_loop demo_os demo_handler no_client 3 ?s0 = receive_loop demo_os demo_handler no_client 3 ?s1"
    by (subst receive_loop.simps) (simp add: demo_first_scan [unfolded One_nat_def])
  have second: "receive_loop demo_os demo_handler no_client 3 ?s1 = receive_loop demo_os demo_handler no_client 3 ?s2"
    by (subst receive_loop.simps) (simp add: demo_second_scan)
  have third: "receive_loop demo_os demo_handler no_client 3 ?s2 =
      Some (Inr (0, ?s2\<lparr>ch_env := (7, [Begun 4, Got 4 0]), working_set := ?fds2\<rparr>))"
    by (subst receive_loop.simps) simp
  show ?thesis
    by (simp only: mb_channel_receive_def init sum.case first second third option.case)
       (simp add: upt_rec four)
qed

theorem mb_channel_receive_safe_witness:
  "\<exists>code s. mb_channel_receive demo_os demo_handler no_client (0, []) 3 = Some (Inr (code, s)) \<and>
     (\<forall>sd < FD_SETSIZE. master_set s ! sd \<longleftrightarrow> sd = 3)"
proof -
  have "(3 :: nat) < FD_SETSIZE" by simp
  from mb_channel_receive_safe [OF demo_os_ok this demo_receive] show ?thesis using demo_receive by blast
qed

text \<open>A quiet period of ten seconds ends every connection without telling the handlers: the
  connection below was begun and got data, then \<open>select\<close> times out, and \<open>mb_channel_receive\<close> closes
  the descriptor and returns; \<open>end_cb\<close> is never called for it.\<close>

theorem timeout_skips_end_callback:
  "\<exists>s. mb_channel_receive demo_os demo_handler no_client (0, []) 3 = Some (Inr (0, s)) \<and>
     Begun 4 \<in> set (snd (ch_env s)) \<and> Shut 4 \<in> set (snd (ch_env s)) \<and> Ended 4 \<notin> set (snd (ch_env s))"
  by (simp add: demo_receive)

end
