(* ===== verification/Eva_Main.thy ===== *)
theory Eva_Main
  imports Request_Server Channel
begin

text \<open>
  \<^verbatim>\<open>src/http/main.c\<close>: the HTTP server. It hands the channel three handlers: \<open>msg_start\<close> takes a parser
  from a pool, \<open>dispatch\<close> feeds it what arrived, \<open>msg_end\<close> gives it back. Parsers are reached through
  pointers, which the channel keeps as the auxiliary data of a client.
\<close>

section \<open>State\<close>

text \<open>
  The static variables and the heap of parsers: a pointer is a number, \<open>None\<close> is not allocated.
  \<open>malloc\<close> gives the pointer \<open>fresh\<close> and a block with what it held before. The configuration is
  shared by all connections. After a fault (\<open>crashed\<close>) nothing more happens. \<open>outside\<close> is the rest of
  the system.
\<close>

record ('L, 'o) eva =
  parser_pool :: "nat list"
  parser_stack_top :: int
  parser_pool_size :: int
  heap :: "nat \<Rightarrow> 'L parser option"
  fresh :: nat
  eva_conf :: "'L httpd_conf"
  crashed :: "fault option"
  outside :: 'o

text \<open>What \<open>malloc\<close> and \<open>fdopen\<close> return.\<close>

record 'L eva_env =
  junk_parser :: "nat \<Rightarrow> 'L parser"
  junk_conn :: "nat \<Rightarrow> http_conn_info"
  env_fdopen :: "nat \<Rightarrow> client_file"

definition new_parser :: "'L eva_env \<Rightarrow> ('L, 'o) eva \<Rightarrow> nat \<times> ('L, 'o) eva" where
  "new_parser E e =
     (fresh e, e\<lparr>heap := (heap e)(fresh e \<mapsto> request_processor_init (junk_parser E (fresh e)) (junk_conn E (fresh e)) (eva_conf e)),
                 fresh := fresh e + 1\<rparr>)"

definition request_processor_destroy :: "nat \<Rightarrow> ('L, 'o) eva \<Rightarrow> ('L, 'o) eva res" where
  "request_processor_destroy ptr e =
     (if heap e ptr = None then Inl Use_After_Free else Inr (e\<lparr>heap := (heap e)(ptr := None)\<rparr>))"

section \<open>The pool of parsers\<close>

fun fill_pool :: "'L eva_env \<Rightarrow> nat \<Rightarrow> ('L, 'o) eva \<Rightarrow> ('L, 'o) eva" where
  "fill_pool E 0 e = e"
| "fill_pool E (Suc n) e =
     (case new_parser E e of (ptr, e1) \<Rightarrow> fill_pool E n (e1\<lparr>parser_pool := parser_pool e1 @ [ptr]\<rparr>))"

definition init_http_parser_pool :: "'L eva_env \<Rightarrow> nat \<Rightarrow> ('L, 'o) eva \<Rightarrow> ('L, 'o) eva" where
  "init_http_parser_pool E n e =
     fill_pool E n (e\<lparr>parser_pool_size := int n, parser_pool := [], parser_stack_top := 0\<rparr>)"

definition get_http_parser :: "'L eva_env \<Rightarrow> ('L, 'o) eva \<Rightarrow> (nat \<times> ('L, 'o) eva) res" where
  "get_http_parser E e =
     (if parser_pool_size e > parser_stack_top e then
        bind_res (if parser_stack_top e < 0 then Inl Out_Of_Bounds else arr_read (parser_pool e) (nat (parser_stack_top e)))
          (\<lambda>ptr. Inr (ptr, e\<lparr>parser_stack_top := parser_stack_top e + 1\<rparr>))
      else Inr (new_parser E e))"

definition release_http_parser :: "nat \<Rightarrow> ('L, 'o) eva \<Rightarrow> ('L, 'o) eva res" where
  "release_http_parser ptr e =
     (let top = parser_stack_top e - 1; e1 = e\<lparr>parser_stack_top := top\<rparr> in
      if parser_pool_size e1 > top then
        bind_res (if top < 0 then Inl Out_Of_Bounds else arr_write (parser_pool e1) (nat top) ptr)
          (\<lambda>pool. Inr (e1\<lparr>parser_pool := pool\<rparr>))
      else request_processor_destroy ptr e1)"

section \<open>The handlers\<close>

text \<open>
  \<open>conn_info->conf\<close> points to the one configuration: it is read before and written back after the
  callbacks ran. A callback that ends in a fault ends the program.
\<close>

definition with_conf :: "'L httpd_conf \<Rightarrow> 'L parser \<Rightarrow> 'L parser" where
  "with_conf conf p = p\<lparr>p_data := bind_res (p_data p) (\<lambda>r. Inr (r\<lparr>rq_conf := conf\<rparr>))\<rparr>"

definition chars :: "byte list \<Rightarrow> string" where
  "chars data = map (\<lambda>b. char_of (unat b)) data"

definition dispatch :: "'L server \<Rightarrow> nat \<Rightarrow> byte list \<Rightarrow> ('L, 'o) eva \<Rightarrow> (int \<times> ('L, 'o) eva) res" where
  "dispatch V ptr data e =
     (case heap e ptr of
        None \<Rightarrow> Inl Use_After_Free
      | Some p \<Rightarrow>
          bind_res (http_parser_execute (request_processor_settings_init V) (with_conf (eva_conf e) p) (chars data)) (\<lambda>(p', n).
          bind_res (p_data p') (\<lambda>r.
            Inr (sint (word_of_nat n :: 32 word), e\<lparr>heap := (heap e)(ptr \<mapsto> p'), eva_conf := rq_conf r\<rparr>))))"

definition msg_start :: "'L eva_env \<Rightarrow> nat \<Rightarrow> ('L, 'o) eva \<Rightarrow> (nat \<times> ('L, 'o) eva) res" where
  "msg_start E sd e =
     bind_res (get_http_parser E e) (\<lambda>(ptr, e1).
       (case heap e1 ptr of
          None \<Rightarrow> Inl Use_After_Free
        | Some p \<Rightarrow>
            Inr (ptr, e1\<lparr>heap := (heap e1)(ptr \<mapsto> request_processor_reset p (int sd) (env_fdopen E sd) (eva_conf e1))\<rparr>)))"

definition msg_end :: "nat \<Rightarrow> ('L, 'o) eva \<Rightarrow> ('L, 'o) eva res" where
  "msg_end ptr e = release_http_parser ptr e"

text \<open>The handlers as the channel calls them, with the pointer in the auxiliary data of the client.\<close>

definition crash :: "fault \<Rightarrow> ('L, 'o) eva \<Rightarrow> ('L, 'o) eva" where
  "crash f e = e\<lparr>crashed := Some f\<rparr>"

definition eva_handler :: "'L server \<Rightarrow> 'L eva_env \<Rightarrow> ('L, 'o) eva mb_handler" where
  "eva_handler V E =
     \<lparr>part_cb = (\<lambda>e sd data pos aux.
        if crashed e \<noteq> None then (e, 0, aux)
        else
          (case aux of
             None \<Rightarrow> (crash Null_Deref e, 0, aux)
           | Some ptr \<Rightarrow> (case dispatch V ptr data e of Inl f \<Rightarrow> (crash f e, 0, aux) | Inr (ret, e') \<Rightarrow> (e', ret, aux)))),
      begin_cb = (\<lambda>e sd aux.
        if crashed e \<noteq> None then (e, aux)
        else (case msg_start E sd e of Inl f \<Rightarrow> (crash f e, aux) | Inr (ptr, e') \<Rightarrow> (e', Some ptr))),
      end_cb = (\<lambda>e sd aux.
        if crashed e \<noteq> None then (e, aux)
        else
          (case aux of
             None \<Rightarrow> (crash Null_Deref e, None)
           | Some ptr \<Rightarrow> (case msg_end ptr e of Inl f \<Rightarrow> (crash f e, None) | Inr e' \<Rightarrow> (e', None))))\<rparr>"

section \<open>The program\<close>

text \<open>\<open>is_alive\<close> is what the signal handler clears; \<open>mb_channel_receive\<close> is called again while it is set.\<close>

partial_function (option) main_loop ::
    "(('L, 'o) eva \<Rightarrow> bool) \<Rightarrow> ('L, 'o) eva os \<Rightarrow> ('L, 'o) eva mb_handler \<Rightarrow> client_info \<Rightarrow> nat \<Rightarrow> ('L, 'o) eva \<Rightarrow>
     ('L, 'o) eva res option" where
  "main_loop is_alive P h junk srv e =
     (if \<not> is_alive e then Some (Inr e)
      else
        (case mb_channel_receive P h junk e srv of
           None \<Rightarrow> None
         | Some (Inl f) \<Rightarrow> Some (Inl f)
         | Some (Inr (exit_code, s)) \<Rightarrow>
             (case crashed (ch_env s) of
                Some f \<Rightarrow> Some (Inl f)
              | None \<Rightarrow> main_loop is_alive P h junk srv (ch_env s))))"

definition eva_main ::
    "'L server \<Rightarrow> 'L eva_env \<Rightarrow> (('L, 'o) eva \<Rightarrow> bool) \<Rightarrow> ('L, 'o) eva os \<Rightarrow> client_info \<Rightarrow> ('L, 'o) eva \<Rightarrow> (int \<times> ('L, 'o) eva) res option" where
  "eva_main V E is_alive P junk e =
     (case mb_channel_bind_port P e (port (eva_conf e)) of (e1, tcp_channel) \<Rightarrow>
        let e2 = init_http_parser_pool E 3 e1 in
        (case tcp_channel of
           None \<Rightarrow> Some (Inr (1, e2))
         | Some ch \<Rightarrow>
             (case main_loop is_alive P (eva_handler V E) junk (nat (mb_sd ch)) e2 of
                None \<Rightarrow> None
              | Some (Inl f) \<Rightarrow> Some (Inl f)
              | Some (Inr e3) \<Rightarrow> Some (Inr (0, fst (mb_channel_destroy P e3 ch))))))"


section \<open>Ownership of parsers\<close>

text \<open>
  Connections that start, receive and end in any order. \<open>out\<close> are the pointers of the connections that are
  open; a connection starts while fewer than the size of the pool are open.
\<close>

inductive eva_step ::
    "'L server \<Rightarrow> 'L eva_env \<Rightarrow> ('L, 'o) eva \<times> nat list \<Rightarrow> ('L, 'o) eva \<times> nat list \<Rightarrow> bool" for V E where
  start: "int (length out) < parser_pool_size e \<Longrightarrow> msg_start E sd e = Inr (ptr, e') \<Longrightarrow> eva_step V E (e, out) (e', out @ [ptr])"
| part: "ptr \<in> set out \<Longrightarrow> dispatch V ptr data e = Inr (ret, e') \<Longrightarrow> eva_step V E (e, out) (e', out)"
| finish: "ptr \<in> set out \<Longrightarrow> msg_end ptr e = Inr e' \<Longrightarrow> eva_step V E (e, out) (e', remove1 ptr out)"

inductive_cases eva_stepE: "eva_step V E (e, out) s"

text \<open>The pool holds, above its top, the idle parsers; no parser is owned twice.\<close>

definition pool_inv :: "('L, 'o) eva \<times> nat list \<Rightarrow> bool" where
  "pool_inv s \<longleftrightarrow>
     (case s of (e, out) \<Rightarrow>
       parser_pool_size e = int (length (parser_pool e)) \<and> parser_stack_top e = int (length out) \<and>
       length out \<le> length (parser_pool e) \<and> distinct (out @ drop (length out) (parser_pool e)) \<and>
       (\<forall>ptr \<in> set (out @ drop (length out) (parser_pool e)). heap e ptr \<noteq> None))"

definition eva_init :: "'L eva_env \<Rightarrow> nat \<Rightarrow> ('L, 'o) eva \<times> nat list \<Rightarrow> bool" where
  "eva_init E n s \<longleftrightarrow> (\<exists>e. s = (init_http_parser_pool E n e, []))"

lemma fill_pool_ok:
  assumes "distinct (parser_pool e)" and "\<forall>ptr \<in> set (parser_pool e). heap e ptr \<noteq> None \<and> ptr < fresh e"
  shows "distinct (parser_pool (fill_pool E n e)) \<and> length (parser_pool (fill_pool E n e)) = length (parser_pool e) + n \<and>
    (\<forall>ptr \<in> set (parser_pool (fill_pool E n e)). heap (fill_pool E n e) ptr \<noteq> None \<and> ptr < fresh (fill_pool E n e)) \<and>
    parser_pool_size (fill_pool E n e) = parser_pool_size e \<and> parser_stack_top (fill_pool E n e) = parser_stack_top e"
  using assms
proof (induction n arbitrary: e)
  case (Suc n)
  let ?e = "(snd (new_parser E e))\<lparr>parser_pool := parser_pool e @ [fresh e]\<rparr>"
  have "distinct (parser_pool ?e)" "\<forall>ptr \<in> set (parser_pool ?e). heap ?e ptr \<noteq> None \<and> ptr < fresh ?e"
    using Suc.prems by (auto simp: new_parser_def)
  from Suc.IH [OF this] show ?case by (simp add: new_parser_def)
qed simp

lemma eva_init_inv: "eva_init E n s \<Longrightarrow> pool_inv s"
proof -
  assume "eva_init E n s"
  then obtain e where s: "s = (init_http_parser_pool E n e, [])" by (auto simp: eva_init_def)
  let ?e = "e\<lparr>parser_pool_size := int n, parser_pool := [], parser_stack_top := 0\<rparr>"
  from fill_pool_ok [of ?e E n] show ?thesis by (simp add: s pool_inv_def init_http_parser_pool_def)
qed

lemma start_ok:
  assumes "pool_inv (e, out)" and "int (length out) < parser_pool_size e"
  shows "\<exists>ptr e'. msg_start E sd e = Inr (ptr, e') \<and> ptr \<notin> set out \<and> pool_inv (e', out @ [ptr]) \<and>
    (\<exists>p. heap e ptr = Some p \<and> heap e' = (heap e)(ptr \<mapsto> request_processor_reset p (int sd) (env_fdopen E sd) (eva_conf e))) \<and>
    eva_conf e' = eva_conf e \<and> e' = e\<lparr>heap := heap e', parser_stack_top := parser_stack_top e'\<rparr>"
proof -
  let ?n = "length out" and ?pool = "parser_pool e"
  have n: "?n < length ?pool" "parser_stack_top e = int ?n" using assms by (auto simp: pool_inv_def)
  then have drop: "drop ?n ?pool = ?pool ! ?n # drop (Suc ?n) ?pool" by (simp add: Cons_nth_drop_Suc)
  with assms(1) obtain p where p: "heap e (?pool ! ?n) = Some p" by (auto simp: pool_inv_def)
  have "?pool ! ?n \<notin> set out" using assms(1) drop by (auto simp: pool_inv_def)
  moreover have "get_http_parser E e = Inr (?pool ! ?n, e\<lparr>parser_stack_top := int ?n + 1\<rparr>)"
    using n assms by (simp add: get_http_parser_def pool_inv_def arr_read_def)
  ultimately show ?thesis using assms(1) p drop n by (auto simp: msg_start_def pool_inv_def)
qed

lemma part_ok:
  assumes "pool_inv (e, out)" and "ptr \<in> set out" and "dispatch V ptr data e = Inr (ret, e')"
  shows "pool_inv (e', out) \<and> (\<exists>p p' n r. heap e ptr = Some p \<and> heap e' = (heap e)(ptr \<mapsto> p') \<and>
    http_parser_execute (request_processor_settings_init V) (with_conf (eva_conf e) p) (chars data) = Inr (p', n) \<and>
    p_data p' = Inr r \<and> eva_conf e' = rq_conf r)"
  using assms by (auto simp: dispatch_def bind_res_Inr_iff pool_inv_def split: option.splits)

lemma end_ok:
  assumes "pool_inv (e, out)" and "ptr \<in> set out"
  shows "\<exists>e'. msg_end ptr e = Inr e' \<and> pool_inv (e', remove1 ptr out) \<and> heap e' = heap e \<and> eva_conf e' = eva_conf e"
proof -
  let ?n = "length out" and ?pool = "parser_pool e"
  have n: "0 < ?n" "?n \<le> length ?pool" "parser_stack_top e = int ?n" "parser_pool_size e = int (length ?pool)"
    using assms by (auto simp: pool_inv_def)
  let ?pool' = "?pool[?n - 1 := ptr]"
  have top: "parser_stack_top e - 1 = int (?n - 1)" "?n - 1 < length ?pool" using n by linarith+
  have e': "msg_end ptr e = Inr (e\<lparr>parser_stack_top := int (?n - 1), parser_pool := ?pool'\<rparr>)"
    using n(2,4) top by (simp add: msg_end_def release_http_parser_def Let_def arr_write_def)
  have drop: "drop (?n - 1) ?pool' = ptr # drop ?n ?pool"
    using n by (cases ?n) (simp_all add: drop_update_swap Cons_nth_drop_Suc [symmetric])
  have "length (remove1 ptr out) = ?n - 1" using assms(2) by (simp add: length_remove1)
  then show ?thesis using assms n drop e' by (auto simp: pool_inv_def distinct_remove1 dest: notin_set_remove1)
qed

text \<open>The parser that was given back is the next one taken.\<close>

lemma end_gives_back:
  assumes "pool_inv (e, out)" and "ptr \<in> set out" and "msg_end ptr e = Inr e'"
  shows "parser_stack_top e' = parser_stack_top e - 1 \<and>
    get_http_parser E e' = Inr (ptr, e'\<lparr>parser_stack_top := parser_stack_top e\<rparr>)"
proof -
  let ?n = "length out"
  have n: "0 < ?n" "?n \<le> length (parser_pool e)" "parser_stack_top e = int ?n" "parser_pool_size e = int (length (parser_pool e))"
    using assms(1,2) by (auto simp: pool_inv_def)
  then have top: "nat (parser_stack_top e - 1) = ?n - 1" "?n - 1 < length (parser_pool e)" "\<not> parser_stack_top e - 1 < 0" by linarith+
  then have "e' = e\<lparr>parser_stack_top := parser_stack_top e - 1, parser_pool := (parser_pool e)[?n - 1 := ptr]\<rparr>"
    using assms(3) n by (simp add: msg_end_def release_http_parser_def Let_def arr_write_def)
  then show ?thesis using top n by (simp add: get_http_parser_def arr_read_def)
qed

lemma eva_step_inv: "pool_inv s \<Longrightarrow> eva_step V E s t \<Longrightarrow> pool_inv t"
proof (cases s)
  case (Pair e out)
  assume inv: "pool_inv s" and "eva_step V E s t"
  then have "eva_step V E (e, out) t" "pool_inv (e, out)" using Pair by simp_all
  then show "pool_inv t"
  proof (cases rule: eva_step.cases)
    case (start sd ptr e')
    then show ?thesis using start_ok [OF \<open>pool_inv (e, out)\<close>, of E sd] by auto
  next
    case (part ptr data ret e')
    then show ?thesis using part_ok [OF \<open>pool_inv (e, out)\<close>] by auto
  next
    case (finish ptr e')
    then show ?thesis using end_ok [OF \<open>pool_inv (e, out)\<close> finish(2)] by auto
  qed
qed

interpretation eva: step_system "eva_init E n" "eva_step V E" pool_inv for E n V
  by unfold_locales (auto intro: eva_init_inv eva_step_inv)

section \<open>The table of connections\<close>

text \<open>
  The specification of the three handlers: a configuration and a table of the open connections, each with its
  own parser. Starting a connection adds one that was just reset; data changes that connection's only;
  ending removes it.
\<close>

type_synonym 'L table = "'L httpd_conf \<times> (nat \<Rightarrow> 'L parser option)"

inductive conn_step :: "'L server \<Rightarrow> 'L eva_env \<Rightarrow> 'L table \<Rightarrow> 'L table \<Rightarrow> bool" for V E where
  conn_start: "ptr \<notin> dom T \<Longrightarrow> conn_step V E (conf, T) (conf, T(ptr \<mapsto> request_processor_reset p (int sd) (env_fdopen E sd) conf))"
| conn_part: "T ptr = Some p \<Longrightarrow>
    http_parser_execute (request_processor_settings_init V) (with_conf conf p) (chars data) = Inr (p', n) \<Longrightarrow> p_data p' = Inr r \<Longrightarrow>
    conn_step V E (conf, T) (rq_conf r, T(ptr \<mapsto> p'))"
| conn_end: "ptr \<in> dom T \<Longrightarrow> conn_step V E (conf, T) (conf, T(ptr := None))"

definition table_of :: "('L, 'o) eva \<times> nat list \<Rightarrow> 'L table" where
  "table_of s = (case s of (e, out) \<Rightarrow> (eva_conf e, heap e |` set out))"

lemma eva_step_refines:
  assumes "pool_inv (e, out)" and "eva_step V E (e, out) (e', out')"
  shows "conn_step V E (table_of (e, out)) (table_of (e', out'))"
  using assms(2)
proof (cases rule: eva_step.cases)
  case (start sd ptr)
  then obtain p where p: "ptr \<notin> set out" "heap e' = (heap e)(ptr \<mapsto> request_processor_reset p (int sd) (env_fdopen E sd) (eva_conf e))"
    "eva_conf e' = eva_conf e" using start_ok [OF assms(1), of E sd] by auto
  then have "heap e' |` set out' = (heap e |` set out)(ptr \<mapsto> request_processor_reset p (int sd) (env_fdopen E sd) (eva_conf e))"
    using start by (auto simp: restrict_map_def fun_eq_iff)
  moreover have "ptr \<notin> dom (heap e |` set out)" using p(1) by simp
  note conn_start [OF this, of V E "eva_conf e" p sd]
  ultimately show ?thesis using p(3) by (simp add: table_of_def)
next
  case (part ptr data ret)
  then obtain p p' n r where p: "heap e ptr = Some p" "heap e' = (heap e)(ptr \<mapsto> p')" "p_data p' = Inr r" "eva_conf e' = rq_conf r"
    "http_parser_execute (request_processor_settings_init V) (with_conf (eva_conf e) p) (chars data) = Inr (p', n)"
    using part_ok [OF assms(1)] by blast
  have "(heap e |` set out) ptr = Some p" using part p(1) by simp
  note conn_part [where T = "heap e |` set out" and ptr = ptr and p = p and V = V and E = E, OF this p(5,3)]
  then show ?thesis
    using part p(2,4) by (simp add: table_of_def insert_absorb)
next
  case (finish ptr)
  with end_ok [OF assms(1)] have e': "heap e' = heap e" "eva_conf e' = eva_conf e" by fastforce+
  have "distinct out" using assms(1) by (simp add: pool_inv_def)
  then have "heap e' |` set out' = (heap e |` set out)(ptr := None)"
    using finish e' by (auto simp: restrict_map_def fun_eq_iff)
  moreover have "ptr \<in> dom (heap e |` set out)" using assms(1) finish by (auto simp: pool_inv_def)
  note conn_end [OF this, of V E "eva_conf e"]
  ultimately show ?thesis using e'(2) by (simp add: table_of_def)
qed

lemma eva_run_refines:
  assumes "(eva_step V E)\<^sup>*\<^sup>* s t" and "pool_inv s"
  shows "(conn_step V E)\<^sup>*\<^sup>* (table_of s) (table_of t)"
  using assms
proof (induction rule: rtranclp_induct)
  case (step t u)
  then have "pool_inv t" using eva.inv_run by blast
  with step.hyps(2) have "conn_step V E (table_of t) (table_of u)" using eva_step_refines by (cases t; cases u) simp
  with step.IH step.prems show ?case by simp
qed simp

section \<open>Properties\<close>

text \<open>C13. No parser is shared and none is lost: in every state that connections starting, receiving and ending in
  any order can reach from a fresh pool, with at most as many open as the pool has parsers, the open
  connections have different parsers; a further one gets a parser no other has, without allocating one; and
  every end of a connection gives its parser back without a fault: one parser fewer is taken, and
  the next connection gets the one that was given back.\<close>

theorem parsers_not_shared:
  assumes "(eva_step V E)\<^sup>*\<^sup>* (init_http_parser_pool E n e0, []) (e, out)"
  shows "distinct out \<and>
    (int (length out) < parser_pool_size e \<longrightarrow>
      (\<exists>ptr e'. msg_start E sd e = Inr (ptr, e') \<and> ptr \<notin> set out \<and> dom (heap e') = dom (heap e))) \<and>
    (\<forall>ptr \<in> set out. heap e ptr \<noteq> None \<and>
      (\<exists>e'. msg_end ptr e = Inr e' \<and> parser_stack_top e' = parser_stack_top e - 1 \<and>
        get_http_parser E e' = Inr (ptr, e'\<lparr>parser_stack_top := parser_stack_top e\<rparr>)))"
proof -
  have "eva_init E n (init_http_parser_pool E n e0, [])" by (auto simp: eva_init_def)
  from eva.inv_reachable [OF this assms] have inv: "pool_inv (e, out)" .
  have "\<forall>ptr \<in> set out. \<exists>e'. msg_end ptr e = Inr e' \<and> parser_stack_top e' = parser_stack_top e - 1 \<and>
      get_http_parser E e' = Inr (ptr, e'\<lparr>parser_stack_top := parser_stack_top e\<rparr>)"
    using end_ok [OF inv] end_gives_back [OF inv] by blast
  moreover have "\<exists>ptr e'. msg_start E sd e = Inr (ptr, e') \<and> ptr \<notin> set out \<and> dom (heap e') = dom (heap e)"
    if "int (length out) < parser_pool_size e"
  proof -
    from start_ok [OF inv that, of E sd] obtain ptr e' p where "msg_start E sd e = Inr (ptr, e')" "ptr \<notin> set out"
      "heap e ptr = Some p" "heap e' = (heap e)(ptr \<mapsto> request_processor_reset p (int sd) (env_fdopen E sd) (eva_conf e))" by blast
    then show ?thesis by (auto simp: insert_absorb domI)
  qed
  ultimately show ?thesis using inv by (simp add: pool_inv_def)
qed

text \<open>C14. Refinement: every run of the handlers from a fresh pool, with at most as many connections open as
  the pool has parsers, is a run of the table of connections: connections do not influence each other
  except through the configuration, and each starts with a parser that was just reset.\<close>

theorem eva_refines_table:
  assumes "(eva_step V E)\<^sup>*\<^sup>* (init_http_parser_pool E n e0, []) (e, out)"
  shows "(conn_step V E)\<^sup>*\<^sup>* (eva_conf (init_http_parser_pool E n e0), Map.empty) (eva_conf e, heap e |` set out)"
proof -
  have "eva_init E n (init_http_parser_pool E n e0, [])" by (auto simp: eva_init_def)
  from eva_run_refines [OF assms eva_init_inv [OF this]] show ?thesis by (simp add: table_of_def)
qed

definition the_res :: "'a res \<Rightarrow> 'a" where
  "the_res r = (case r of Inr x \<Rightarrow> x)"

text \<open>Runs for the witnesses: a connection starts in a fresh pool of one parser, or of two.\<close>

definition demo_env :: "lua_value list eva_env" where
  "demo_env = \<lparr>junk_parser = (\<lambda>k. raw_parser (Inl Null_Deref)), junk_conn = (\<lambda>k. demo_conn), env_fdopen = (\<lambda>sd. Open_File [])\<rparr>"

definition demo_eva :: "(lua_value list, unit) eva" where
  "demo_eva = \<lparr>parser_pool = [], parser_stack_top = 9, parser_pool_size = 9, heap = Map.empty, fresh = 5,
     eva_conf = demo_conf None, crashed = None, outside = ()\<rparr>"

definition demo_pool :: "nat \<Rightarrow> (lua_value list, unit) eva" where
  "demo_pool m = init_http_parser_pool demo_env m demo_eva"

definition demo_after :: "nat \<Rightarrow> (lua_value list, unit) eva" where
  "demo_after m = snd (the_res (msg_start demo_env 7 (demo_pool m)))"

abbreviation demo_started :: "(lua_value list, unit) eva" where
  "demo_started \<equiv> demo_after 1"

lemma demo_start:
  assumes "m = 1 \<or> m = 2"
  shows "msg_start demo_env 7 (demo_pool m) = Inr (5, demo_after m)"
proof -
  have "\<exists>e'. msg_start demo_env 7 (demo_pool m) = Inr (5, e')"
    using assms by (auto simp: demo_pool_def init_http_parser_pool_def demo_eva_def new_parser_def msg_start_def get_http_parser_def
        arr_read_def numeral_2_eq_2)
  then show ?thesis by (auto simp: demo_after_def the_res_def)
qed

lemma demo_run:
  assumes "m = 1 \<or> m = 2"
  shows "(eva_step demo_server demo_env)\<^sup>*\<^sup>* (demo_pool m, []) (demo_after m, [5])"
proof -
  have "int (length []) < parser_pool_size (demo_pool m)"
    using assms by (auto simp: demo_pool_def init_http_parser_pool_def demo_eva_def new_parser_def numeral_2_eq_2)
  then have "eva_step demo_server demo_env (demo_pool m, []) (demo_after m, [] @ [5])"
    using demo_start [OF assms] by (rule eva_step.start)
  then show ?thesis by auto
qed

lemma demo_size: "parser_pool_size (demo_after 1) = 1" "parser_pool_size (demo_after 2) = 2"
  by (simp_all add: demo_after_def the_res_def demo_pool_def init_http_parser_pool_def demo_eva_def new_parser_def msg_start_def
      get_http_parser_def arr_read_def numeral_2_eq_2)

lemmas demo_run_one = demo_run [OF disjI1 [OF refl], unfolded demo_pool_def]
lemmas demo_run_two = demo_run [OF disjI2 [OF refl], unfolded demo_pool_def]

theorem parsers_not_shared_witness:
  "distinct [5 :: nat] \<and> (\<exists>ptr e'. msg_start demo_env 8 (demo_after 2) = Inr (ptr, e') \<and> ptr \<noteq> 5 \<and> dom (heap e') = dom (heap (demo_after 2))) \<and>
    (\<exists>e'. msg_end 5 (demo_after 2) = Inr e' \<and> parser_stack_top e' = parser_stack_top (demo_after 2) - 1 \<and>
      get_http_parser demo_env e' = Inr (5, e'\<lparr>parser_stack_top := parser_stack_top (demo_after 2)\<rparr>))"
  using parsers_not_shared [OF demo_run_two, of 8] by (simp add: demo_size)

theorem eva_refines_table_witness:
  "(conn_step demo_server demo_env)\<^sup>*\<^sup>* (eva_conf (init_http_parser_pool demo_env 1 demo_eva), Map.empty)
     (eva_conf demo_started, heap demo_started |` set [5])"
  by (rule eva_refines_table [OF demo_run_one])

text \<open>A run of ends: every connection of a list is ended in turn.\<close>

fun end_all :: "nat list \<Rightarrow> ('L, 'o) eva \<Rightarrow> ('L, 'o) eva res" where
  "end_all [] e = Inr e"
| "end_all (ptr # ptrs) e = bind_res (msg_end ptr e) (end_all ptrs)"

lemma end_all_overflow:
  assumes "parser_pool_size e = int (length (parser_pool e))" and "parser_stack_top e = int n" and "n \<le> length (parser_pool e)"
    and "length ptrs = n + 1"
  shows "end_all ptrs e = Inl Out_Of_Bounds"
  using assms
proof (induction n arbitrary: e ptrs)
  case 0
  then obtain ptr where "ptrs = [ptr]" by (cases ptrs) auto
  with 0 show ?case by (simp add: msg_end_def release_http_parser_def Let_def)
next
  case (Suc n)
  then obtain ptr ps where ps: "ptrs = ptr # ps" "length ps = n + 1" by (cases ptrs) auto
  let ?e = "e\<lparr>parser_stack_top := int n, parser_pool := (parser_pool e)[n := ptr]\<rparr>"
  have "msg_end ptr e = Inr ?e" using Suc.prems by (simp add: msg_end_def release_http_parser_def Let_def arr_write_def)
  moreover have "end_all ps ?e = Inl Out_Of_Bounds" using Suc.prems ps(2) by (intro Suc.IH) simp_all
  ultimately show ?case using ps(1) by simp
qed

text \<open>C39. One connection too many: when one more connection is open than the pool has parsers, it gets a new parser
  without the pool counting it; once all of them have ended, in whatever order, the last release writes
  before the pool.\<close>

theorem extra_connection_corrupts_pool:
  assumes "(eva_step V E)\<^sup>*\<^sup>* (init_http_parser_pool E n e0, []) (e, out)" and "int (length out) = parser_pool_size e"
    and "length ptrs = length out + 1"
  shows "\<exists>ptr e'. msg_start E sd e = Inr (ptr, e') \<and> end_all ptrs e' = Inl Out_Of_Bounds"
proof -
  have "eva_init E n (init_http_parser_pool E n e0, [])" by (auto simp: eva_init_def)
  from eva.inv_reachable [OF this assms(1)] have inv: "pool_inv (e, out)" .
  then have top: "parser_pool_size e = int (length (parser_pool e))" "parser_stack_top e = int (length (parser_pool e))"
    using assms(2) by (auto simp: pool_inv_def)
  then have "get_http_parser E e = Inr (new_parser E e)" by (simp add: get_http_parser_def)
  then obtain e' where e': "msg_start E sd e = Inr (fresh e, e')" "parser_pool_size e' = parser_pool_size e"
    "parser_pool e' = parser_pool e" "parser_stack_top e' = parser_stack_top e"
    by (auto simp: msg_start_def new_parser_def)
  from end_all_overflow [of e' "length (parser_pool e)" ptrs] e' top assms(2,3) show ?thesis by simp
qed

theorem extra_connection_corrupts_pool_witness:
  "\<exists>ptr e'. msg_start demo_env 8 demo_started = Inr (ptr, e') \<and> end_all [5, 6] e' = Inl Out_Of_Bounds"
proof (rule extra_connection_corrupts_pool [OF demo_run_one])
  show "int (length [5 :: nat]) = parser_pool_size demo_started" using demo_size(1) by simp
qed simp

lemma sint_small: "n < 2 ^ 31 \<Longrightarrow> sint (word_of_nat n :: 32 word) = int n"
  by (simp add: signed_of_nat signed_take_bit_int_eq_self)

text \<open>C40. What \<open>dispatch\<close> returns is never negative, so that the channel never closes a connection because of what it
  received: for data of at most the size of the channel's buffer the result is between 0 and that size, and
  when the parser has failed it is 0 and nothing but the shared configuration's pointer changes.\<close>

theorem dispatch_never_refuses:
  assumes "heap e ptr = Some p" and "parser_ok p" and "length data \<le> CHANNEL_BUFFER" and "dispatch V ptr data e = Inr (ret, e')"
  shows "0 \<le> ret \<and> ret \<le> int (max 1 (length data)) \<and>
    (\<forall>err. p_state p = Failed err \<longrightarrow> ret = 0 \<and> heap e' = (heap e)(ptr \<mapsto> with_conf (eva_conf e) p))"
proof -
  let ?S = "request_processor_settings_init V" and ?p = "with_conf (eva_conf e) p"
  obtain p' n r where x: "http_parser_execute ?S ?p (chars data) = Inr (p', n)" "ret = sint (word_of_nat n :: 32 word)"
    "heap e' = (heap e)(ptr \<mapsto> p')"
    using assms(1,4) by (auto simp: dispatch_def bind_res_Inr_iff)
  have "parser_ok ?p" using assms(2) by (simp add: with_conf_def parser_ok_def split: stored_state.splits)
  from http_parser_execute_spec [OF this, of ?S "chars data"] x(1) have n: "n \<le> max 1 (length data)" by (simp add: chars_def)
  then have "n < 2 ^ 31" using assms(3) by (simp add: CHANNEL_BUFFER_def)
  then have "ret = int n" using x(2) by (simp add: sint_small)
  moreover have "n = 0 \<and> p' = ?p" if "p_state p = Failed err" for err
    using x(1) that by (simp add: http_parser_execute_def with_conf_def)
  ultimately show ?thesis using n x(3) by auto
qed

lemma demo_dispatch:
  "map_sum id fst (dispatch demo_server 5 [71] demo_started) = Inr 1"
  "(case heap demo_started 5 of Some p \<Rightarrow> parser_ok p | None \<Rightarrow> False)"
  by code_simp+

theorem dispatch_never_refuses_witness:
  "\<exists>p ret e'. heap demo_started 5 = Some p \<and> dispatch demo_server 5 [71] demo_started = Inr (ret, e') \<and>
    0 \<le> ret \<and> ret \<le> int (max 1 (length [71 :: byte])) \<and>
    (\<forall>err. p_state p = Failed err \<longrightarrow> ret = 0 \<and> heap e' = (heap demo_started)(5 \<mapsto> with_conf (eva_conf demo_started) p))"
proof -
  obtain p where p: "heap demo_started 5 = Some p" "parser_ok p" using demo_dispatch(2) by (auto split: option.splits)
  obtain ret e' where d: "dispatch demo_server 5 [71] demo_started = Inr (ret, e')"
    using demo_dispatch(1) by (cases "dispatch demo_server 5 [71] demo_started") auto
  have "length [71 :: byte] \<le> CHANNEL_BUFFER" by (simp add: CHANNEL_BUFFER_def)
  from dispatch_never_refuses [OF p this d] p(1) d show ?thesis by blast
qed

end
