(* ===== verification/Http_Invariant.thy ===== *)
theory Http_Invariant
  imports Http_Execute
begin

text \<open>
  What the callbacks keep, the parser keeps: a property of the data of the parser that every callback
  preserves holds after any buffers, whatever they hold. It is proved once for the loop of
  \<open>http_parser_execute\<close> (\<^verbatim>\<open>src/3rd-party/http-parser/http_parser.c\<close>) and used for the callbacks of
  the request processor.
\<close>

section \<open>Outcomes\<close>

fun outcome_inv :: "('u exec \<Rightarrow> bool) \<Rightarrow> 'u outcome \<Rightarrow> bool" where
  "outcome_inv J (Next x) \<longleftrightarrow> J x"
| "outcome_inv J (Return x n) \<longleftrightarrow> J x"
| "outcome_inv J (Error x) \<longleftrightarrow> J x"
| "outcome_inv J (Fault e) \<longleftrightarrow> True"

named_theorems inv_intro

lemma inv_Next [inv_intro]: "J x \<Longrightarrow> outcome_inv J (Next x)" by simp
lemma inv_Return [inv_intro]: "J x \<Longrightarrow> outcome_inv J (Return x n)" by simp
lemma inv_Error [inv_intro]: "J x \<Longrightarrow> outcome_inv J (Error x)" by simp
lemma inv_Fault [inv_intro]: "outcome_inv J (Fault e)" by simp

lemma inv_fail [inv_intro]: "J (set_errno x e) \<Longrightarrow> outcome_inv J (fail x e)"
  by (simp add: fail_def)

lemma inv_goto [inv_intro]: "J (x\<lparr>x_state := st\<rparr>) \<Longrightarrow> outcome_inv J (goto_state x st)"
  by (simp add: goto_state_def)

lemma inv_seq [inv_intro]:
  "outcome_inv J r \<Longrightarrow> (\<And>x. J x \<Longrightarrow> outcome_inv J (f x)) \<Longrightarrow> outcome_inv J (and_then r f)"
  by (cases r) auto

lemma inv_if [inv_intro]:
  "(c \<Longrightarrow> outcome_inv J a) \<Longrightarrow> (\<not> c \<Longrightarrow> outcome_inv J b) \<Longrightarrow> outcome_inv J (if c then a else b)"
  by simp

lemma inv_chunked [inv_intro]: "outcome_inv J r \<Longrightarrow> outcome_inv J (assert_chunked x r)"
  by (simp add: assert_chunked_def)

abbreviation keeps_data :: "('u \<Rightarrow> bool) \<Rightarrow> 'u outcome \<Rightarrow> bool" where
  "keeps_data I \<equiv> outcome_inv (\<lambda>x. I (p_data (x_parser x)))"

text \<open>All labels, for the proofs that go through them.\<close>

lemmas label_defs = at_start_req_or_res_def at_start_res_def at_start_req_def at_res_or_resp_H_def new_message_def
  first_http_major_def next_http_major_def first_http_minor_def next_http_minor_def at_res_http_minor_def
  at_req_http_minor_def at_res_first_status_code_def at_res_status_code_def at_res_status_def at_req_http_start_def
  at_req_line_almost_done_def at_req_spaces_before_url_def at_req_schema_def at_req_host_def at_req_port_def at_req_path_def
  at_req_query_string_start_def at_req_query_string_def at_req_fragment_start_def at_req_fragment_def
  mark_url_def mark_path_def mark_query_def mark_fragment_def mark_value_def at_header_field_def at_header_value_def
  at_header_value_start_def at_header_value_lws_def at_chunk_size_start_def at_chunk_size_def at_chunk_parameters_def
  at_chunk_size_almost_done_def

lemma data_upd [simp]: "p_data (x_parser (upd_parser x f)) = p_data (f (x_parser x))" "x_parser (set_errno x e) = (x_parser x)\<lparr>p_state := Failed e\<rparr>"
  by (simp_all add: upd_parser_def set_errno_def)

lemmas exec_loop_induct = exec_loop.raw_induct [where xa = "(S, x)" for S x,
  unfolded prod.case, rotated 1, consumes 1, case_names step]

lemma exec_loop_inv:
  assumes "exec_loop S x = Some r" and "J x"
    and byte: "\<And>ch x. J x \<Longrightarrow> outcome_inv J (exec_byte S ch x)" and p: "\<And>x i. J x \<Longrightarrow> J (x\<lparr>x_p := i\<rparr>)"
  shows "outcome_inv J r"
  using assms(1,2) refl [of S]
proof (induction S' \<equiv> S x r rule: exec_loop_induct)
  case (step loop x r)
  show ?case
  proof (cases "x_p x = length (x_data x) \<or> arr_read (x_data x) (x_p x) = Inl Out_Of_Bounds")
    case True
    with step show ?thesis by (auto split: if_splits)
  next
    case False
    then obtain ch where ch: "arr_read (x_data x) (x_p x) = Inr ch" by (auto simp: arr_read_def split: if_splits)
    from byte [OF step.prems(1)] have "outcome_inv J (exec_byte S ch x)" .
    with step ch False p show ?thesis by (cases "exec_byte S ch x") auto
  qed
qed

section \<open>The loop keeps what the callbacks keep\<close>

locale data_invariant =
  fixes S :: "'u http_parser_settings" and I :: "'u \<Rightarrow> bool"
  assumes keep_begin: "on_message_begin S = Some f \<Longrightarrow> I (p_data p) \<Longrightarrow> I (fst (f p))"
    and keep_path: "on_path S = Some g \<Longrightarrow> I (p_data p) \<Longrightarrow> I (fst (g p d))"
    and keep_query: "on_query_string S = Some g \<Longrightarrow> I (p_data p) \<Longrightarrow> I (fst (g p d))"
    and keep_url: "on_url S = Some g \<Longrightarrow> I (p_data p) \<Longrightarrow> I (fst (g p d))"
    and keep_fragment: "on_fragment S = Some g \<Longrightarrow> I (p_data p) \<Longrightarrow> I (fst (g p d))"
    and keep_field: "on_header_field S = Some g \<Longrightarrow> I (p_data p) \<Longrightarrow> I (fst (g p d))"
    and keep_value: "on_header_value S = Some g \<Longrightarrow> I (p_data p) \<Longrightarrow> I (fst (g p d))"
    and keep_headers: "on_headers_complete S = Some f \<Longrightarrow> I (p_data p) \<Longrightarrow> I (fst (f p))"
    and keep_body: "on_body S = Some g \<Longrightarrow> I (p_data p) \<Longrightarrow> I (fst (g p d))"
    and keep_end: "on_message_complete S = Some f \<Longrightarrow> I (p_data p) \<Longrightarrow> I (fst (f p))"
begin

abbreviation inv :: "'u exec \<Rightarrow> bool" where
  "inv x \<equiv> I (p_data (x_parser x))"

lemma callback2_keeps:
  assumes "inv x" and "\<And>f p. cb = Some f \<Longrightarrow> I (p_data p) \<Longrightarrow> I (fst (f p))"
  shows "keeps_data I (callback2 cb e x)"
proof (cases cb)
  case (Some f)
  obtain d r where "f (x_parser x) = (d, r)" by fastforce
  then show ?thesis using assms(2) [OF Some assms(1)] Some by (simp add: callback2_def Let_def)
qed (use assms(1) in \<open>simp add: callback2_def\<close>)

lemma noclear_keeps:
  assumes "inv x" and "\<And>g p d. cb = Some g \<Longrightarrow> I (p_data p) \<Longrightarrow> I (fst (g p d))"
  shows "keeps_data I (callback_noclear cb mark e x)"
proof (cases "mark = None \<or> cb = None")
  case False
  then obtain g m where g: "cb = Some g" "mark = Some m" by auto
  let ?d = "take (x_p x - m) (drop m (x_data x))"
  obtain d r where "g (x_parser x) ?d = (d, r)" by fastforce
  then show ?thesis using assms(2) [OF g(1) assms(1), of ?d] g by (simp add: callback_noclear_def Let_def)
qed (use assms(1) in \<open>auto simp: callback_noclear_def split: option.split\<close>)

lemma callback_keeps [inv_intro]:
  assumes "inv x"
  shows "keeps_data I (callback_url S x)" "keeps_data I (callback_path S x)" "keeps_data I (callback_query S x)"
    "keeps_data I (callback_fragment S x)" "keeps_data I (callback_field S x)" "keeps_data I (callback_value S x)"
    "keeps_data I (message_begin S x)" "keeps_data I (message_complete S x)"
  unfolding callback_url_def callback_path_def callback_query_def callback_fragment_def callback_field_def callback_value_def
    message_begin_def message_complete_def
  using assms keep_url keep_path keep_query keep_fragment keep_field keep_value keep_begin keep_end
  by (auto intro!: inv_seq noclear_keeps callback2_keeps)

lemma headers_keeps [inv_intro]: "inv x \<Longrightarrow> keeps_data I (headers_complete S x)"
  using keep_headers by (auto simp: headers_complete_def Let_def split: option.split prod.split) (metis fst_conv)+

lemma restart_keeps [inv_intro]: "inv x \<Longrightarrow> keeps_data I (complete_and_restart S x)"
  unfolding complete_and_restart_def by (intro inv_intro; simp)

lemma body_or_end_keeps [inv_intro]: "inv x \<Longrightarrow> keeps_data I (body_or_end S x)"
  unfolding body_or_end_def Let_def by (intro inv_intro; simp)

lemma skip_body_keeps [simp]: "inv x \<Longrightarrow> inv (skip_body S r x)"
  using keep_body by (auto simp: skip_body_def Let_def split: option.split)

lemma start_keeps [inv_intro]: "inv x \<Longrightarrow> keeps_data I (start_req_method_assign ch x)"
  by (auto simp: start_req_method_assign_def fail_def goto_state_def split: option.split)

lemma headers_done_keeps [inv_intro]: "inv x \<Longrightarrow> keeps_data I (headers_almost_done S x)"
  unfolding headers_almost_done_def Let_def by (intro inv_intro; simp)

lemma field_start_keeps [inv_intro]: "inv x \<Longrightarrow> keeps_data I (header_field_start S ch x)"
  unfolding header_field_start_def Let_def mark_field_def by (intro inv_intro; simp)

lemma value_keeps [inv_intro]:
  "inv x \<Longrightarrow> keeps_data I (value_char ch x)" "inv x \<Longrightarrow> keeps_data I (first_value_char ch x)"
  "inv x \<Longrightarrow> keeps_data I (field_char ch c x)" "inv x \<Longrightarrow> keeps_data I (header_almost_done x)"
  unfolding value_char_def first_value_char_def field_char_def header_almost_done_def Let_def match_next_def
  by (cases "x_hstate x"; simp add: fail_def goto_state_def)+

lemma method_keeps [inv_intro]: "inv x \<Longrightarrow> keeps_data I (at_req_method ch x)"
  by (auto simp: at_req_method_def Let_def fail_def goto_state_def split: sum.split bool.split)

lemma http_0_9_keeps [inv_intro]: "inv x \<Longrightarrow> keeps_data I (http_0_9 st x)"
  by (simp add: http_0_9_def goto_state_def)

lemma body_keeps [inv_intro]:
  "inv x \<Longrightarrow> keeps_data I (at_body_identity S x)" "inv x \<Longrightarrow> keeps_data I (at_body_identity_eof S x)"
  "inv x \<Longrightarrow> keeps_data I (at_chunk_data S x)"
  unfolding at_body_identity_def at_body_identity_eof_def at_chunk_data_def Let_def by (intro inv_intro; simp)+

lemma step_keeps: "inv x \<Longrightarrow> keeps_data I (step st S ch x)"
  by (cases st; simp only: step.simps label_defs Let_def; intro inv_intro; simp)

lemma exec_byte_keeps: "inv x \<Longrightarrow> keeps_data I (exec_byte S ch x)"
  unfolding exec_byte_def Let_def using step_keeps by (intro inv_intro) simp_all

lemma exec_loop_keeps: "exec_loop S x = Some r \<Longrightarrow> inv x \<Longrightarrow> keeps_data I r"
  by (erule exec_loop_inv) (simp_all add: exec_byte_keeps)

lemma exec_end_keeps: "inv x \<Longrightarrow> keeps_data I (exec_end S x)"
  unfolding exec_end_def
  using keep_url keep_path keep_query keep_fragment keep_field keep_value by (auto intro!: inv_seq noclear_keeps)

lemma exec_result_keeps: "keeps_data I r \<Longrightarrow> exec_result r = Inr (p', n) \<Longrightarrow> I (p_data p')"
  by (cases r) (auto split: stored_state.splits)

lemma exec_eof_keeps:
  assumes "I (p_data p)" and "exec_eof S p st = Inr (p', n)"
  shows "I (p_data p')"
proof -
  have "keeps_data I (message_complete S (exec_init p st []))"
    using assms(1) by (intro callback_keeps) (simp add: exec_init_def Let_def)
  with assms show ?thesis
    by (auto simp: exec_eof_def split: if_splits outcome.splits stored_state.split)
qed

theorem execute_keeps:
  assumes "I (p_data p)" and "http_parser_execute S p dat = Inr (p', n)"
  shows "I (p_data p')"
proof (cases "p_state p")
  case (Failed e)
  with assms show ?thesis by (simp add: http_parser_execute_def)
next
  case (Running st)
  show ?thesis
  proof (cases "dat = []")
    case True
    with assms Running show ?thesis by (auto simp: http_parser_execute_def intro: exec_eof_keeps)
  next
    case False
    with assms(2) Running obtain r where r: "exec_loop S (exec_init p st dat) = Some r"
      "exec_result (and_then r (exec_end S)) = Inr (p', n)"
      by (auto simp: http_parser_execute_def split: option.splits)
    have "keeps_data I r" using exec_loop_keeps [OF r(1)] assms(1) by (simp add: exec_init_def Let_def)
    then have "keeps_data I (and_then r (exec_end S))" using exec_end_keeps by (intro inv_seq)
    from exec_result_keeps [OF this r(2)] show ?thesis .
  qed
qed

lemma feed_keeps: "I (p_data p) \<Longrightarrow> feed S p ds = Inr p' \<Longrightarrow> I (p_data p')"
proof (induction ds arbitrary: p)
  case (Cons d ds)
  then show ?case using execute_keeps [OF Cons.prems(1)] by (auto simp: bind_res_Inr_iff split: if_splits)
qed simp

end

section \<open>A parser of requests stays one\<close>

text \<open>
  \<open>type\<close> only changes in the two states that wait for either kind of message, which a parser of
  requests never enters.
\<close>

fun request_state :: "state \<Rightarrow> bool" where
  "request_state s_start_req_or_res \<longleftrightarrow> False"
| "request_state s_res_or_resp_H \<longleftrightarrow> False"
| "request_state st \<longleftrightarrow> True"

definition request_side :: "'u http_parser \<Rightarrow> bool" where
  "request_side p \<longleftrightarrow> type p = HTTP_REQUEST \<and> p_index p < 2 ^ 8 \<and> (\<forall>st. p_state p = Running st \<longrightarrow> request_state st)"

definition requests :: "'u exec \<Rightarrow> bool" where
  "requests x \<longleftrightarrow> request_state (x_state x) \<and> request_side (x_parser x)"

lemma requests_data [simp]:
  "requests (with_data x d) \<longleftrightarrow> requests x"
  "requests (upd_parser x (\<lambda>p. p\<lparr>content_length := n p\<rparr>)) \<longleftrightarrow> requests x"
  "requests (upd_parser x (\<lambda>p. p\<lparr>flags := fl p, content_length := n p\<rparr>)) \<longleftrightarrow> requests x"
  "requests (upd_parser x (\<lambda>p. p\<lparr>flags := fl p\<rparr>)) \<longleftrightarrow> requests x"
  "requests (upd_parser x (\<lambda>p. p\<lparr>upgrade := b\<rparr>)) \<longleftrightarrow> requests x"
  "requests (upd_parser x (\<lambda>p. p\<lparr>p_method := m\<rparr>)) \<longleftrightarrow> requests x"
  "requests (upd_parser x (\<lambda>p. p\<lparr>http_major := j p\<rparr>)) \<longleftrightarrow> requests x"
  "requests (upd_parser x (\<lambda>p. p\<lparr>http_minor := j p\<rparr>)) \<longleftrightarrow> requests x"
  "requests (upd_parser x (\<lambda>p. p\<lparr>http_major := j p, http_minor := k p\<rparr>)) \<longleftrightarrow> requests x"
  "requests (upd_parser x (\<lambda>p. p\<lparr>status_code := j p\<rparr>)) \<longleftrightarrow> requests x"
  by (simp_all add: requests_def request_side_def upd_parser_def)

lemma requests_local [simp]:
  "requests (set_errno x e) \<longleftrightarrow> request_state (x_state x) \<and> type (x_parser x) = HTTP_REQUEST \<and> p_index (x_parser x) < 2 ^ 8"
  "requests (x\<lparr>x_state := st\<rparr>) \<longleftrightarrow> request_state st \<and> request_side (x_parser x)"
  "requests (x\<lparr>x_index := i\<rparr>) \<longleftrightarrow> requests x" "requests (x\<lparr>x_hstate := h\<rparr>) \<longleftrightarrow> requests x"
  "requests (x\<lparr>x_nread := i\<rparr>) \<longleftrightarrow> requests x" "requests (x\<lparr>x_p := i\<rparr>) \<longleftrightarrow> requests x"
  "requests (x\<lparr>url_mark := mk\<rparr>) \<longleftrightarrow> requests x" "requests (x\<lparr>path_mark := mk\<rparr>) \<longleftrightarrow> requests x"
  "requests (x\<lparr>query_mark := mk\<rparr>) \<longleftrightarrow> requests x" "requests (x\<lparr>fragment_mark := mk\<rparr>) \<longleftrightarrow> requests x"
  "requests (x\<lparr>field_mark := mk\<rparr>) \<longleftrightarrow> requests x" "requests (x\<lparr>value_mark := mk\<rparr>) \<longleftrightarrow> requests x"
  by (simp_all add: requests_def request_side_def set_errno_def upd_parser_def)

lemma requestsD: "requests x \<Longrightarrow> request_state (x_state x)" "requests x \<Longrightarrow> request_side (x_parser x)"
  "requests x \<Longrightarrow> type (x_parser x) = HTTP_REQUEST" "requests x \<Longrightarrow> p_index (x_parser x) < 256"
  by (simp_all add: requests_def request_side_def)

lemma noclear_requests: "requests x \<Longrightarrow> outcome_inv requests (callback_noclear cb mark e x)"
  by (auto simp: callback_noclear_def Let_def requestsD split: option.split prod.split)

lemma callback2_requests: "requests x \<Longrightarrow> outcome_inv requests (callback2 cb e x)"
  by (auto simp: callback2_def Let_def requestsD split: option.split prod.split)

lemma callback_requests [inv_intro]:
  assumes "requests x"
  shows "outcome_inv requests (callback_url S x)" "outcome_inv requests (callback_path S x)"
    "outcome_inv requests (callback_query S x)" "outcome_inv requests (callback_fragment S x)"
    "outcome_inv requests (callback_field S x)" "outcome_inv requests (callback_value S x)"
    "outcome_inv requests (message_begin S x)" "outcome_inv requests (message_complete S x)"
  unfolding callback_url_def callback_path_def callback_query_def callback_fragment_def callback_field_def callback_value_def
    message_begin_def message_complete_def
  using assms by (auto intro!: inv_seq noclear_requests callback2_requests)

lemma requests_flags [simp]:
  "request_side (x_parser (upd_parser x (\<lambda>p. p\<lparr>flags := fl p\<rparr>))) \<longleftrightarrow> request_side (x_parser x)"
  "request_side (x_parser (upd_parser x (\<lambda>p. p\<lparr>content_length := n p\<rparr>))) \<longleftrightarrow> request_side (x_parser x)"
  "request_side (x_parser (upd_parser x (\<lambda>p. p\<lparr>p_method := m\<rparr>))) \<longleftrightarrow> request_side (x_parser x)"
  "request_side (x_parser (upd_parser x (\<lambda>p. p\<lparr>http_major := j p\<rparr>))) \<longleftrightarrow> request_side (x_parser x)"
  "request_side (x_parser (upd_parser x (\<lambda>p. p\<lparr>http_minor := j p\<rparr>))) \<longleftrightarrow> request_side (x_parser x)"
  "request_side (x_parser (upd_parser x (\<lambda>p. p\<lparr>http_major := j p, http_minor := k p\<rparr>))) \<longleftrightarrow> request_side (x_parser x)"
  "request_side (x_parser (upd_parser x (\<lambda>p. p\<lparr>status_code := j p\<rparr>))) \<longleftrightarrow> request_side (x_parser x)"
  by (simp_all add: request_side_def upd_parser_def)

lemma start_requests: "requests x \<Longrightarrow> start_state x = s_start_req"
  by (simp add: start_state_def requestsD)

lemma headers_requests [inv_intro]: "requests x \<Longrightarrow> outcome_inv requests (headers_complete S x)"
  by (auto simp: headers_complete_def Let_def requestsD split: option.split prod.split)

lemma restart_requests [inv_intro]: "requests x \<Longrightarrow> outcome_inv requests (complete_and_restart S x)"
  unfolding complete_and_restart_def by (intro inv_intro; simp add: start_requests requestsD)

lemma body_or_end_requests [inv_intro]: "requests x \<Longrightarrow> outcome_inv requests (body_or_end S x)"
  unfolding body_or_end_def Let_def by (intro inv_intro; simp add: requestsD)

lemma skip_body_requests [simp]: "requests (skip_body S r x) \<longleftrightarrow> requests x"
  by (auto simp: skip_body_def Let_def requests_def request_side_def upd_parser_def split: option.split)

lemma start_assign_requests [inv_intro]: "requests x \<Longrightarrow> outcome_inv requests (start_req_method_assign ch x)"
  by (auto simp: start_req_method_assign_def fail_def goto_state_def requestsD split: option.split)

lemma headers_done_requests [inv_intro]: "requests x \<Longrightarrow> outcome_inv requests (headers_almost_done S x)"
  unfolding headers_almost_done_def Let_def by (intro inv_intro; simp)

lemma field_start_requests [inv_intro]: "requests x \<Longrightarrow> outcome_inv requests (header_field_start S ch x)"
  unfolding header_field_start_def Let_def mark_field_def
  by (intro inv_intro; simp add: requestsD)

lemma value_requests [inv_intro]:
  "requests x \<Longrightarrow> outcome_inv requests (value_char ch x)" "requests x \<Longrightarrow> outcome_inv requests (first_value_char ch x)"
  "requests x \<Longrightarrow> outcome_inv requests (field_char ch c x)" "requests x \<Longrightarrow> outcome_inv requests (header_almost_done x)"
  unfolding value_char_def first_value_char_def field_char_def header_almost_done_def Let_def match_next_def
  by (cases "x_hstate x"; auto simp: fail_def goto_state_def requests_def request_side_def upd_parser_def set_errno_def)+

lemma method_requests [inv_intro]: "requests x \<Longrightarrow> outcome_inv requests (at_req_method ch x)"
  by (auto simp: at_req_method_def Let_def fail_def goto_state_def requestsD split: sum.split bool.split)

lemma http_0_9_requests [inv_intro]: "requests x \<Longrightarrow> request_state st \<Longrightarrow> outcome_inv requests (http_0_9 st x)"
  by (simp add: http_0_9_def goto_state_def requestsD)

lemma step_requests:
  "requests x \<Longrightarrow> request_state st \<Longrightarrow> outcome_inv requests (step st S ch x)"
  by (cases st; simp only: step.simps label_defs Let_def at_body_identity_def at_body_identity_eof_def at_chunk_data_def;
      intro inv_intro; simp add: requestsD)

lemma exec_byte_requests: "requests x \<Longrightarrow> outcome_inv requests (exec_byte S ch x)"
  unfolding exec_byte_def Let_def by (intro inv_intro step_requests) (simp_all add: requestsD)

lemma exec_result_requests: "outcome_inv requests r \<Longrightarrow> exec_result r = Inr (p', n) \<Longrightarrow> request_side p'"
  by (cases r) (auto simp: requests_def request_side_def split: stored_state.splits)

lemma execute_requests:
  assumes "request_side p" and "http_parser_execute S p dat = Inr (p', n)"
  shows "request_side p'"
proof (cases "p_state p")
  case (Failed e)
  with assms show ?thesis by (simp add: http_parser_execute_def)
next
  case (Running st)
  with assms(1) have init: "requests (exec_init p st d)" for d
    by (simp add: requests_def exec_init_def Let_def request_side_def)
  show ?thesis
  proof (cases "dat = []")
    case True
    have "outcome_inv requests (message_complete S (exec_init p st []))" using init by (rule callback_requests)
    with assms True Running show ?thesis
      by (auto simp: http_parser_execute_def exec_eof_def requests_def request_side_def split: if_splits outcome.splits stored_state.splits)
  next
    case False
    with assms(2) Running obtain r where r: "exec_loop S (exec_init p st dat) = Some r"
      "exec_result (and_then r (exec_end S)) = Inr (p', n)"
      by (auto simp: http_parser_execute_def split: option.splits)
    have "outcome_inv requests r" using r(1) init by (rule exec_loop_inv) (simp_all add: exec_byte_requests)
    then have "outcome_inv requests (and_then r (exec_end S))"
      unfolding exec_end_def by (intro inv_seq noclear_requests)
    from exec_result_requests [OF this r(2)] show ?thesis .
  qed
qed

end
