(* ===== verification/Eva_Server.thy ===== *)
theory Eva_Server
  imports Eva_Main Http_Invariant
begin

text \<open>
  The server as a whole: the select loop of \<^verbatim>\<open>src/comm/channel.c\<close> calls the handlers of
  \<^verbatim>\<open>src/http/main.c\<close>, which feed the parser, whose callbacks answer. What was proved of the parts is
  put together for one ready client, in any state that earlier connections can have led to.
\<close>

section \<open>Faults stay\<close>

text \<open>A fault in a callback stays in the data of the parser.\<close>

interpretation faulty: data_invariant "request_processor_settings_init V" "\<lambda>u. u = Inl f" for V f
  by unfold_locales (auto simp: request_processor_settings_init_def guard_fault_def)

text \<open>Whatever is received, the path and the query are strings with a terminator.\<close>

lemma save_data_terminated: "block_ok b n \<Longrightarrow> save_data b n d = (b', n') \<Longrightarrow> block_ok b' n'"
  by (auto simp: save_data_def block_ok_def length_strncpy_bytes split: option.splits)

lemma save_terminated: "request_ok r \<Longrightarrow> request_ok (save_path r d)" "request_ok r \<Longrightarrow> request_ok (save_query r d)"
  by (auto simp: request_ok_def save_path_def save_query_def split: prod.split dest: save_data_terminated)

interpretation terminated: data_invariant "request_processor_settings_init V" data_ok for V
  by unfold_locales
    (auto simp: request_processor_settings_init_def guard_fault_def data_ok_def bind_res_Inr_iff save_terminated on_body_cb_def
      same_text_ok [OF start_processing_text] same_text_ok [OF end_message_text])

context data_invariant
begin

lemma run_keeps: "I (p_data p) \<Longrightarrow> run S p ds = Some p' \<Longrightarrow> I (p_data p')"
proof (induction ds arbitrary: p)
  case (Cons d ds)
  then show ?case using execute_keeps [OF Cons.prems(1)] by (auto split: sum.splits prod.splits stored_state.splits if_splits)
qed simp

end

text \<open>After any buffers the path and the query of a request have their size and a terminator.\<close>

lemma request_strings_terminated:
  assumes "feed (request_processor_settings_init V) (request_processor_reset p sd fd conf) ds = Inr p'" and "p_data p' = Inr r"
  shows "request_ok r"
  using terminated.feed_keeps [OF reset_data_ok assms(1)] assms(2) by (simp add: data_ok_def)

section \<open>Idle parsers\<close>

text \<open>
  Every parser of the pool or of an open connection is a parser of requests, with no fault in its data:
  a fault would have ended the program. \<open>malloc\<close> gives an index of the type \<open>unsigned char\<close>.
\<close>

definition env_ok :: "'L eva_env \<Rightarrow> bool" where
  "env_ok E \<longleftrightarrow> (\<forall>k. p_index (junk_parser E k) < 2 ^ 8)"

definition sound :: "'L parser \<Rightarrow> bool" where
  "sound p \<longleftrightarrow> request_side p \<and> (\<exists>r. p_data p = Inr r)"

definition all_sound :: "('L, 'o) eva \<times> nat list \<Rightarrow> bool" where
  "all_sound s \<longleftrightarrow> pool_inv s \<and> (\<forall>ptr p. heap (fst s) ptr = Some p \<longrightarrow> sound p)"

text \<open>The start of the program: nothing is allocated.\<close>

definition eva_start :: "'L eva_env \<Rightarrow> nat \<Rightarrow> ('L, 'o) eva \<times> nat list \<Rightarrow> bool" where
  "eva_start E n s \<longleftrightarrow> env_ok E \<and> (\<exists>e. heap e = Map.empty \<and> s = (init_http_parser_pool E n e, []))"

lemma sound_usable: "sound p \<Longrightarrow> usable p"
  by (simp add: sound_def request_side_def usable_def)

lemma sound_reset: "sound p \<Longrightarrow> sound (request_processor_reset p sd fd conf)"
  by (auto simp: sound_def request_side_def request_processor_reset_def http_parser_init_def)

lemma sound_init: "p_index junk < 256 \<Longrightarrow> sound (request_processor_init junk conn conf)"
  by (simp add: sound_def request_side_def request_processor_init_def http_parser_init_def)

lemma sound_conf: "sound p \<Longrightarrow> sound (with_conf conf p)"
  by (auto simp: sound_def request_side_def with_conf_def)

lemma fill_pool_sound:
  "env_ok E \<Longrightarrow> \<forall>ptr p. heap e ptr = Some p \<longrightarrow> sound p \<Longrightarrow> \<forall>ptr p. heap (fill_pool E n e) ptr = Some p \<longrightarrow> sound p"
proof (induction n arbitrary: e)
  case (Suc n)
  let ?e = "(snd (new_parser E e))\<lparr>parser_pool := parser_pool e @ [fresh e]\<rparr>"
  have "\<forall>ptr p. heap ?e ptr = Some p \<longrightarrow> sound p"
    using Suc.prems by (auto simp: new_parser_def env_ok_def sound_init split: if_splits)
  from Suc.IH [OF Suc.prems(1) this] show ?case by (simp add: new_parser_def)
qed simp

lemma all_sound_start:
  assumes "eva_start E n s"
  shows "all_sound s"
proof -
  from assms obtain e where e: "env_ok E" "heap e = Map.empty" "s = (init_http_parser_pool E n e, [])"
    by (auto simp: eva_start_def)
  then have "pool_inv s" using eva_init_inv [of E n s] by (auto simp: eva_init_def)
  with e fill_pool_sound [of E "e\<lparr>parser_pool_size := int n, parser_pool := [], parser_stack_top := 0\<rparr>" n] show ?thesis
    by (simp add: all_sound_def init_http_parser_pool_def)
qed

lemma all_sound_step:
  assumes "all_sound s" and "eva_step V E s t"
  shows "all_sound t"
proof -
  obtain e out e' out' where s: "s = (e, out)" "t = (e', out')" by fastforce
  have inv: "pool_inv (e, out)" and sound: "\<And>ptr p. heap e ptr = Some p \<Longrightarrow> sound p"
    using assms(1) s by (auto simp: all_sound_def)
  from assms(2) s have "eva_step V E (e, out) (e', out')" by simp
  then have "\<forall>ptr p. heap e' ptr = Some p \<longrightarrow> sound p"
  proof (cases rule: eva_step.cases)
    case (start sd ptr)
    with start_ok [OF inv, of E sd] obtain p where
      "heap e ptr = Some p" "heap e' = (heap e)(ptr \<mapsto> request_processor_reset p (int sd) (env_fdopen E sd) (eva_conf e))" by auto
    then show ?thesis using sound by (auto simp: sound_reset)
  next
    case (part ptr data ret)
    with part_ok [OF inv] obtain p p' n r where x: "heap e ptr = Some p" "heap e' = (heap e)(ptr \<mapsto> p')" "p_data p' = Inr r"
      "http_parser_execute (request_processor_settings_init V) (with_conf (eva_conf e) p) (chars data) = Inr (p', n)" by blast
    have "request_side (with_conf (eva_conf e) p)" using sound_conf [OF sound [OF x(1)]] by (simp add: sound_def)
    from execute_requests [OF this x(4)] have "sound p'" using x(3) by (simp add: sound_def)
    then show ?thesis using x(2) sound by auto
  next
    case (finish ptr)
    with end_ok [OF inv] have "heap e' = heap e" by fastforce
    then show ?thesis using sound by simp
  qed
  then show ?thesis using eva_step_inv [OF inv] \<open>eva_step V E (e, out) (e', out')\<close> by (simp add: all_sound_def s)
qed

interpretation server: step_system "eva_start E n" "eva_step V E" all_sound for E n V
  by unfold_locales (auto intro: all_sound_start all_sound_step)

section \<open>One ready client\<close>

text \<open>
  The operating system touches nothing of the program, only what is \<open>outside\<close>. \<open>delivers\<close> says what the
  socket of a client gives whose request is there: the buffers in turn. The callback at the end of the
  request closes the stream of the client and with it the descriptor, so that the \<open>recv\<close> after the last
  buffer fails with \<open>EBADF\<close>.
\<close>

definition quiet :: "('L, 'o) eva os \<Rightarrow> bool" where
  "quiet P \<longleftrightarrow> (\<forall>e. os_realloc P e = (e, True)) \<and> (\<forall>e sd. \<exists>o'. os_close P e sd = e\<lparr>outside := o'\<rparr>)"

primrec delivers :: "('L, 'o) eva os \<Rightarrow> nat \<Rightarrow> byte list list \<Rightarrow> 'o \<Rightarrow> bool" where
  "delivers P sd [] o1 \<longleftrightarrow>
     (\<exists>o'. \<forall>e. outside e = o1 \<longrightarrow> os_recv P e sd = (e\<lparr>outside := o'\<rparr>, Bad_Descriptor))"
| "delivers P sd (d # ds) o1 \<longleftrightarrow>
     d \<noteq> [] \<and> length d \<le> CHANNEL_BUFFER \<and>
     (\<exists>o'. (\<forall>e. outside e = o1 \<longrightarrow> os_recv P e sd = (e\<lparr>outside := o'\<rparr>, Received d)) \<and> delivers P sd ds o')"

definition served :: "('L, 'o) eva \<Rightarrow> nat \<Rightarrow> 'L parser \<Rightarrow> 'L httpd_conf \<Rightarrow> ('L, 'o) eva \<Rightarrow> bool" where
  "served e ptr p conf e' \<longleftrightarrow> (\<exists>o'. e' = e\<lparr>heap := (heap e)(ptr \<mapsto> p), eva_conf := conf, outside := o'\<rparr>)"

lemma dispatch_next:
  assumes "heap e ptr = Some p" and "parser_ok p" and "p_data p = Inr r" and "rq_conf r = eva_conf e" and "length d \<le> CHANNEL_BUFFER"
    and "http_parser_execute (request_processor_settings_init V) p (chars d) = Inr (p1, n)" and "p_data p1 = Inr r1"
  shows "dispatch V ptr d e = Inr (int n, e\<lparr>heap := (heap e)(ptr \<mapsto> p1), eva_conf := rq_conf r1\<rparr>)"
proof -
  have conf: "with_conf (eva_conf e) p = p" using assms(3,4) by (simp add: with_conf_def)
  have "n \<le> max 1 (length d)"
    using http_parser_execute_spec [OF assms(2), of "request_processor_settings_init V" "chars d"] assms(6) by (simp add: chars_def)
  then have "n < 2 ^ 31" using assms(5) by (simp add: CHANNEL_BUFFER_def)
  then show ?thesis using assms(1,6,7) conf by (simp add: dispatch_def sint_small)
qed

lemma recv_loop_delivers:
  assumes "delivers P sd ds (outside (ch_env s))" and "sd < length (clients s)" and "aux_data (clients s ! sd) = Some ptr"
    and "crashed (ch_env s) = None" and "heap (ch_env s) ptr = Some p" and "parser_ok p" and "p_data p = Inr r"
    and "rq_conf r = eva_conf (ch_env s)" and "run (request_processor_settings_init V) p (map chars ds) = Some p'" and "p_data p' = Inr r'"
  shows "\<exists>s'. recv_loop P (eva_handler V E) sd pos s = Some (Inr (False, s')) \<and> same_shape s s' \<and>
    served (ch_env s) ptr p' (rq_conf r') (ch_env s') \<and> aux_data (clients s' ! sd) = Some ptr"
  using assms
proof (induction ds arbitrary: s p r pos)
  case Nil
  then obtain o' where "os_recv P (ch_env s) sd = ((ch_env s)\<lparr>outside := o'\<rparr>, Bad_Descriptor)" by auto
  moreover have "served (ch_env s) ptr p' (rq_conf r') ((ch_env s)\<lparr>outside := o'\<rparr>)"
    unfolding served_def using Nil.prems by (intro exI [of _ o']) (simp add: fun_upd_idem)
  ultimately show ?case using Nil.prems by (subst recv_loop.simps) (simp add: same_shape_def)
next
  case (Cons d ds)
  let ?S = "request_processor_settings_init V" and ?e = "ch_env s"
  from Cons.prems(1) obtain o' where o': "length d \<le> CHANNEL_BUFFER" "os_recv P ?e sd = (?e\<lparr>outside := o'\<rparr>, Received d)"
    "delivers P sd ds o'" by auto
  from Cons.prems(9) obtain p1 n where p1: "http_parser_execute ?S p (chars d) = Inr (p1, n)" "\<not> upgrade p1"
    "run ?S p1 (map chars ds) = Some p'" by (auto split: sum.splits prod.splits stored_state.splits if_splits)
  obtain r1 where r1: "p_data p1 = Inr r1"
  proof (cases "p_data p1")
    case (Inl f)
    from faulty.run_keeps [OF this p1(3)] Cons.prems(10) show ?thesis by simp
  qed
  have ok1: "parser_ok p1" using http_parser_execute_spec [OF Cons.prems(6), of ?S "chars d"] p1(1,2) by auto
  let ?e1 = "?e\<lparr>heap := (heap ?e)(ptr \<mapsto> p1), eva_conf := rq_conf r1, outside := o'\<rparr>"
  have "dispatch V ptr d (?e\<lparr>outside := o'\<rparr>) = Inr (int n, ?e1)"
    using dispatch_next [of "?e\<lparr>outside := o'\<rparr>" ptr p r d V p1 n r1] Cons.prems(5-8) o'(1) p1(1) r1 by simp
  then have part: "part_cb (eva_handler V E) (?e\<lparr>outside := o'\<rparr>) sd d pos (Some ptr) = (?e1, int n, Some ptr)"
    using Cons.prems(4) by (simp add: eva_handler_def)
  let ?s1 = "s\<lparr>ch_env := ?e1, clients := (clients s)[sd := \<lparr>position = c_int (pos + int (length d)), aux_data = Some ptr\<rparr>]\<rparr>"
  have eq: "recv_loop P (eva_handler V E) sd pos s = recv_loop P (eva_handler V E) sd (c_int (pos + int (length d))) ?s1"
    using o'(2) part Cons.prems(2,3) by (subst recv_loop.simps) (simp add: arr_read_ok)
  have "\<exists>s'. recv_loop P (eva_handler V E) sd (c_int (pos + int (length d))) ?s1 = Some (Inr (False, s')) \<and> same_shape ?s1 s' \<and>
      served (ch_env ?s1) ptr p' (rq_conf r') (ch_env s') \<and> aux_data (clients s' ! sd) = Some ptr"
    using Cons.prems(2,4) o'(3) ok1 r1 p1(3) Cons.prems(10) by (intro Cons.IH [where p = p1 and r = r1]) simp_all
  then obtain s' where s': "recv_loop P (eva_handler V E) sd (c_int (pos + int (length d))) ?s1 = Some (Inr (False, s'))"
    "same_shape ?s1 s'" "served (ch_env ?s1) ptr p' (rq_conf r') (ch_env s')" "aux_data (clients s' ! sd) = Some ptr" by blast
  have "same_shape s s'" using s'(2) by (simp add: same_shape_def)
  moreover have "served ?e ptr p' (rq_conf r') (ch_env s')" using s'(3) by (auto simp: served_def)
  ultimately show ?case using eq s'(1,4) by auto
qed

text \<open>The record of a client that was never read is cleared, also when the array is resized first.\<close>

lemma resize_fresh:
  assumes "quiet P" and "os_ok P" and "chan_ok srv s" and "int sd \<le> max_client s"
    and "int sd < clients_length s \<Longrightarrow> position (clients s ! sd) = 0"
  shows "\<exists>s'. resize_clients P junk s = Inr s' \<and> chan_ok srv s' \<and> ch_env s' = ch_env s \<and> sd < length (clients s') \<and>
    position (clients s' ! sd) = 0 \<and> max_sd s' = max_sd s"
proof -
  have re: "os_realloc P e = (e, True)" for e using assms(1) by (simp add: quiet_def)
  obtain s' where s': "resize_clients P junk s = Inr s'" "chan_ok srv s'" "max_client s < int (length (clients s'))"
    "max_sd s' = max_sd s" using resize_clients_ok [OF assms(2,3)] by blast
  let ?n = "nat (clients_length s)"
  have len: "0 \<le> clients_length s" "?n \<le> length (clients s)" using assms(3) by (auto simp: chan_ok_def)
  consider (grow) "max_client s \<ge> clients_length s" | (shrink) "max_client s < clients_length s - CLIENTS"
    | (keep) "max_client s < clients_length s" "\<not> max_client s < clients_length s - CLIENTS" by linarith
  then have "ch_env s' = ch_env s \<and> position (clients s' ! sd) = 0"
  proof cases
    case grow
    let ?k = "nat (max_client s - clients_length s + CLIENTS)"
    obtain block where block: "block = take (?n + ?k) (clients s) @ replicate (?n + ?k - length (clients s)) junk" by simp
    have "nat (clients_length s + (max_client s - clients_length s + CLIENTS)) = ?n + ?k"
      using grow len(1) by (simp add: CLIENTS_def)
    then have e: "ch_env s' = ch_env s" "clients s' = overlay block ?n (replicate ?k no_client)"
      using s'(1) grow re block by (auto simp: resize_clients_def realloc_clients_def Let_def arr_copy_def split: if_splits)
    have sd: "sd < ?n + ?k" using grow assms(4) len(1) by (simp add: CLIENTS_def)
    have lb: "length block = ?n + ?k" using block by (simp add: min_def)
    have at: "clients s' ! sd = (if ?n \<le> sd then replicate ?k no_client ! (sd - ?n) else block ! sd)"
      using nth_overlay [of ?n "replicate ?k no_client" block sd] lb sd e(2) by simp
    show ?thesis
    proof (cases "?n \<le> sd")
      case True
      then have "sd - ?n < ?k" using sd by linarith
      then show ?thesis using at True e(1) by (simp add: no_client_def)
    next
      case False
      then have "position (clients s ! sd) = 0" using assms(5) len(1) by linarith
      moreover have "block ! sd = clients s ! sd" using False len(2) block by (simp add: nth_append)
      ultimately show ?thesis using at False e(1) by simp
    qed
  next
    case shrink
    then have "ch_env s' = ch_env s" "clients s' = take (nat (max_client s + 1)) (clients s) @
        replicate (nat (max_client s + 1) - length (clients s)) junk"
      using s'(1) re by (auto simp: resize_clients_def realloc_clients_def Let_def CLIENTS_def)
    moreover have "sd < nat (max_client s + 1)" "sd < length (clients s)" "int sd < clients_length s"
      using shrink assms(4) len by (auto simp: CLIENTS_def)
    ultimately show ?thesis using assms(5) by (simp add: nth_append)
  next
    case keep
    then have "s' = s" using s'(1) by (auto simp: resize_clients_def)
    then show ?thesis using keep assms(4,5) by simp
  qed
  then show ?thesis using s' assms(4) by auto
qed

lemma begin_fresh:
  assumes "sd < length (clients s)" and "position (clients s ! sd) = 0" and "crashed (ch_env s) = None"
    and "msg_start E sd (ch_env s) = Inr (ptr, e1)"
  shows "\<exists>s'. begin_client (eva_handler V E) sd s = Inr s' \<and> same_shape s s' \<and> ch_env s' = e1 \<and> aux_data (clients s' ! sd) = Some ptr"
  using assms by (auto simp: begin_client_def eva_handler_def arr_read_ok same_shape_def split: prod.splits)

lemma end_fresh:
  assumes "chan_ok srv s" and "sd < length (clients s)" "sd \<noteq> srv" "sd \<le> max_sd s" and "quiet P"
    and "aux_data (clients s ! sd) = Some ptr" and "crashed (ch_env s) = None" and "msg_end ptr (ch_env s) = Inr e1"
  shows "\<exists>s' o'. end_client P (eva_handler V E) sd s = Inr s' \<and> ch_env s' = e1\<lparr>outside := o'\<rparr>"
proof -
  obtain s' where s': "end_client P (eva_handler V E) sd s = Inr s'" using end_client_ok [OF assms(1-4)] by blast
  obtain o' where o': "os_close P e1 sd = e1\<lparr>outside := o'\<rparr>" using assms(5) unfolding quiet_def by blast
  have "end_cb (eva_handler V E) (ch_env s) sd (Some ptr) = (e1, None)" using assms(7,8) by (simp add: eva_handler_def)
  with s' assms(2,6) have "ch_env s' = os_close P e1 sd" by (auto simp: end_client_def arr_read_ok bind_res_Inr_iff)
  with s' o' show ?thesis by auto
qed

lemma delivers_nonempty: "delivers P sd ds o1 \<Longrightarrow> [] \<notin> set (map chars ds)"
  by (induction ds arbitrary: o1) (auto simp: chars_def)

lemma reset_ok: "usable p \<Longrightarrow> parser_ok (request_processor_reset p sd fd conf)"
  using parser_ok_init [of p "type p"]
  by (simp add: usable_def request_processor_reset_def parser_ok_def split: stored_state.splits)

lemma served_inv: "served e ptr p conf e' \<Longrightarrow> pool_inv (e, out) \<Longrightarrow> pool_inv (e', out)"
  by (auto simp: served_def pool_inv_def)

lemma served_frame:
  "served e ptr p conf e' \<Longrightarrow> heap e' = (heap e)(ptr \<mapsto> p) \<and> eva_conf e' = conf \<and> crashed e' = crashed e"
  by (auto simp: served_def)

lemma client_handled:
  assumes sound: "all_sound (ch_env s, out)" "int (length out) < parser_pool_size (ch_env s)" "crashed (ch_env s) = None"
    and os: "quiet P" "os_ok P" and chan: "chan_ok srv s" "sd \<noteq> srv" "sd \<le> max_sd s" "int sd \<le> max_client s"
    and fresh: "int sd < clients_length s \<Longrightarrow> position (clients s ! sd) = 0"
    and data: "delivers P sd ds (outside (ch_env s))"
    and reply: "\<And>p r0. usable p \<Longrightarrow> p_data p = Inr r0 \<Longrightarrow>
      \<exists>p' r. run (request_processor_settings_init V)
        (request_processor_reset p (int sd) (env_fdopen E sd) (eva_conf (ch_env s))) (map chars ds) = Some p' \<and> p_data p' = Inr r \<and> Q r"
  shows "\<exists>s' ptr p r. handle_client P (eva_handler V E) junk sd s = Some (Inr s') \<and> ptr \<notin> set out \<and>
    heap (ch_env s') = (heap (ch_env s))(ptr \<mapsto> p) \<and> p_data p = Inr r \<and> Q r \<and> eva_conf (ch_env s') = rq_conf r \<and>
    crashed (ch_env s') = None \<and> pool_inv (ch_env s', out)"
proof -
  let ?e = "ch_env s" and ?S = "request_processor_settings_init V"
  have inv: "pool_inv (?e, out)" using sound(1) by (simp add: all_sound_def)
  obtain s0 where s0: "resize_clients P junk s = Inr s0" "chan_ok srv s0" "ch_env s0 = ?e" "sd < length (clients s0)"
    "position (clients s0 ! sd) = 0" "max_sd s0 = max_sd s" using resize_fresh [OF os chan(1,4) fresh] by blast
  obtain ptr e1 p0 where p0: "msg_start E sd ?e = Inr (ptr, e1)" "ptr \<notin> set out" "pool_inv (e1, out @ [ptr])" "heap ?e ptr = Some p0"
    "heap e1 = (heap ?e)(ptr \<mapsto> request_processor_reset p0 (int sd) (env_fdopen E sd) (eva_conf ?e))"
    "eva_conf e1 = eva_conf ?e" "e1 = ?e\<lparr>heap := heap e1, parser_stack_top := parser_stack_top e1\<rparr>"
    using start_ok [OF inv sound(2), of E sd] by blast
  have "sound p0" using sound(1) p0(4) by (simp add: all_sound_def)
  then obtain r0 where r0: "usable p0" "p_data p0 = Inr r0" using sound_usable by (auto simp: sound_def)
  let ?p = "request_processor_reset p0 (int sd) (env_fdopen E sd) (eva_conf ?e)"
  let ?r = "\<lparr>rq_conn = reset_conn (rq_conn r0) (int sd) (env_fdopen E sd), rq_conf = eva_conf ?e\<rparr>"
  obtain p' r where r: "run ?S ?p (map chars ds) = Some p'" "p_data p' = Inr r" "Q r" using reply [OF r0] by blast
  obtain s1 where s1: "begin_client (eva_handler V E) sd s0 = Inr s1" "same_shape s0 s1" "ch_env s1 = e1"
    "aux_data (clients s1 ! sd) = Some ptr" using begin_fresh [of sd s0 E ptr e1 V] s0(3-5) sound(3) p0(1) by auto
  have e1: "outside e1 = outside ?e" "crashed e1 = None" using p0(7) sound(3) by (metis eva.select_convs(7,8) eva.surjective eva.update_convs(2,4))+
  have "\<exists>s2. recv_loop P (eva_handler V E) sd 0 s1 = Some (Inr (False, s2)) \<and> same_shape s1 s2 \<and>
      served (ch_env s1) ptr p' (rq_conf r) (ch_env s2) \<and> aux_data (clients s2 ! sd) = Some ptr"
  proof (rule recv_loop_delivers [where p = ?p and r = ?r])
    show "p_data ?p = Inr ?r" using r0(2) by (simp add: request_processor_reset_def)
  qed (use data e1 s0(4) s1 p0(5,6) r reset_ok [OF r0(1)] in \<open>simp_all add: same_shape_def\<close>)
  then obtain s2 where s2: "recv_loop P (eva_handler V E) sd 0 s1 = Some (Inr (False, s2))" "same_shape s1 s2"
    "served e1 ptr p' (rq_conf r) (ch_env s2)" "aux_data (clients s2 ! sd) = Some ptr" using s1(3) by auto
  then have e2: "heap (ch_env s2) = (heap ?e)(ptr \<mapsto> p')" "eva_conf (ch_env s2) = rq_conf r" "crashed (ch_env s2) = None"
    "pool_inv (ch_env s2, out @ [ptr])" using served_frame [OF s2(3)] served_inv [OF s2(3) p0(3)] p0(5) e1(2) by simp_all
  have chan2: "chan_ok srv s2" "sd < length (clients s2)" "sd \<le> max_sd s2"
    using s0(2,4,6) chan(3) same_shape_ok [OF s1(2)] same_shape_ok [OF s2(2)] s1(2) s2(2) by (auto simp: same_shape_def)
  obtain e3 where e3: "msg_end ptr (ch_env s2) = Inr e3" "pool_inv (e3, remove1 ptr (out @ [ptr]))" "heap e3 = heap (ch_env s2)"
    "eva_conf e3 = eva_conf (ch_env s2)" using end_ok [OF e2(4), of ptr] by auto
  have crash3: "crashed e3 = None"
    using e3(1) e2(3) by (auto simp: msg_end_def release_http_parser_def request_processor_destroy_def Let_def bind_res_Inr_iff split: if_splits)
  obtain s3 o' where s3: "end_client P (eva_handler V E) sd s2 = Inr s3" "ch_env s3 = e3\<lparr>outside := o'\<rparr>"
    using end_fresh [OF chan2(1,2) chan(2) chan2(3) os(1) s2(4) e2(3) e3(1)] by blast
  have "remove1 ptr (out @ [ptr]) = out" using p0(2) by (simp add: remove1_append)
  then have "pool_inv (ch_env s3, out)" using e3(2) s3(2) by (simp add: pool_inv_def)
  moreover have "handle_client P (eva_handler V E) junk sd s = Some (Inr s3)"
    using s0(1) s1(1) s2(1) s3(1) by (simp add: handle_client_def)
  ultimately show ?thesis using p0(2) e2 e3(3,4) crash3 s3(2) r(2,3) by auto
qed

section \<open>Property\<close>

text \<open>A descriptor that \<open>select\<close> reported and whose client was not read before.\<close>

definition new_client :: "nat \<Rightarrow> nat \<Rightarrow> 'e chan \<Rightarrow> bool" where
  "new_client srv sd s \<longleftrightarrow> chan_ok srv s \<and> sd \<noteq> srv \<and> sd \<le> max_sd s \<and> int sd \<le> max_client s \<and>
     (int sd < clients_length s \<longrightarrow> position (clients s ! sd) = 0)"

text \<open>A request that is answered with a file or the error page, and the answer.\<close>

definition asks_file :: "'L server \<Rightarrow> 'L httpd_conf \<Rightarrow> http_method \<Rightarrow> string \<Rightarrow> string option \<Rightarrow> (string \<times> string) list \<Rightarrow> byte list \<Rightarrow> bool" where
  "asks_file V conf m path query fs answer \<longleftrightarrow> well_formed m path query fs \<and> plain_path path \<and>
     get_script conf (Some path) = Inr None \<and> file_answer V conf path = Some answer"

text \<open>C4. The server serves the next client: whatever earlier connections sent, in every state the handlers can
  have reached with a parser left in the pool, a ready client whose well-formed request for a file has
  arrived, in buffers of any sizes, is given a parser no open connection has, gets exactly the header
  and contents of the file (or the error page) and has its stream closed; the read that follows fails
  because the descriptor is closed, so the connection ends and its parser goes back to the pool; the
  parsers of all other connections are as before.\<close>

theorem next_client_served:
  assumes "eva_start E n (e0, [])" and "(eva_step V E)\<^sup>*\<^sup>* (e0, []) (ch_env s, out)"
    and "int (length out) < parser_pool_size (ch_env s)" and "crashed (ch_env s) = None"
    and "quiet P" and "os_ok P" and "new_client srv sd s" and "env_fdopen E sd = Open_File []"
    and "delivers P sd ds (outside (ch_env s))" and "concat (map chars ds) = request_text m path query fs"
    and "asks_file V (eva_conf (ch_env s)) m path query fs answer" and "junk_sized V" and "takes_all V"
  shows "\<exists>s' ptr p r. handle_client P (eva_handler V E) junk sd s = Some (Inr s') \<and> ptr \<notin> set out \<and>
    heap (ch_env s') = (heap (ch_env s))(ptr \<mapsto> p) \<and> p_data p = Inr r \<and> client_fd (rq_conn r) = Closed_File answer \<and>
    crashed (ch_env s') = None \<and> pool_inv (ch_env s', out)"
proof -
  let ?conf = "eva_conf (ch_env s)"
  have sound: "all_sound (ch_env s, out)" using server.inv_reachable [OF assms(1,2)] .
  have ask: "well_formed m path query fs" "path_text path" "plain_path path" "get_script ?conf (Some path) = Inr None"
    "file_answer V ?conf path = Some answer" using assms(11) by (auto simp: asks_file_def well_formed_def)
  have reply: "\<exists>p' r. run (request_processor_settings_init V) (request_processor_reset p (int sd) (env_fdopen E sd) ?conf) (map chars ds) = Some p' \<and>
      p_data p' = Inr r \<and> client_fd (rq_conn r) = Closed_File answer" if "usable p" "p_data p = Inr r0" for p r0
  proof -
    have "arrives p (map chars ds) (request_text m path query fs)"
      using that assms(10) delivers_nonempty [OF assms(9)] by (simp add: arrives_def)
    from well_formed_read [OF ask(1) this, of V "int sd" "Open_File []" ?conf]
      file_request_data [OF ask(4) ask(2,3) assms(12,13) ask(5), of m "int sd" _ query]
    show ?thesis using assms(8) by (fastforce simp: processor.at_def)
  qed
  from assms(7) have new: "chan_ok srv s" "sd \<noteq> srv" "sd \<le> max_sd s" "int sd \<le> max_client s"
    "int sd < clients_length s \<Longrightarrow> position (clients s ! sd) = 0" by (simp_all add: new_client_def)
  have "\<exists>s' ptr p r. handle_client P (eva_handler V E) junk sd s = Some (Inr s') \<and> ptr \<notin> set out \<and>
      heap (ch_env s') = (heap (ch_env s))(ptr \<mapsto> p) \<and> p_data p = Inr r \<and> client_fd (rq_conn r) = Closed_File answer \<and>
      eva_conf (ch_env s') = rq_conf r \<and> crashed (ch_env s') = None \<and> pool_inv (ch_env s', out)"
    by (rule client_handled [OF sound assms(3-6) new assms(9) reply])
  then show ?thesis by blast
qed

text \<open>
  For the witness: a client whose request arrives in two buffers, in the fresh state of a server with
  one parser.
\<close>

definition demo_request :: "byte list" where
  "demo_request = ascii (request_text HTTP_GET ''/a'' (Some ''q=1'') demo_headers)"

definition demo_buffers :: "byte list list" where
  "demo_buffers = [take 9 demo_request, drop 9 demo_request]"

definition demo_socket :: "(lua_value list, byte list list) eva os" where
  "demo_socket =
     \<lparr>os_alive = (\<lambda>e. True), os_select = (\<lambda>e n fds. (e, 1, fds)), os_accept = (\<lambda>e. (e, -1)), os_sockopt = (\<lambda>e sd. (e, 0)),
      os_ioctl = (\<lambda>e sd. (e, 0)),
      os_recv = (\<lambda>e sd. case outside e of [] \<Rightarrow> (e\<lparr>outside := []\<rparr>, Bad_Descriptor) | d # ds \<Rightarrow> (e\<lparr>outside := ds\<rparr>, Received d)),
      os_close = (\<lambda>e sd. e\<lparr>outside := []\<rparr>), os_realloc = (\<lambda>e. (e, True)), os_socket = (\<lambda>e. (e, 3)),
      os_connect = (\<lambda>e sd path. (e, 0)), os_unlink = (\<lambda>e path. e), os_bind = (\<lambda>e sd. (e, 0)),
      os_listen = (\<lambda>e sd n. (e, 0)), os_send = (\<lambda>e sd data. (e, int (length data)))\<rparr>"

definition demo_memory :: "(lua_value list, byte list list) eva" where
  "demo_memory = \<lparr>parser_pool = [], parser_stack_top = 9, parser_pool_size = 9, heap = Map.empty, fresh = 5,
     eva_conf = demo_conf None, crashed = None, outside = demo_buffers\<rparr>"

definition demo_boot :: "(lua_value list, byte list list) eva" where
  "demo_boot = init_http_parser_pool demo_env 1 demo_memory"

definition demo_chan :: "(lua_value list, byte list list) eva chan" where
  "demo_chan = \<lparr>ch_env = demo_boot, master_set = (replicate FD_SETSIZE False)[3 := True, 4 := True],
     working_set = replicate FD_SETSIZE False, max_sd = 4, max_client = 4, clients_length = 8, clients = replicate 8 no_client\<rparr>"

lemma demo_boot_simps:
  "parser_pool_size demo_boot = 1" "crashed demo_boot = None" "outside demo_boot = demo_buffers" "eva_conf demo_boot = demo_conf None"
  by (simp_all add: demo_boot_def demo_memory_def init_http_parser_pool_def new_parser_def)

lemma demo_new_client: "new_client 3 4 demo_chan"
  by (auto simp: new_client_def demo_chan_def chan_ok_def FD_SETSIZE_def nth_list_update no_client_def nth_Cons' split: if_splits)

lemma demo_quiet: "quiet demo_socket" "os_ok demo_socket"
  by (auto simp: quiet_def os_ok_def demo_socket_def FD_SETSIZE_def)

lemma demo_delivers: "list_all (\<lambda>d. d \<noteq> [] \<and> length d \<le> CHANNEL_BUFFER) ds \<Longrightarrow> delivers demo_socket sd ds ds"
proof (induction ds)
  case Nil
  then show ?case by (auto simp: demo_socket_def)
next
  case (Cons d ds)
  have "\<forall>e. outside e = d # ds \<longrightarrow> os_recv demo_socket e sd = (e\<lparr>outside := ds\<rparr>, Received d)" by (simp add: demo_socket_def)
  with Cons show ?case by auto
qed

lemma demo_sizes: "list_all (\<lambda>d. d \<noteq> [] \<and> length d \<le> CHANNEL_BUFFER) demo_buffers"
  by code_simp

lemma demo_bytes: "concat (map chars demo_buffers) = request_text HTTP_GET ''/a'' (Some ''q=1'') demo_headers"
  by code_simp

lemma demo_asks: "asks_file demo_server (demo_conf None) HTTP_GET ''/a'' (Some ''q=1'') demo_headers
  (answer_head demo_server 200 ''OK'' ''text/plain'' @ ascii ''hi'')"
proof -
  have "plain_path ''/a''" by code_simp
  with demo_well_formed demo_env(3) show ?thesis by (simp add: asks_file_def get_script_def demo_conf_def)
qed

theorem next_client_served_witness:
  "\<exists>s' ptr p r. handle_client demo_socket (eva_handler demo_server demo_env) no_client 4 demo_chan = Some (Inr s') \<and> ptr \<notin> set [] \<and>
    heap (ch_env s') = (heap (ch_env demo_chan))(ptr \<mapsto> p) \<and> p_data p = Inr r \<and>
    client_fd (rq_conn r) = Closed_File (answer_head demo_server 200 ''OK'' ''text/plain'' @ ascii ''hi'') \<and>
    crashed (ch_env s') = None \<and> pool_inv (ch_env s', [])"
proof (rule next_client_served [OF _ _ _ _ demo_quiet demo_new_client _ _ demo_bytes _ demo_env(1,2)])
  show "eva_start demo_env 1 (demo_boot, [])"
    unfolding eva_start_def env_ok_def demo_boot_def
    by (intro conjI exI [of _ demo_memory]) (simp_all add: demo_env_def raw_parser_def demo_memory_def)
  show "(eva_step demo_server demo_env)\<^sup>*\<^sup>* (demo_boot, []) (ch_env demo_chan, [])" by (simp add: demo_chan_def)
  show "env_fdopen demo_env 4 = Open_File []" by (simp add: demo_env_def)
qed (use demo_delivers [OF demo_sizes, of 4] demo_asks in \<open>simp_all add: demo_chan_def demo_boot_simps\<close>)

text \<open>C38. One answer per connection: when a second well-formed request has arrived together with the end of the
  first, a request for a file, so that one \<open>recv\<close> returns the end of the first and all of the second, the
  callback answers the first, closes the stream and goes on to use it for the second: all buffers before
  go through without a fault, and \<open>dispatch\<close> of this one is a fault.\<close>

theorem second_request_faults:
  assumes "well_formed m path query fs" and "plain_path path" and "get_script conf (Some path) = Inr None"
    and "junk_sized V" and "takes_all V" and "file_answer V conf path = Some answer"
    and "well_formed m' path' query' fs'"
    and "arrives p (ds @ [chars d]) (request_text m path query fs @ request_text m' path' query' fs')"
    and "length (concat ds) < length (request_text m path query fs)"
  shows "\<exists>p1 r f. run (request_processor_settings_init V) (request_processor_reset p sd (Open_File []) conf) ds = Some p1 \<and>
    p_data p1 = Inr r \<and>
    (\<forall>e ptr. heap e ptr = Some p1 \<and> eva_conf e = rq_conf r \<longrightarrow> dispatch V ptr d e = Inl f)"
proof -
  let ?S = "request_processor_settings_init V" and ?p = "request_processor_reset p sd (Open_File []) conf"
  let ?t = "request_text m path query fs" and ?t' = "request_text m' path' query' fs'"
  from pipelined_request_faults [OF assms(1-8)] obtain p' f where
    p': "run ?S ?p (ds @ [chars d]) = Some p'" "p_data p' = Inl f" by blast
  then obtain p1 where p1: "run ?S ?p ds = Some p1" "run ?S p1 [chars d] = Some p'"
    by (auto simp: run_append bind_eq_Some_conv)
  from p1(2) obtain n where ex: "http_parser_execute ?S p1 (chars d) = Inr (p', n)"
    by (auto split: sum.splits prod.splits stored_state.splits if_splits)
  have all: "usable p" "\<exists>r. p_data p = Inr r" "concat ds @ chars d = ?t @ ?t'" "[] \<notin> set ds"
    using assms(8) by (auto simp: arrives_def)
  define rest where "rest = drop (length (concat ds)) ?t"
  have "take (length (concat ds)) (concat ds @ chars d) = take (length (concat ds)) ?t" unfolding all(3) using assms(9) by simp
  then have "concat ds = take (length (concat ds)) ?t" by simp
  then have "concat (ds @ [rest]) = ?t" unfolding rest_def by (metis append_take_drop_id concat.simps concat_append append_Nil2)
  moreover have "rest \<noteq> []" using assms(9) by (simp add: rest_def)
  ultimately have "arrives p (ds @ [rest]) ?t" using all(1,2,4) by (simp add: arrives_def)
  from well_formed_read [OF assms(1) this, of V sd "Open_File []" conf] obtain q conn where
    q: "run ?S ?p (ds @ [rest]) = Some q" "p_data q = data_end (data_head V m (Inr (request_of sd (Open_File []) conf conn path query)))"
    by (auto simp: processor.at_def)
  have "path_text path" using assms(1) by (simp add: well_formed_def)
  from file_request_data [OF assms(3) this assms(2,4,5,6), of m sd conn query] obtain r1 where r1: "p_data q = Inr r1"
    using q(2) by auto
  have "run ?S p1 [rest] = Some q" using q(1) p1(1) by (simp add: run_append)
  then obtain r where r: "p_data p1 = Inr r" using faulty.run_keeps [of p1 _ V "[rest]" q] r1 by (cases "p_data p1") auto
  have "dispatch V ptr d e = Inl f" if "heap e ptr = Some p1" "eva_conf e = rq_conf r" for e :: "('a, 'b) eva" and ptr
  proof -
    have "with_conf (eva_conf e) p1 = p1" using r that(2) by (simp add: with_conf_def)
    then show ?thesis using that(1) ex p'(2) by (simp add: dispatch_def)
  qed
  with p1(1) r show ?thesis by blast
qed

theorem second_request_faults_witness:
  "\<exists>p1 r f. run (request_processor_settings_init demo_server)
      (request_processor_reset demo_parser 5 (Open_File []) (demo_conf None)) (map chars [take 9 demo_request]) = Some p1 \<and>
    p_data p1 = Inr r \<and>
    (\<forall>e ptr. heap e ptr = Some p1 \<and> eva_conf e = rq_conf r \<longrightarrow>
       dispatch demo_server ptr (drop 9 demo_request @ demo_request) e = Inl f)"
proof (rule second_request_faults [OF demo_well_formed _ _ demo_env demo_well_formed])
  show "plain_path ''/a''" by code_simp
  show "get_script (demo_conf None) (Some ''/a'') = Inr None" by (simp add: get_script_def demo_conf_def)
  have "chars demo_request = request_text HTTP_GET ''/a'' (Some ''q=1'') demo_headers" by code_simp
  moreover have "take 9 demo_request @ drop 9 demo_request @ demo_request = demo_request @ demo_request"
    by (metis append_assoc append_take_drop_id)
  then have "chars (take 9 demo_request) @ chars (drop 9 demo_request @ demo_request) = chars demo_request @ chars demo_request"
    by (metis chars_def map_append)
  moreover have "take 9 demo_request \<noteq> []" "9 < length demo_request" by code_simp+
  ultimately show "arrives demo_parser (map chars [take 9 demo_request] @ [chars (drop 9 demo_request @ demo_request)])
      (request_text HTTP_GET ''/a'' (Some ''q=1'') demo_headers @ request_text HTTP_GET ''/a'' (Some ''q=1'') demo_headers)"
    by (auto simp: arrives_def usable_def demo_parser_def request_processor_init_def http_parser_init_def raw_parser_def)
      (simp_all add: chars_def)
  show "length (concat (map chars [take 9 demo_request])) < length (request_text HTTP_GET ''/a'' (Some ''q=1'') demo_headers)"
    by code_simp
qed

end
