(* ===== verification/Http_Names.thy ===== *)
theory Http_Names
  imports Http_Parser
begin

text \<open>
  The names the parser gives to errors and methods: the table \<open>HTTP_ERRNO_MAP\<close> of
  \<^verbatim>\<open>http_parser.h\<close> and the functions that read it. The error number \<open>HPE_OK\<close> is \<open>None\<close>.
\<close>

definition HTTP_PARSER_ERRNO :: "'u http_parser \<Rightarrow> http_errno option" where
  "HTTP_PARSER_ERRNO p = (case p_state p of Running st \<Rightarrow> None | Failed e \<Rightarrow> Some e)"

fun http_strerror_tab :: "http_errno option \<Rightarrow> string \<times> string" where
  "http_strerror_tab None = (''HPE_OK'', ''success'')"
| "http_strerror_tab (Some HPE_CB_message_begin) = (''HPE_CB_message_begin'', ''the on_message_begin callback failed'')"
| "http_strerror_tab (Some HPE_CB_path) = (''HPE_CB_path'', ''the on_path callback failed'')"
| "http_strerror_tab (Some HPE_CB_query_string) = (''HPE_CB_query_string'', ''the on_query_string callback failed'')"
| "http_strerror_tab (Some HPE_CB_url) = (''HPE_CB_url'', ''the on_url callback failed'')"
| "http_strerror_tab (Some HPE_CB_fragment) = (''HPE_CB_fragment'', ''the on_fragment callback failed'')"
| "http_strerror_tab (Some HPE_CB_header_field) = (''HPE_CB_header_field'', ''the on_header_field callback failed'')"
| "http_strerror_tab (Some HPE_CB_header_value) = (''HPE_CB_header_value'', ''the on_header_value callback failed'')"
| "http_strerror_tab (Some HPE_CB_headers_complete) = (''HPE_CB_headers_complete'', ''the on_headers_complete callback failed'')"
| "http_strerror_tab (Some HPE_CB_body) = (''HPE_CB_body'', ''th on_body callback failed'')"
| "http_strerror_tab (Some HPE_CB_message_complete) = (''HPE_CB_message_complete'', ''the on_message_complete callback failed'')"
| "http_strerror_tab (Some HPE_INVALID_EOF_STATE) = (''HPE_INVALID_EOF_STATE'', ''stream ended at an unexpected time'')"
| "http_strerror_tab (Some HPE_HEADER_OVERFLOW) = (''HPE_HEADER_OVERFLOW'', ''too many header bytes seen; overflow detected'')"
| "http_strerror_tab (Some HPE_CLOSED_CONNECTION) = (''HPE_CLOSED_CONNECTION'', ''data received after completed connection: close message'')"
| "http_strerror_tab (Some HPE_INVALID_VERSION) = (''HPE_INVALID_VERSION'', ''invalid HTTP version'')"
| "http_strerror_tab (Some HPE_INVALID_STATUS) = (''HPE_INVALID_STATUS'', ''invalid HTTP status code'')"
| "http_strerror_tab (Some HPE_INVALID_METHOD) = (''HPE_INVALID_METHOD'', ''invalid HTTP method'')"
| "http_strerror_tab (Some HPE_INVALID_URL) = (''HPE_INVALID_URL'', ''invalid URL'')"
| "http_strerror_tab (Some HPE_INVALID_HOST) = (''HPE_INVALID_HOST'', ''invalid host'')"
| "http_strerror_tab (Some HPE_INVALID_PORT) = (''HPE_INVALID_PORT'', ''invalid port'')"
| "http_strerror_tab (Some HPE_INVALID_PATH) = (''HPE_INVALID_PATH'', ''invalid path'')"
| "http_strerror_tab (Some HPE_INVALID_QUERY_STRING) = (''HPE_INVALID_QUERY_STRING'', ''invalid query string'')"
| "http_strerror_tab (Some HPE_INVALID_FRAGMENT) = (''HPE_INVALID_FRAGMENT'', ''invalid fragment'')"
| "http_strerror_tab (Some HPE_LF_EXPECTED) = (''HPE_LF_EXPECTED'', ''LF character expected'')"
| "http_strerror_tab (Some HPE_INVALID_HEADER_TOKEN) = (''HPE_INVALID_HEADER_TOKEN'', ''invalid character in header'')"
| "http_strerror_tab (Some HPE_INVALID_CONTENT_LENGTH) = (''HPE_INVALID_CONTENT_LENGTH'', ''invalid character in content-length header'')"
| "http_strerror_tab (Some HPE_INVALID_CHUNK_SIZE) = (''HPE_INVALID_CHUNK_SIZE'', ''invalid character in chunk size header'')"
| "http_strerror_tab (Some HPE_INVALID_CONSTANT) = (''HPE_INVALID_CONSTANT'', ''invalid constant string'')"
| "http_strerror_tab (Some HPE_INVALID_INTERNAL_STATE) = (''HPE_INVALID_INTERNAL_STATE'', ''encountered unexpected internal state'')"
| "http_strerror_tab (Some HPE_STRICT) = (''HPE_STRICT'', ''strict mode assertion failed'')"
| "http_strerror_tab (Some HPE_UNKNOWN) = (''HPE_UNKNOWN'', ''an unknown error occurred'')"

definition http_errno_name :: "http_errno option \<Rightarrow> string" where
  "http_errno_name err = fst (http_strerror_tab err)"

definition http_errno_description :: "http_errno option \<Rightarrow> string" where
  "http_errno_description err = snd (http_strerror_tab err)"

definition http_method_str :: "http_method \<Rightarrow> string" where
  "http_method_str m = method_strings m"

text \<open>Errors can be told apart by name and by description, methods by name.\<close>

definition errnos :: "http_errno list" where
  "errnos =
     [HPE_CB_message_begin, HPE_CB_path, HPE_CB_query_string, HPE_CB_url, HPE_CB_fragment, HPE_CB_header_field, HPE_CB_header_value, HPE_CB_headers_complete, HPE_CB_body, HPE_CB_message_complete, HPE_INVALID_EOF_STATE, HPE_HEADER_OVERFLOW, HPE_CLOSED_CONNECTION, HPE_INVALID_VERSION, HPE_INVALID_STATUS, HPE_INVALID_METHOD, HPE_INVALID_URL, HPE_INVALID_HOST, HPE_INVALID_PORT, HPE_INVALID_PATH, HPE_INVALID_QUERY_STRING, HPE_INVALID_FRAGMENT, HPE_LF_EXPECTED, HPE_INVALID_HEADER_TOKEN, HPE_INVALID_CONTENT_LENGTH, HPE_INVALID_CHUNK_SIZE, HPE_INVALID_CONSTANT, HPE_INVALID_INTERNAL_STATE, HPE_STRICT, HPE_UNKNOWN]"

lemma errnos_all: "e \<in> set errnos"
  by (cases e; simp add: errnos_def)

lemma names_distinct:
  "distinct (map (\<lambda>e. http_errno_name e) (None # map Some errnos))"
  "distinct (map (\<lambda>e. http_errno_description e) (None # map Some errnos))"
  by code_simp+

lemma inj_of_distinct: "distinct (map f xs) \<Longrightarrow> x \<in> set xs \<Longrightarrow> y \<in> set xs \<Longrightarrow> f x = f y \<Longrightarrow> x = y"
  by (auto simp: distinct_map dest: inj_onD)

lemma errno_in: "e \<in> set (None # map Some errnos)"
  using errnos_all by (cases e) auto

lemma http_errno_name_inj: "http_errno_name e = http_errno_name e' \<Longrightarrow> e = e'"
  by (rule inj_of_distinct [OF names_distinct(1) errno_in errno_in])

lemma http_errno_description_inj: "http_errno_description e = http_errno_description e' \<Longrightarrow> e = e'"
  by (rule inj_of_distinct [OF names_distinct(2) errno_in errno_in])

end
