(* ===== verification/Http_Widths.thy ===== *)
theory Http_Widths
  imports Http_Execute
begin

text \<open>
  The widths of the fields of \<open>struct http_parser\<close>
  (\<^verbatim>\<open>src/3rd-party/http-parser/http_parser.h\<close>): the parser of the model counts in unbounded numbers,
  and what follows shows that they are the numbers of the code (the index an \<open>unsigned char\<close>, the
  version and the status \<open>unsigned short\<close>, the count of header bytes \<open>uint32_t\<close>). The content length, an
  \<open>int64_t\<close>, is computed with the wrap-around of the code (\<open>c_int64\<close>).
\<close>

definition widths :: "'u http_parser \<Rightarrow> bool" where
  "widths p \<longleftrightarrow> p_index p < 2 ^ 8 \<and> p_nread p < 2 ^ 32 \<and> http_major p < 2 ^ 16 \<and> http_minor p < 2 ^ 16 \<and>
     status_code p < 2 ^ 16 \<and> - (2 ^ 63) \<le> content_length p \<and> content_length p < 2 ^ 63"

text \<open>While a number is read it has at most three digits.\<close>

definition numbers :: "state \<Rightarrow> 'u http_parser \<Rightarrow> bool" where
  "numbers st p \<longleftrightarrow>
     (st \<in> {s_res_http_major, s_req_http_major} \<longrightarrow> http_major p \<le> 999) \<and>
     (st \<in> {s_res_http_minor, s_req_http_minor} \<longrightarrow> http_minor p \<le> 999) \<and>
     (st = s_res_status_code \<longrightarrow> status_code p \<le> 999)"

definition fits :: "state \<Rightarrow> 'u http_parser \<Rightarrow> bool" where
  "fits st p \<longleftrightarrow> widths p \<and> numbers st p"

lemmas fits_defs = fits_def widths_def numbers_def

abbreviation all_fit :: "'u outcome \<Rightarrow> bool" where
  "all_fit \<equiv> outcome_all (\<lambda>x. fits (x_state x) (x_parser x)) (\<lambda>x n. widths (x_parser x)) (\<lambda>x. widths (x_parser x))"

text \<open>A step keeps the widths; a fault is excluded elsewhere.\<close>

definition keeps :: "state \<Rightarrow> 'u exec \<Rightarrow> 'u outcome \<Rightarrow> bool" where
  "keeps st x r \<longleftrightarrow> (x_state x = st \<and> fits st (x_parser x) \<and> x_p x \<le> length (x_data x) \<longrightarrow> (\<forall>e. r \<noteq> Fault e) \<longrightarrow> all_fit r)"

lemma fits_same:
  "fits st (p\<lparr>p_data := d\<rparr>) \<longleftrightarrow> fits st p" "fits st (p\<lparr>p_state := ss\<rparr>) \<longleftrightarrow> fits st p"
  "widths (p\<lparr>p_data := d\<rparr>) \<longleftrightarrow> widths p" "widths (p\<lparr>p_state := ss\<rparr>) \<longleftrightarrow> widths p"
  "fits st (p\<lparr>flags := fl\<rparr>) \<longleftrightarrow> fits st p" "fits st (p\<lparr>upgrade := b\<rparr>) \<longleftrightarrow> fits st p"
  "widths (p\<lparr>upgrade := b\<rparr>) \<longleftrightarrow> widths p"  "widths (p\<lparr>flags := fl\<rparr>) \<longleftrightarrow> widths p"
  "fits st p \<Longrightarrow> widths p"
  by (simp_all add: fits_defs)

lemma digit_less: "IS_NUM ch \<Longrightarrow> digit ch \<le> 9"
  by (auto simp: IS_NUM_def digit_def)

lemma int64_range: "- (2 ^ 63) \<le> c_int64 x" "c_int64 x < 2 ^ 63"
  using signed_take_bit_int_greater_eq_minus_exp [of 63 x] signed_take_bit_int_less_exp [of 63 x]
  by (simp_all add: c_int64_def)

lemma unhex_range: "- 1 \<le> unhex ch" "unhex ch \<le> 15"
  by (simp_all add: unhex_def Let_def)

lemma keepsI:
  "(x_state x = st \<Longrightarrow> fits st (x_parser x) \<Longrightarrow> x_p x \<le> length (x_data x) \<Longrightarrow> (\<forall>e. r \<noteq> Fault e) \<Longrightarrow> all_fit r) \<Longrightarrow> keeps st x r"
  by (simp add: keeps_def)

lemmas fit_simps = fits_defs set_errno_def upd_parser_def

lemma keeps_start:
  "keeps s_start_req_or_res x (at_start_req_or_res S ch x)"
  "keeps s_start_res x (at_start_res S ch x)"
  "keeps s_start_req x (at_start_req S ch x)"
  "keeps s_res_or_resp_H x (at_res_or_resp_H ch x)"
  unfolding at_start_req_or_res_def at_start_res_def at_start_req_def at_res_or_resp_H_def
    message_begin_def new_message_def start_req_method_assign_def
  by (rule keepsI, intro outcome_rules; simp add: fit_simps fail_def goto_state_def split: option.splits)+

lemma keeps_version:
  "keeps s_res_first_http_major x (first_http_major s_res_http_major ch x)"
  "keeps s_res_http_major x (next_http_major s_res_first_http_minor ch x)"
  "keeps s_res_first_http_minor x (first_http_minor s_res_http_minor ch x)"
  "keeps s_res_http_minor x (at_res_http_minor ch x)"
  "keeps s_req_first_http_major x (first_http_major s_req_http_major ch x)"
  "keeps s_req_http_major x (next_http_major s_req_first_http_minor ch x)"
  "keeps s_req_first_http_minor x (first_http_minor s_req_http_minor ch x)"
  "keeps s_req_http_minor x (at_req_http_minor ch x)"
  "keeps s_res_first_status_code x (at_res_first_status_code ch x)"
  "keeps s_res_status_code x (at_res_status_code ch x)"
  unfolding first_http_major_def next_http_major_def first_http_minor_def next_http_minor_def
    at_res_http_minor_def at_req_http_minor_def at_res_first_status_code_def at_res_status_code_def Let_def
  by (rule keepsI, intro outcome_rules; use digit_less [of ch] in \<open>simp add: fit_simps digit_def; linarith?\<close>)+

lemma keeps_line:
  "keeps s_res_status x (at_res_status ch x)"
  "keeps s_req_http_start x (at_req_http_start ch x)"
  "keeps s_req_line_almost_done x (at_req_line_almost_done ch x)"
  "keeps s_req_spaces_before_url x (at_req_spaces_before_url ch x)"
  "keeps s_req_schema x (at_req_schema ch x)"
  "keeps s_req_host x (at_req_host S ch x)"
  "keeps s_req_port x (at_req_port S ch x)"
  "keeps s_req_path x (at_req_path S ch x)"
  "keeps s_req_query_string_start x (at_req_query_string_start S ch x)"
  "keeps s_req_query_string x (at_req_query_string S ch x)"
  "keeps s_req_fragment_start x (at_req_fragment_start S ch x)"
  "keeps s_req_fragment x (at_req_fragment S ch x)"
  unfolding at_res_status_def at_req_http_start_def
    at_req_line_almost_done_def at_req_spaces_before_url_def at_req_schema_def at_req_host_def at_req_port_def at_req_path_def
    at_req_query_string_start_def at_req_query_string_def at_req_fragment_start_def at_req_fragment_def http_0_9_def
    mark_url_def mark_path_def mark_query_def mark_fragment_def
  by (rule keepsI, intro outcome_rules; simp add: fit_simps)+

lemma keeps_method: "keeps s_req_method x (at_req_method ch x)"
proof (rule keepsI)
  assume "fits s_req_method (x_parser x)" "x_state x = s_req_method" and "\<forall>e. at_req_method ch x \<noteq> Fault e"
  then show "all_fit (at_req_method ch x)"
    by (cases "arr_read (method_strings (p_method (x_parser x)) @ [NUL]) (x_index x)"; cases "ch = NUL")
      (auto simp: at_req_method_def Let_def fit_simps fail_def goto_state_def split: sum.splits bool.splits)
qed

lemma keeps_headers_done: "keeps s_headers_almost_done x (headers_almost_done S x)"
  unfolding headers_almost_done_def complete_and_restart_def body_or_end_def message_complete_def start_state_def Let_def
  by (rule keepsI, intro outcome_rules outcome_headers_complete; simp add: fit_simps)

lemma keeps_field_start: "keeps s_header_field_start x (header_field_start S ch x)"
proof (rule keepsI)
  assume pre: "x_state x = s_header_field_start" "fits s_header_field_start (x_parser x)" "x_p x \<le> length (x_data x)"
    "\<forall>e. header_field_start S ch x \<noteq> Fault e"
  have "all_fit (headers_almost_done S (x\<lparr>x_state := s_headers_almost_done\<rparr>))" if "ch = LF"
    using keeps_headers_done [of "x\<lparr>x_state := s_headers_almost_done\<rparr>" S] that pre
    by (simp add: keeps_def fits_def numbers_def header_field_start_def)
  with pre(1-3) show "all_fit (header_field_start S ch x)"
    unfolding header_field_start_def Let_def mark_field_def field_header_state_def
    by (intro outcome_rules) (simp_all add: fit_simps)
qed

lemma keeps_lws: "keeps s_header_value_lws x (at_header_value_lws S ch x)"
proof (rule keepsI)
  assume pre: "x_state x = s_header_value_lws" "fits s_header_value_lws (x_parser x)" "x_p x \<le> length (x_data x)"
    "\<forall>e. at_header_value_lws S ch x \<noteq> Fault e"
  have "all_fit (header_field_start S ch (x\<lparr>x_state := s_header_field_start\<rparr>))" if "\<not> (ch = SP \<or> ch = TAB)"
    using keeps_field_start [of "x\<lparr>x_state := s_header_field_start\<rparr>" S ch] that pre
    by (simp add: keeps_def fits_def numbers_def at_header_value_lws_def)
  with pre(1-3) show "all_fit (at_header_value_lws S ch x)"
    unfolding at_header_value_lws_def by (intro outcome_rules) (simp_all add: fit_simps)
qed

lemma keeps_field: "keeps s_header_field x (at_header_field S ch x)"
proof (rule keepsI)
  assume pre: "x_state x = s_header_field" "fits s_header_field (x_parser x)" "x_p x \<le> length (x_data x)"
    "\<forall>e. at_header_field S ch x \<noteq> Fault e"
  have "all_fit (field_char ch (TOKEN ch) x)" if "TOKEN ch \<noteq> NUL"
    using pre(4) that pre(1,2) unfolding at_header_field_def Let_def field_char_def
    by (cases "x_hstate x"; simp add: match_next_def Let_def)
  with pre(1-3) show "all_fit (at_header_field S ch x)"
    unfolding at_header_field_def Let_def by (intro outcome_rules) (simp_all add: fit_simps)
qed

lemma keeps_almost_done: "keeps s_header_almost_done x (header_almost_done x)"
  by (rule keepsI) (cases "x_hstate x"; simp add: header_almost_done_def Let_def goto_state_def fit_simps)

lemma keeps_value: "keeps s_header_value x (at_header_value S ch x)"
proof (rule keepsI)
  assume pre: "x_state x = s_header_value" "fits s_header_value (x_parser x)" "x_p x \<le> length (x_data x)"
    "\<forall>e. at_header_value S ch x \<noteq> Fault e"
  have char: "all_fit (value_char ch x)" if "ch \<noteq> CR" "ch \<noteq> LF"
    using pre(4) that pre(1,2) int64_range unfolding at_header_value_def value_char_def Let_def
    by (cases "x_hstate x"; simp add: match_next_def Let_def fail_def fit_simps)
  have almost: "all_fit (header_almost_done ((with_data x d)\<lparr>value_mark := None\<rparr>))" for d
    using pre(1-3) by (cases "x_hstate x"; simp add: header_almost_done_def Let_def goto_state_def fit_simps)
  show "all_fit (at_header_value S ch x)"
    unfolding at_header_value_def
    using pre(1-3) by (intro outcome_rules char almost) (simp_all add: fit_simps)
qed

lemma keeps_value_start: "keeps s_header_value_start x (at_header_value_start S ch x)"
proof (rule keepsI)
  assume pre: "x_state x = s_header_value_start" "fits s_header_value_start (x_parser x)" "x_p x \<le> length (x_data x)"
    "\<forall>e. at_header_value_start S ch x \<noteq> Fault e"
  have char: "all_fit (first_value_char ch (x\<lparr>value_mark := Some (x_p x), x_state := s_header_value, x_index := 0\<rparr>))"
    using pre(1,2) digit_less [of ch] unfolding first_value_char_def Let_def
    by (cases "x_hstate x"; simp add: fit_simps fail_def; linarith?)
  show "all_fit (at_header_value_start S ch x)"
    unfolding at_header_value_start_def Let_def mark_value_def
    using pre(1-3) by (intro outcome_rules char) (simp_all add: fit_simps)
qed

lemma keeps_chunk:
  "keeps s_chunk_size_start x (at_chunk_size_start ch x)"
  "keeps s_chunk_size x (at_chunk_size ch x)"
  "keeps s_chunk_parameters x (at_chunk_parameters ch x)"
  "keeps s_chunk_size_almost_done x (at_chunk_size_almost_done x)"
  "keeps s_chunk_data_almost_done x (assert_chunked x (goto_state x s_chunk_data_done))"
  "keeps s_chunk_data_done x (assert_chunked x (goto_state x s_chunk_size_start))"
  using int64_range unhex_range [of ch]
  by (auto intro!: keepsI simp: at_chunk_size_start_def at_chunk_size_def at_chunk_parameters_def at_chunk_size_almost_done_def
    assert_chunked_def Let_def fit_simps fail_def goto_state_def split: if_splits)

lemma skip_body_fits [simp]:
  "fits st (x_parser (skip_body S r x)) \<longleftrightarrow> fits st (x_parser x)" "widths (x_parser (skip_body S r x)) \<longleftrightarrow> widths (x_parser x)"
  "http_major (x_parser (skip_body S r x)) = http_major (x_parser x)" "http_minor (x_parser (skip_body S r x)) = http_minor (x_parser x)"
  "status_code (x_parser (skip_body S r x)) = status_code (x_parser x)" "p_index (x_parser (skip_body S r x)) = p_index (x_parser x)"
  "p_nread (x_parser (skip_body S r x)) = p_nread (x_parser x)"
  by (simp_all add: skip_body_def upd_parser_def Let_def fits_same split: option.splits)

lemma keeps_body:
  "keeps s_body_identity x (at_body_identity S x)"
  "keeps s_body_identity_eof x (at_body_identity_eof S x)"
  "keeps s_chunk_data x (at_chunk_data S x)"
  unfolding at_body_identity_def at_body_identity_eof_def complete_and_restart_def message_complete_def
    start_state_def Let_def remaining_def
  by (rule keepsI, intro outcome_rules; simp add: fit_simps; linarith?)+
    (auto intro!: keepsI simp: at_chunk_data_def assert_chunked_def Let_def remaining_def fit_simps split: if_splits)

lemmas keeps_steps = keeps_start keeps_version keeps_line keeps_method keeps_headers_done keeps_field_start keeps_lws
  keeps_field keeps_almost_done keeps_value keeps_value_start keeps_chunk keeps_body

lemma keeps_plain:
  "st' \<notin> {s_res_http_major, s_req_http_major, s_res_http_minor, s_req_http_minor, s_res_status_code} \<Longrightarrow>
   keeps st x (goto_state x st')"
  by (rule keepsI) (simp add: goto_state_def fit_simps)

lemma keeps_step_all: "keeps st x (step st S ch x)"
  by (cases st; simp add: keeps_steps keeps_plain) (simp add: keeps_def fail_def fit_simps)


section \<open>Running buffers\<close>

lemma exec_byte_fits:
  assumes "exec_ok 0 (x_state x) x" and "x_p x < length (x_data x)" and "fits (x_state x) (x_parser x)"
  shows "all_fit (exec_byte S ch x)"
proof -
  have noflt: "\<forall>e. exec_byte S ch x \<noteq> Fault e" using exec_byte_ok [OF assms(1,2), of S ch] by (auto simp: step_ok_def)
  show ?thesis
  proof (cases "PARSING_HEADER (x_state x) \<and> x_nread x + 1 > HTTP_MAX_HEADER_SIZE")
    case True
    then show ?thesis using assms(3) by (simp add: exec_byte_def fail_def fit_simps)
  next
    case False
    let ?x = "if PARSING_HEADER (x_state x) then x\<lparr>x_nread := x_nread x + 1\<rparr> else x"
    from False have "exec_byte S ch x = step (x_state x) S ch ?x" by (auto simp: exec_byte_def)
    with noflt assms(2,3) keeps_step_all [of "x_state x" ?x S ch] show ?thesis by (auto simp: keeps_def split: if_splits)
  qed
qed

lemma exec_loop_fits:
  "loop_ok dat x \<Longrightarrow> fits (x_state x) (x_parser x) \<Longrightarrow> exec_loop S x = Some r \<Longrightarrow> all_fit r"
proof (induction "length dat - x_p x" arbitrary: x rule: less_induct)
  case less
  show ?case
  proof (cases "x_p x = length dat")
    case True
    with less.prems show ?thesis by (auto simp: exec_loop.simps loop_ok_def)
  next
    case False
    with less.prems have at: "x_p x < length dat" "x_data x = dat" "exec_ok 0 (x_state x) x" by (auto simp: loop_ok_def)
    let ?r = "exec_byte S (dat ! x_p x) x"
    have eq: "exec_loop S x = (case ?r of Next x' \<Rightarrow> exec_loop S (x'\<lparr>x_p := x_p x' + 1\<rparr>)
        | Return x' n \<Rightarrow> Some (Return x' n) | Error x' \<Rightarrow> Some (Error x') | Fault e \<Rightarrow> Some (Fault e))"
      using at by (subst exec_loop.simps) (simp add: arr_read_ok)
    have fit: "all_fit ?r" using at less.prems(2) by (intro exec_byte_fits) simp_all
    show ?thesis
    proof (cases ?r)
      case (Next x')
      note next' = exec_byte_loop_ok [OF less.prems(1) at(1) Next]
      show ?thesis
      proof (rule less.hyps [OF _ next'(1)])
        show "length dat - x_p (x'\<lparr>x_p := x_p x' + 1\<rparr>) < length dat - x_p x" using next'(2,3) by simp
        show "fits (x_state (x'\<lparr>x_p := x_p x' + 1\<rparr>)) (x_parser (x'\<lparr>x_p := x_p x' + 1\<rparr>))" using fit Next by simp
        show "exec_loop S (x'\<lparr>x_p := x_p x' + 1\<rparr>) = Some r" using less.prems(3) eq Next by simp
      qed
    qed (use less.prems(3) eq fit in auto)
  qed
qed

lemma exec_end_fits: "fits (x_state x) (x_parser x) \<Longrightarrow> all_fit (exec_end S x)"
  unfolding exec_end_def by (intro outcome_seq outcome_callback_noclear) (simp_all add: fit_simps)

text \<open>Between two buffers.\<close>

definition stored_fits :: "'u http_parser \<Rightarrow> bool" where
  "stored_fits p \<longleftrightarrow> widths p \<and> (\<forall>st. p_state p = Running st \<longrightarrow> upgrade p \<or> numbers st p)"


lemma stored_fits_data: "stored_fits p \<Longrightarrow> stored_fits (p\<lparr>p_data := d\<rparr>)"
  by (simp add: stored_fits_def fits_same numbers_def)

lemma stored_fits_failed: "stored_fits p \<Longrightarrow> stored_fits (p\<lparr>p_state := Failed e\<rparr>)"
  by (simp add: stored_fits_def fits_same)

lemma exec_eof_stored:
  assumes "stored_fits p" and "exec_eof S p st = Inr (p', n)"
  shows "stored_fits p'"
proof (cases "st = s_body_identity_eof \<and> on_message_complete S \<noteq> None")
  case True
  then obtain f where f: "on_message_complete S = Some f" by auto
  obtain d ret where "f p = (d, ret)" by fastforce
  with True f assms(2) have "p' = p\<lparr>p_data := d\<rparr> \<or> p' = p\<lparr>p_data := d, p_state := Failed HPE_CB_message_complete\<rparr>"
    by (auto simp: exec_eof_def message_complete_def callback2_def Let_def upd_parser_def set_errno_def exec_init_def split: if_splits)
  moreover have "stored_fits (p\<lparr>p_data := d\<rparr>)" using assms(1) by (rule stored_fits_data)
  ultimately show ?thesis using stored_fits_failed [of "p\<lparr>p_data := d\<rparr>"] by auto
next
  case False
  with assms(2) have "p' = p \<or> p' = p\<lparr>p_state := Failed HPE_INVALID_EOF_STATE\<rparr>"
    by (auto simp: exec_eof_def message_complete_def callback2_def exec_init_def Let_def split: if_splits)
  then show ?thesis using assms(1) stored_fits_failed [OF assms(1)] by auto
qed

lemma stored_Running:
  "fits st p \<Longrightarrow> stored_fits (p\<lparr>p_state := Running st, p_header_state := h, p_index := i mod 2 ^ 8, p_nread := n mod 2 ^ 32\<rparr>)"
  by (simp add: stored_fits_def fits_def widths_def numbers_def)

lemma exec_result_fits:
  assumes "all_fit r" and "outcome_all N (return_ok dat) E r" and "exec_result r = Inr (p', n)"
  shows "stored_fits p'"
proof (cases r)
  case (Next x)
  then have "p' = (x_parser x)\<lparr>p_state := Running (x_state x), p_header_state := x_hstate x,
    p_index := x_index x mod 2 ^ 8, p_nread := x_nread x mod 2 ^ 32\<rparr>" using assms(3) by simp
  moreover from assms(1) Next have "fits (x_state x) (x_parser x)" by simp
  ultimately show ?thesis by (simp only: stored_Running)
next
  case (Return x m)
  with assms show ?thesis by (auto simp: stored_fits_def return_ok_def)
next
  case (Error x)
  with assms(1) have w: "widths (x_parser x)" by simp
  from assms(3) Error have "p' = (case p_state (x_parser x) of
      Running st \<Rightarrow> (x_parser x)\<lparr>p_state := Failed HPE_UNKNOWN\<rparr> | Failed e \<Rightarrow> x_parser x)" by simp
  with w show ?thesis by (cases "p_state (x_parser x)") (simp_all add: stored_fits_def fits_same)
qed (use assms(1) in simp)

lemma http_parser_execute_fits:
  assumes "parser_ok p" and "stored_fits p" and "\<not> upgrade p" and "http_parser_execute S p dat = Inr (p', n)"
  shows "stored_fits p'"
proof (cases "p_state p")
  case (Failed e)
  with assms show ?thesis by (simp add: http_parser_execute_def)
next
  case (Running st)
  with assms(2,3) have fit: "fits st p" by (simp add: stored_fits_def fits_def)
  show ?thesis
  proof (cases "dat = []")
    case True
    with assms(4) Running have "exec_eof S p st = Inr (p', n)" by (simp add: http_parser_execute_def)
    from exec_eof_stored [OF assms(2) this] show ?thesis .
  next
    case False
    have "loop_ok dat (exec_init p st dat)"
      using exec_init_ok [OF assms(1) Running, of dat] by (simp add: loop_ok_def) (simp add: exec_init_def Let_def)
    from exec_loop_ok [OF this, of S] exec_loop_fits [OF this] fit obtain r where r: "exec_loop S (exec_init p st dat) = Some r"
      "outcome_all (\<lambda>y. loop_ok dat y \<and> x_p y = length dat) (return_ok dat) (\<lambda>y. x_p y \<le> length dat) r" "all_fit r"
      by (auto simp: exec_init_def Let_def)
    from r(2) have "outcome_all (\<lambda>y. loop_ok dat y) (return_ok dat) (\<lambda>y. x_p y \<le> length dat) (and_then r (exec_end S))"
      by (cases r) (auto intro: exec_end_ok)
    moreover from r(3) have "all_fit (and_then r (exec_end S))" by (cases r) (auto intro: exec_end_fits)
    moreover have "exec_result (and_then r (exec_end S)) = Inr (p', n)"
      using assms(4) Running False r(1) by (simp add: http_parser_execute_def)
    ultimately show ?thesis by (intro exec_result_fits)
  qed
qed

lemma stored_fits_init: "widths p \<Longrightarrow> stored_fits (http_parser_init p t)"
  by (simp add: stored_fits_def http_parser_init_def fits_defs)

lemma feed_fits:
  "parser_ok p \<Longrightarrow> stored_fits p \<Longrightarrow> \<not> upgrade p \<Longrightarrow> feed S p ds = Inr p' \<Longrightarrow> stored_fits p'"
proof (induction ds arbitrary: p)
  case (Cons d ds)
  obtain q n where q: "http_parser_execute S p d = Inr (q, n)" "parser_ok q \<or> upgrade q"
    using http_parser_execute_spec [OF Cons.prems(1)] by blast
  have "stored_fits q" using http_parser_execute_fits [OF Cons.prems(1-3) q(1)] .
  with q Cons.prems(4) Cons.IH [of q] show ?case by (cases "upgrade q") auto
qed simp

section \<open>Storing the counters\<close>

text \<open>
  At the end of a buffer the code stores two local variables of type \<open>uint64_t\<close> in narrower fields: the index
  in an \<open>unsigned char\<close>, the count of header bytes in an \<open>uint32_t\<close>. This is the parser without the
  truncation.
\<close>

definition exact_result :: "'u outcome \<Rightarrow> ('u http_parser \<times> nat) res" where
  "exact_result r =
     (case r of
        Next x \<Rightarrow>
          Inr ((x_parser x)\<lparr>p_state := Running (x_state x), p_header_state := x_hstate x,
                 p_index := x_index x, p_nread := x_nread x\<rparr>, length (x_data x))
      | _ \<Rightarrow> exec_result r)"

definition execute_exact ::
    "'u http_parser_settings \<Rightarrow> 'u http_parser \<Rightarrow> string \<Rightarrow> ('u http_parser \<times> nat) res" where
  "execute_exact S p dat =
     (case p_state p of
        Failed e \<Rightarrow> Inr (p, 0)
      | Running st \<Rightarrow>
          if dat = [] then exec_eof S p st
          else
            (case exec_loop S (exec_init p st dat) of
               None \<Rightarrow> Inl Diverges
             | Some r \<Rightarrow> exact_result (and_then r (exec_end S))))"

fun feed_exact :: "'u http_parser_settings \<Rightarrow> 'u http_parser \<Rightarrow> string list \<Rightarrow> 'u http_parser res" where
  "feed_exact S p [] = Inr p"
| "feed_exact S p (d # ds) =
     bind_res (execute_exact S p d) (\<lambda>(p', n). if upgrade p' then Inr p' else feed_exact S p' ds)"

lemma execute_exact_eq:
  assumes "parser_ok p"
  shows "execute_exact S p dat = http_parser_execute S p dat"
proof (cases "p_state p")
  case (Running st)
  show ?thesis
  proof (cases "dat = []")
    case False
    have "loop_ok dat (exec_init p st dat)"
      using exec_init_ok [OF assms Running, of dat] by (simp add: loop_ok_def) (simp add: exec_init_def Let_def)
    from exec_loop_ok [OF this, of S] obtain r where r: "exec_loop S (exec_init p st dat) = Some r"
      "outcome_all (\<lambda>y. loop_ok dat y \<and> x_p y = length dat) (return_ok dat) (\<lambda>y. x_p y \<le> length dat) r" by blast
    from r(2) have "outcome_all (\<lambda>y. loop_ok dat y) (return_ok dat) (\<lambda>y. x_p y \<le> length dat) (and_then r (exec_end S))"
      by (cases r) (auto intro: exec_end_ok)
    then have "exact_result (and_then r (exec_end S)) = exec_result (and_then r (exec_end S))"
      by (cases "and_then r (exec_end S)")
        (simp_all add: exact_result_def loop_ok_def exec_ok_def core_ok_def HTTP_MAX_HEADER_SIZE_def)
    then show ?thesis using Running False r(1) by (simp add: execute_exact_def http_parser_execute_def)
  qed (simp add: execute_exact_def http_parser_execute_def Running)
qed (simp add: execute_exact_def http_parser_execute_def)

lemma feed_exact_eq: "parser_ok p \<Longrightarrow> feed_exact S p ds = feed S p ds"
proof (induction ds arbitrary: p)
  case (Cons d ds)
  obtain q n where q: "http_parser_execute S p d = Inr (q, n)" "parser_ok q \<or> upgrade q"
    using http_parser_execute_spec [OF Cons.prems] by blast
  then show ?case using execute_exact_eq [OF Cons.prems, of S d] Cons.IH [of q] by auto
qed simp

section \<open>Property\<close>

text \<open>C12. The fields of the parser are wide enough: for any buffers, up to the one that sets \<open>upgrade\<close>, and any callbacks,
  the parser that stores the index and the count of header bytes without truncating them behaves the
  same, so these never wrap around; and when the memory handed to \<open>http_parser_init\<close> holds numbers of
  the types of the fields, the version and the status, which the code accumulates digit by digit without
  a mask, stay below the bound of an \<open>unsigned short\<close>. (The content length does wrap around.)\<close>

theorem parser_fields_fit:
  assumes "widths p"
  shows "feed_exact S (http_parser_init p t) ds = feed S (http_parser_init p t) ds \<and>
    (\<exists>p'. feed S (http_parser_init p t) ds = Inr p' \<and>
       http_major p' < 2 ^ 16 \<and> http_minor p' < 2 ^ 16 \<and> status_code p' < 2 ^ 16)"
proof -
  have ok: "parser_ok (http_parser_init p t)" using assms by (intro parser_ok_init) (simp add: widths_def)
  obtain p' where p': "feed S (http_parser_init p t) ds = Inr p'" using feed_ok [OF ok] by blast
  have "\<not> upgrade (http_parser_init p t)" by (simp add: http_parser_init_def)
  from feed_fits [OF ok stored_fits_init [OF assms] this p'] have "widths p'" unfolding stored_fits_def by blast
  with p' feed_exact_eq [OF ok, of S ds] show ?thesis unfolding widths_def by blast
qed

theorem parser_fields_fit_witness:
  "feed_exact ignore (http_parser_init (raw_parser ()) HTTP_RESPONSE) [''HTTP/1.1 2'', ''00 OK''] =
     feed ignore (http_parser_init (raw_parser ()) HTTP_RESPONSE) [''HTTP/1.1 2'', ''00 OK''] \<and>
   (\<exists>p'. feed ignore (http_parser_init (raw_parser ()) HTTP_RESPONSE) [''HTTP/1.1 2'', ''00 OK''] = Inr p' \<and>
      http_major p' < 2 ^ 16 \<and> http_minor p' < 2 ^ 16 \<and> status_code p' < 2 ^ 16)"
  by (rule parser_fields_fit) (simp add: widths_def raw_parser_def)

end
