(* ===== verification/Lua_Dump.thy ===== *)
theory Lua_Dump
  imports Lua_Copy Request_Processor
begin

text \<open>
  The helpers of the library that only look: \<open>lua_stackdump\<close> of \<^verbatim>\<open>src/util/lua_util.c\<close>, which prints a
  stack, and \<open>dump_function\<close> of \<^verbatim>\<open>src/blocks/lua_message.c\<close>, which serialises a function.
\<close>

section \<open>Printing a stack\<close>

text \<open>\<open>lua_typename\<close> of the values that are not printed themselves; \<open>fmt\<close> is \<open>printf\<close> with \<open>%g\<close>.\<close>

fun lua_typename :: "lua_type \<Rightarrow> string" where
  "lua_typename LUA_TNONE = ''no value''"
| "lua_typename LUA_TNIL = ''nil''"
| "lua_typename LUA_TBOOLEAN = ''boolean''"
| "lua_typename LUA_TLIGHTUSERDATA = ''userdata''"
| "lua_typename LUA_TNUMBER = ''number''"
| "lua_typename LUA_TSTRING = ''string''"
| "lua_typename LUA_TTABLE = ''table''"
| "lua_typename LUA_TFUNCTION = ''function''"
| "lua_typename LUA_TUSERDATA = ''userdata''"
| "lua_typename LUA_TTHREAD = ''thread''"

definition print_string :: "byte list \<Rightarrow> byte list" where
  "print_string s = takeWhile (\<lambda>b. b \<noteq> 0) s"

definition dump_level :: "'L lua_api \<Rightarrow> (64 word \<Rightarrow> string) \<Rightarrow> 'L \<Rightarrow> int \<Rightarrow> byte list res" where
  "dump_level A fmt L i =
     (let t = lua_type A L i in
      bind_res
        (if t = LUA_TSTRING then
           (case lua_tolstring A L i of None \<Rightarrow> Inl Null_Deref | Some s \<Rightarrow> Inr (ascii ''`'' @ print_string s @ [39]))
         else if t = LUA_TBOOLEAN then Inr (ascii (if lua_toboolean A L i then ''true'' else ''false''))
         else if t = LUA_TNUMBER then Inr (ascii (fmt (lua_tonumber A L i)))
         else Inr (ascii (lua_typename t)))
        (\<lambda>out. Inr (out @ ascii '', '')))"

fun dump_loop :: "'L lua_api \<Rightarrow> (64 word \<Rightarrow> string) \<Rightarrow> 'L \<Rightarrow> int \<Rightarrow> nat \<Rightarrow> byte list res" where
  "dump_loop A fmt L i 0 = Inr []"
| "dump_loop A fmt L i (Suc n) =
     bind_res (dump_level A fmt L i) (\<lambda>out. bind_res (dump_loop A fmt L (i + 1) n) (\<lambda>rest. Inr (out @ rest)))"

definition lua_stackdump :: "'L lua_api \<Rightarrow> (64 word \<Rightarrow> string) \<Rightarrow> 'L \<Rightarrow> byte list res" where
  "lua_stackdump A fmt L =
     (let top = lua_gettop A L in
      bind_res (dump_loop A fmt L 1 (nat top)) (\<lambda>out.
        Inr (ascii (''-- Stack-dump ('' @ decimal (nat top) @ ''):'') @ out @ ascii [LF])))"

text \<open>What is printed of a value.\<close>

fun shown :: "(64 word \<Rightarrow> string) \<Rightarrow> lua_value \<Rightarrow> byte list" where
  "shown fmt (VStr s) = ascii ''`'' @ print_string s @ [39]"
| "shown fmt (VBool b) = ascii (if b then ''true'' else ''false'')"
| "shown fmt (VNum n) = ascii (fmt n)"
| "shown fmt v = ascii (lua_typename (type_of_value v))"

lemma dump_level_value:
  assumes "lua_laws A stk" and "slot (stk L) i = Some v"
  shows "dump_level A fmt L i = Inr (shown fmt v @ ascii '', '')"
  using lua_type_eq [OF assms] lua_to_value [OF assms(1), of L i] assms(2) by (cases v) (simp_all add: dump_level_def)

lemma dump_loop_values:
  assumes "lua_laws A stk"
  shows "stk L = below @ vs \<Longrightarrow> dump_loop A fmt L (int (length below) + 1) (length vs) =
    Inr (concat (map (\<lambda>v. shown fmt v @ ascii '', '') vs))"
proof (induction vs arbitrary: below)
  case (Cons v vs)
  have "dump_level A fmt L (int (length below) + 1) = Inr (shown fmt v @ ascii '', '')"
    using Cons.prems by (intro dump_level_value [OF assms]) (simp add: slot_mid)
  moreover have "dump_loop A fmt L (int (length below) + 1 + 1) (length vs) = Inr (concat (map (\<lambda>v. shown fmt v @ ascii '', '') vs))"
    using Cons.IH [of "below @ [v]"] Cons.prems by (simp add: add.assoc add.commute)
  ultimately show ?case by simp
qed simp

text \<open>The dump shows the values of the stack from the bottom to the top and never fails.\<close>

lemma lua_stackdump_shows:
  assumes "lua_laws A stk"
  shows "lua_stackdump A fmt L = Inr (ascii (''-- Stack-dump ('' @ decimal (length (stk L)) @ ''):'') @
    concat (map (\<lambda>v. shown fmt v @ ascii '', '') (stk L)) @ ascii [LF])"
  using dump_loop_values [OF assms, of L "[]" "stk L" fmt] lua_gettop_eq [OF assms, of L] by (simp add: lua_stackdump_def)

section \<open>Serialising a function\<close>

text \<open>\<open>size\<close> is, as in the source, the index of the function.\<close>

definition dump_function :: "'L lua_api \<Rightarrow> 'L lua_copy_api \<Rightarrow> 'L \<Rightarrow> int \<Rightarrow> ('L \<times> byte list \<times> int) res" where
  "dump_function A C L i =
     (let L1 = lua_pushvalue A L i in
      if lua_type A L1 i \<noteq> LUA_TFUNCTION then Inl (Lua_Error ''function expected'')
      else
        (case lua_dump C L1 of
           None \<Rightarrow> Inl (Lua_Error ''Could not dump function'')
         | Some chunks \<Rightarrow>
             let L2 = lua_pushlstring A L1 (fold function_writer chunks []);
                 fn_size = lua_rawlen A L2 (-1)
             in (case lua_tolstring A L2 (-1) of
                   None \<Rightarrow> Inl Null_Deref
                 | Some fn_dump \<Rightarrow> Inr (L2, fn_dump, fn_size))))"

lemma function_writer_chunks: "fold function_writer chunks out = out @ concat chunks"
  by (induction chunks arbitrary: out) (simp_all add: function_writer_def)

text \<open>It leaves the function and its dump on the stack and returns the dump with its size.\<close>

lemma dump_function_ok:
  assumes "lua_laws A stk" and "0 < i" and "slot (stk L) i = Some (VFun f)"
    and "lua_dump C (lua_pushvalue A L i) = Some chunks"
  shows "\<exists>L'. dump_function A C L i = Inr (L', concat chunks, int (length (concat chunks))) \<and>
    stk L' = stk L @ [VFun f, VStr (concat chunks)]"
proof -
  let ?L1 = "lua_pushvalue A L i" and ?L2 = "lua_pushlstring A (lua_pushvalue A L i) (concat chunks)"
  have stk: "stk ?L1 = stk L @ [VFun f]" "stk ?L2 = (stk L @ [VFun f]) @ [VStr (concat chunks)]"
    using lua_push_eq(4,7) [OF assms(1)] assms(3) by simp_all
  have "slot (stk ?L1) i = Some (VFun f)" using assms(2,3) stk(1) by (auto simp: slot_def nth_append split: if_splits)
  from lua_type_eq [OF assms(1) this] have "lua_type A ?L1 i = LUA_TFUNCTION" by simp
  moreover have top: "slot (stk ?L2) (-1) = Some (VStr (concat chunks))" unfolding stk(2) by (rule slot_top)
  note lua_rawlen_eq [OF assms(1) top] lua_to_value(5) [OF assms(1) top]
  ultimately show ?thesis using assms(4) stk(2) by (simp add: dump_function_def function_writer_chunks)
qed

end
