(* ===== verification/Spec2Isabelle.thy ===== *)
theory Spec2Isabelle
  imports Scheduler_Refines Message_Wait Eva_Server Http_Names Http_Widths Lua_Dump
begin

text \<open>
  A verification library of Blocks and of the HTTP server Eva that runs on it.

  \<^bold>\<open>The program.\<close> Blocks is a Lua library of processes that share nothing but messages. A process (a
  \<^emph>\<open>task\<close>) has a Lua state and a mailbox; a pool of threads takes tasks from a queue, runs the function
  on the task's stack, and answers the oldest message of its mailbox with what the function left
  (\<^verbatim>\<open>src/blocks/\<close>, \<^verbatim>\<open>src/util/\<close>). Eva is a server: a channel (\<^verbatim>\<open>src/comm/channel.c\<close>) reads the sockets of
  its clients in a select loop and calls three handlers of \<^verbatim>\<open>src/http/main.c\<close>; these keep a pool of
  HTTP parsers (\<^verbatim>\<open>src/3rd-party/http-parser/\<close>) whose callbacks (\<^verbatim>\<open>src/http/request_processor.c\<close>) collect
  the path and the query of a request and answer it with a file or by running a Lua script.

  \<^bold>\<open>The Lua processes.\<close>
  \<^item> \<open>Linked_List\<close>, \<open>Mailbox\<close>: \<^verbatim>\<open>mailbox.c\<close> on an explicit memory of messages and mailboxes. \<open>mail_of\<close> reads a
    mailbox as the list of its messages, \<open>world_ok\<close> says that the pointers form such lists and that no
    message is in two; sending, receiving, peeking, replying and releasing are specified by \<open>mail_of\<close>,
    and the lifetime of a message is a transition system with an invariant.
  \<^item> \<open>Message_Wait\<close>: the condition variable on which a sender sleeps until its message is answered, as steps
    of the waiting thread, of the thread that replies and signals, and of the others.
  \<^item> \<open>Lua_Api\<close>, \<open>Lua_Message\<close>, \<open>Lua_Util\<close>, \<open>Lua_Copy\<close>, \<open>Lua_Dump\<close>: \<^verbatim>\<open>lua_message.c\<close>, \<^verbatim>\<open>lua_util.c\<close> and the copying
    part of \<^verbatim>\<open>process.c\<close>. Messages are byte blocks laid out as the structs are; the lemmas are the round
    trip from one stack to another, the safety of the writer, and its size limit.
  \<^item> \<open>Task_Queue\<close>, \<open>Process\<close>, \<open>Blocks\<close>: \<^verbatim>\<open>process.c\<close> and \<^verbatim>\<open>blocks.c\<close>. A round of \<open>worker\<close>, the end of a task and
    \<open>process_spawn\<close> are functions on the memory; the functions registered with Lua are the functions
    \<open>l_...\<close>. The lemmas follow a message from \<open>send\<close> through the worker to \<open>get\<close>.
  \<^item> \<open>Scheduler\<close>: the interleaving of any number of senders and workers, one step per locked section.
    Its invariants hold for every schedule: a task is run by one worker at a time, no wake-up is lost,
    messages are answered once and in order. The races that remain are exhibited for any threads: the peek
    at a freed task, the late notification by a worker or a sender, the message sent to a dying task.
  \<^item> \<open>Scheduler_Refines\<close>: \<open>mailbox_send\<close>, \<open>process_spawn\<close> and a round of \<open>worker\<close> on the memory, run alone, are
    schedules of \<open>Scheduler\<close>, under the abstraction \<open>view\<close>.

  \<^bold>\<open>The server.\<close>
  \<^item> \<open>Http_Parser\<close>, \<open>Http_Steps\<close>, \<open>Http_Execute\<close>, \<open>Http_Names\<close>: \<^verbatim>\<open>http_parser.c\<close>, one definition per label of the
    switch, \<open>step\<close> for the switch, \<open>exec_loop\<close> for the loop with the marks of the parts of a URL, and
    \<open>http_parser_execute\<close>. \<open>parser_never_faults\<close>: up to the buffer that sets \<open>upgrade\<close>, no buffer makes it fail
    an assertion or read outside the buffer, and the loop ends.
  \<^item> \<open>Http_Widths\<close>: storing the counters of \<open>struct http_parser\<close> in their narrow fields loses nothing, and the
    version and status numbers fit theirs.
  \<^item> \<open>Http_Bytes\<close>, \<open>Http_Buffers\<close>: the parser as a machine that reads bytes, and its equivalence with
    \<open>http_parser_execute\<close> on buffers: how a connection is cut into buffers does not matter.
  \<^item> \<open>Http_Request\<close>: \<open>request_text\<close> prints a request; reading it yields its method, path and query.
  \<^item> \<open>Http_Invariant\<close>: what every callback keeps of its data, the parser keeps.
  \<^item> \<open>File_Util\<close>, \<open>Httpd_Conf\<close>, \<open>Request_Processor\<close>, \<open>Request_Server\<close>: paths and files, the configuration, the
    callbacks, and the callbacks behind the parser: a request for a file is answered with the file, one
    for a script runs it with the request, and the collected strings are terminated whatever is read.
  \<^item> \<open>Channel\<close>, \<open>Eva_Main\<close>, \<open>Eva_Server\<close>: the select loop with its client table, the pool of parsers and the
    handlers, and their composition: a refinement of the table of open connections, and the service of
    the next client after any history of the server.

  \<^bold>\<open>How the code is modelled.\<close> A C operation that can fail is a value of \<open>'a res\<close>, whose left side is a
  \<open>fault\<close>: a read through NULL or of freed memory, an index outside its array, a failed assertion, an
  error raised in Lua, or no return. Structs are records, enums datatypes, pointers the domain of a
  map that is the heap, bytes and the fixed-width fields words or integers with the wrap-around
  written out. Arrays are read and written by \<open>arr_read\<close> and \<open>arr_write\<close>, which check the index.
  A lock is modelled by the steps it makes atomic.

  \<^bold>\<open>Loops.\<close> Loops over data are recursive functions. The loops that may not end are \<open>partial_function\<close>s
  into \<open>option\<close>, and that they return is proved where it is claimed: \<open>exec_loop\<close> (the unread
  bytes decrease), \<open>destroy_loop\<close> (the mailbox shrinks), \<open>recv_loop\<close> for a client whose request has
  arrived. The select loop need not end; its safety is about the runs that do. \<open>copy_value\<close> and \<open>copy_table_loop\<close> have fuel, \<open>rt_fuel\<close>, because a table can
  contain itself: 1 is enough for stacks without tables, and running out is the fault \<open>Diverges\<close>.

  \<^bold>\<open>Interfaces.\<close> The locale \<open>fifo\<close> is the contract of a queue; \<open>mailq\<close> (mailboxes) and \<open>taskq\<close> (the pool's
  queue) interpret it. \<open>step_system\<close> is a transition system with an invariant: \<open>lifetime\<close> (a message),
  \<open>waiter\<close> (a thread that waits for a reply), \<open>scheduler\<close>, \<open>eva\<close> (the pool of parsers) and
  \<open>server\<close>. \<open>sink\<close> is a consumer of pieces: \<open>path_sink\<close>, \<open>query_sink\<close>. \<open>piecewise\<close> are callbacks for which the pieces do not matter: \<open>processor\<close>.
  \<open>data_invariant\<close> is a property of the data that the callbacks keep: \<open>faulty\<close>, \<open>terminated\<close>.

  \<^bold>\<open>What is assumed.\<close> Lua is a separate package, so its API is a record of functions, and
  \<open>lua_laws\<close>, \<open>copy_laws\<close>, \<open>ref_laws\<close> and \<open>server_laws\<close> state what its manual says of them. They are proved
  of a model of stacks as lists, on which the witnesses run. They describe a stack with room for what is
  pushed: the sources never call \<open>lua_checkstack\<close>. \<open>dump_fails\<close> says that \<open>lua_dump\<close> reports an error for a C
  function. The system calls of the channel are the record \<open>os\<close>: \<open>os_ok\<close> says that \<open>realloc\<close> finds memory
  and descriptors stay below \<open>FD_SETSIZE\<close>, \<open>quiet\<close> that it touches nothing of the program, and \<open>delivers\<close>
  what a client sends and that a read from the descriptor that the callback has closed fails. \<open>calm\<close> says
  that other threads leave alone a message that a worker has in hand; the recipient's reference to it is the
  worker's. \<open>junk_sized\<close>, \<open>takes_all\<close> and \<open>env_ok\<close>
  describe \<open>malloc\<close>'s contents, \<open>fwrite\<close> and new parsers.

  \<^bold>\<open>Not modelled.\<close> \<open>print_data\<close> and the macros of \<^verbatim>\<open>log.h\<close>, which print; the message handler
  \<open>traceback\<close>, which is only passed to the interpreter; the build of the parser with
  \<open>HTTP_PARSER_STRICT\<close> 1 (the Makefile sets 0) and its test driver \<^verbatim>\<open>test.c\<close>; the delivery of signals (the
  flag they clear is an argument of the loop); copying tables to a spawned task is modelled, but the
  theorems on spawning are about stacks without tables; the scripts and pages the server serves. Data races on
  single words are outside the model: a step of \<open>Scheduler\<close> is atomic.

  \<^bold>\<open>What modelling showed.\<close> The lemmas on faults name the places where the code leaves the
  behaviour it means to have: a second request in the buffer that ends the first is
  answered on a closed stream (\<open>second_request_faults\<close>), one connection beyond the pool corrupts it
  (\<open>extra_connection_corrupts_pool\<close>), a full pool of Lua states overflows (\<open>full_pool_overflows\<close>), data after
  an upgrade aborts (\<open>data_after_upgrade_aborts\<close>), lengths wrap around (\<open>lengths_wrap_around\<close>), a
  table in a message reads through NULL (\<open>table_message_null_deref\<close>), and the races of \<open>Scheduler\<close>.
\<close>

end
